(* ===== verification/Deer_Prelude.thy ===== *)
theory Deer_Prelude
  imports Main "HOL-Library.Word" "HOL-Library.Multiset" "HOL-Library.Monad_Syntax"
begin

unbundle bit_operations_syntax

text \<open>
  Shared types and lemmas of the development.

  The machine types of the C code are words of their width. A C array is a list; every access
  checks the bound, so that an access outside the object (undefined behaviour in C) is a value
  of the model and not an unspecified list element:
  \<^item> the kernel components return \<open>fault + 'a\<close>; \<open>Inl (Halted msg)\<close> is the
    \<open>cli; for (;;) hlt\<close> loop after the message \<open>msg\<close> has been printed;
  \<^item> the terminal returns \<open>'a option\<close>, where \<open>None\<close> is an access outside an array.
  The bounded \<open>for\<close> loops of the code are folds over the list of the values the loop
  variable takes (\<open>ofold\<close> for the terminal, \<open>efold\<close> for the kernel).
\<close>

type_synonym u8 = "8 word"
type_synonym u16 = "16 word"
type_synonym u32 = "32 word"
type_synonym u64 = "64 word"

section \<open>Faults\<close>

datatype fault = OutOfBounds | NullDeref | Halted string

definition ebind :: "'e + 'a \<Rightarrow> ('a \<Rightarrow> 'e + 'b) \<Rightarrow> 'e + 'b" where
  "ebind m f = (case m of Inl e \<Rightarrow> Inl e | Inr x \<Rightarrow> f x)"

lemma ebind_simps [simp]:
  "ebind (Inl e) f = Inl e" "ebind (Inr x) f = f x"
  by (simp_all add: ebind_def)

lemma ebind_Inr_iff: "ebind m f = Inr y \<longleftrightarrow> (\<exists>x. m = Inr x \<and> f x = Inr y)"
  by (cases m) auto

definition eget :: "'a list \<Rightarrow> nat \<Rightarrow> fault + 'a" where
  "eget xs i = (if i < length xs then Inr (xs ! i) else Inl OutOfBounds)"

definition eset :: "'a list \<Rightarrow> nat \<Rightarrow> 'a \<Rightarrow> fault + 'a list" where
  "eset xs i v = (if i < length xs then Inr (xs[i := v]) else Inl OutOfBounds)"

lemma eget_in [simp]: "i < length xs \<Longrightarrow> eget xs i = Inr (xs ! i)"
  by (simp add: eget_def)

lemma eset_in [simp]: "i < length xs \<Longrightarrow> eset xs i v = Inr (xs[i := v])"
  by (simp add: eset_def)

lemma eget_out [simp]: "length xs \<le> i \<Longrightarrow> eget xs i = Inl OutOfBounds"
  by (simp add: eget_def)

lemma eset_out [simp]: "length xs \<le> i \<Longrightarrow> eset xs i v = Inl OutOfBounds"
  by (simp add: eset_def)

primrec efold :: "('i \<Rightarrow> 's \<Rightarrow> 'e + 's) \<Rightarrow> 'i list \<Rightarrow> 's \<Rightarrow> 'e + 's" where
  "efold f [] s = Inr s"
| "efold f (i # is) s = ebind (f i s) (efold f is)"

lemma efold_append: "efold f (xs @ ys) s = ebind (efold f xs s) (efold f ys)"
  by (induction xs arbitrary: s) (auto simp: ebind_def split: sum.splits)

text \<open>A call of the terminal from kernel code: \<open>None\<close> is its access outside an array.\<close>

definition of_opt :: "'a option \<Rightarrow> fault + 'a" where
  "of_opt r = (case r of None \<Rightarrow> Inl OutOfBounds | Some x \<Rightarrow> Inr x)"

lemma of_opt_simps [simp]: "of_opt None = Inl OutOfBounds" "of_opt (Some x) = Inr x"
  by (simp_all add: of_opt_def)

text \<open>A dereferenced pointer that may be \<open>NULL\<close>.\<close>

definition deref :: "'a option \<Rightarrow> fault + 'a" where
  "deref p = (case p of None \<Rightarrow> Inl NullDeref | Some x \<Rightarrow> Inr x)"

lemma deref_simps [simp]: "deref None = Inl NullDeref" "deref (Some x) = Inr x"
  by (simp_all add: deref_def)

text \<open>Code that returns, and code that stops the machine with \<open>hlt\<close> in a loop.\<close>

datatype ('a, 'b) outcome = Returns 'a | Halts 'b

section \<open>Words\<close>

lemma word_of_nat_unat_64 [simp]: "(word_of_nat (unat (x :: u64)) :: u64) = x"
  by simp

lemma unat_lt_64: "unat (x :: u64) < 18446744073709551616"
  using unsigned_less [of x, where ?'a = nat] by simp

lemma word_less_unat: "(x :: 'a::len word) < y \<longleftrightarrow> unat x < unat y"
  by (rule word_less_nat_alt)

lemma word_le_unat: "(x :: 'a::len word) \<le> y \<longleftrightarrow> unat x \<le> unat y"
  by (rule word_le_nat_alt)

section \<open>Lists\<close>

lemma list_update_take_drop:
  "i < length xs \<Longrightarrow> xs[i := v] = take i xs @ v # drop (Suc i) xs"
  by (rule upd_conv_take_nth_drop)

lemma nth_drop_Cons: "i < length xs \<Longrightarrow> drop i xs = xs ! i # drop (Suc i) xs"
  by (simp add: Cons_nth_drop_Suc)

lemma rev_upt_Suc: "lo \<le> hi \<Longrightarrow> rev [lo..<Suc hi] = hi # rev [lo..<hi]"
  by simp

end
