(* ===== verification/PMM.thy ===== *)
theory PMM
  imports Deer_Prelude
begin

text \<open>
  The physical memory manager, \<open>kernel/mm/pmm.c\<close>: an array of at most 256 free regions,
  filled from the boot loader's memory map, a first-fit \<open>allocate\<close> and a \<open>deallocate\<close>
  that tries to merge neighbouring regions. The abstraction of a state is the list of the
  addresses of its free pages (\<open>free_pages\<close>); the lemmas show what each operation does to
  it, as multiset equations, so that no page is lost and none appears twice.
\<close>

section \<open>State\<close>

record region =
  start_addr :: u64
  num_pages :: u64

record pmm =
  free_regions :: "region list"
  num_free_regions :: u64

definition PAGE_SIZE :: u64 where "PAGE_SIZE = 4096"

definition MAX_FREE_REGIONS :: nat where "MAX_FREE_REGIONS = 256"

text \<open>The globals before any call: a zeroed array and no region.\<close>

definition pmm_boot :: pmm where
  "pmm_boot = \<lparr>free_regions = replicate MAX_FREE_REGIONS \<lparr>start_addr = 0, num_pages = 0\<rparr>,
               num_free_regions = 0\<rparr>"

text \<open>A memory map entry of the boot loader (\<open>struct limine_memmap_entry\<close>).\<close>

record memmap_entry =
  mm_base :: u64
  mm_length :: u64
  mm_type :: u64

definition LIMINE_MEMMAP_USABLE :: u64 where "LIMINE_MEMMAP_USABLE = 0"

section \<open>Operations\<close>

definition add_free_region :: "pmm \<Rightarrow> u64 \<Rightarrow> u64 \<Rightarrow> fault + pmm" where
  "add_free_region s start n =
     (if word_of_nat MAX_FREE_REGIONS \<le> num_free_regions s
      then Inl (Halted ''Max free regions reached. Halting...'')
      else ebind (eset (free_regions s) (unat (num_free_regions s))
                    \<lparr>start_addr = start, num_pages = n\<rparr>)
             (\<lambda>rs. Inr (s\<lparr>free_regions := rs, num_free_regions := num_free_regions s + 1\<rparr>)))"

definition init_entry :: "memmap_entry \<Rightarrow> pmm \<Rightarrow> fault + pmm" where
  "init_entry e s =
     (if mm_type e = LIMINE_MEMMAP_USABLE
      then let start = mm_base e;
               end_addr = mm_base e + mm_length e;
               n = (end_addr - start) div PAGE_SIZE
           in add_free_region s start n
      else Inr s)"

definition FreelistPMMInit :: "memmap_entry list \<Rightarrow> pmm \<Rightarrow> fault + pmm" where
  "FreelistPMMInit memmap s = efold init_entry memmap s"

text \<open>The loop of \<open>allocate\<close> over the remaining indices; past the last region it halts.\<close>

primrec allocate_loop :: "pmm \<Rightarrow> u64 \<Rightarrow> nat list \<Rightarrow> fault + (u64 \<times> pmm)" where
  "allocate_loop s n [] = Inl (Halted ''NULL returned from allocation. Halting...'')"
| "allocate_loop s n (i # is) =
     ebind (eget (free_regions s) i) (\<lambda>r.
       if n \<le> num_pages r
       then ebind (eset (free_regions s) i
                     (r\<lparr>start_addr := start_addr r + n * PAGE_SIZE,
                        num_pages := num_pages r - n\<rparr>))
              (\<lambda>rs. Inr (start_addr r, s\<lparr>free_regions := rs\<rparr>))
       else allocate_loop s n is)"

definition allocate :: "pmm \<Rightarrow> u64 \<Rightarrow> fault + (u64 \<times> pmm)" where
  "allocate s n = allocate_loop s n [0..<unat (num_free_regions s)]"

text \<open>
  \<open>deallocate\<close>: the scan for \<open>region_index\<close> (with its \<open>break\<close>), the two shifting
  loops, and the three-way case analysis.
\<close>

primrec find_region :: "region list \<Rightarrow> u64 \<Rightarrow> nat list \<Rightarrow> nat \<Rightarrow> fault + nat" where
  "find_region rs addr [] ri = Inr ri"
| "find_region rs addr (i # is) ri =
     ebind (eget rs i) (\<lambda>r. if start_addr r < addr then find_region rs addr is i else Inr ri)"

definition copy_region :: "nat \<Rightarrow> nat \<Rightarrow> region list \<Rightarrow> fault + region list" where
  "copy_region dst src rs = ebind (eget rs src) (\<lambda>r. eset rs dst r)"

definition shift_down :: "nat \<Rightarrow> nat \<Rightarrow> region list \<Rightarrow> fault + region list" where
  "shift_down lo hi rs = efold (\<lambda>i. copy_region i (i + 1)) [lo..<hi] rs"

definition shift_up :: "nat \<Rightarrow> nat \<Rightarrow> region list \<Rightarrow> fault + region list" where
  "shift_up lo hi rs = efold (\<lambda>i. copy_region i (i - 1)) (rev [Suc lo..<Suc hi]) rs"

definition region_end :: "region \<Rightarrow> u64" where
  "region_end r = start_addr r + num_pages r * PAGE_SIZE"

definition prev_adjacent :: "region list \<Rightarrow> nat \<Rightarrow> u64 \<Rightarrow> fault + bool" where
  "prev_adjacent rs ri addr =
     (if 0 < ri then ebind (eget rs (ri - 1)) (\<lambda>r. Inr (addr = region_end r)) else Inr False)"

definition next_adjacent :: "pmm \<Rightarrow> nat \<Rightarrow> u64 \<Rightarrow> u64 \<Rightarrow> fault + bool" where
  "next_adjacent s ri addr n =
     (if word_of_nat ri < num_free_regions s - 1
      then ebind (eget (free_regions s) (ri + 1))
             (\<lambda>r. Inr (addr + n * PAGE_SIZE = start_addr r))
      else Inr False)"

definition merge_prev :: "pmm \<Rightarrow> nat \<Rightarrow> u64 \<Rightarrow> fault + pmm" where
  "merge_prev s ri n =
     ebind (eget (free_regions s) (ri - 1)) (\<lambda>r.
     ebind (eset (free_regions s) (ri - 1) (r\<lparr>num_pages := num_pages r + n\<rparr>)) (\<lambda>rs.
     Inr (s\<lparr>free_regions := rs\<rparr>)))"

definition merge_next :: "pmm \<Rightarrow> nat \<Rightarrow> u64 \<Rightarrow> fault + pmm" where
  "merge_next s ri n =
     ebind (eget (free_regions s) ri) (\<lambda>r.
     ebind (eget (free_regions s) (ri + 1)) (\<lambda>r1.
     ebind (eset (free_regions s) ri
              (r\<lparr>num_pages := num_pages r + (n + num_pages r1)\<rparr>)) (\<lambda>rs.
     ebind (shift_down (ri + 1) (unat (num_free_regions s - 1)) rs) (\<lambda>rs'.
     Inr (s\<lparr>free_regions := rs', num_free_regions := num_free_regions s - 1\<rparr>)))))"

definition insert_region :: "pmm \<Rightarrow> nat \<Rightarrow> u64 \<Rightarrow> u64 \<Rightarrow> fault + pmm" where
  "insert_region s ri addr n =
     ebind (shift_up ri (unat (num_free_regions s)) (free_regions s)) (\<lambda>rs.
     ebind (eget rs ri) (\<lambda>r.
     ebind (eset rs ri (r\<lparr>start_addr := addr, num_pages := n\<rparr>)) (\<lambda>rs'.
     Inr (s\<lparr>free_regions := rs', num_free_regions := num_free_regions s + 1\<rparr>))))"

definition deallocate :: "pmm \<Rightarrow> u64 \<Rightarrow> u64 \<Rightarrow> fault + pmm" where
  "deallocate s addr n =
     ebind (find_region (free_regions s) addr [0..<unat (num_free_regions s)] 0) (\<lambda>ri.
     ebind (prev_adjacent (free_regions s) ri addr) (\<lambda>p.
       if p then merge_prev s ri n
       else ebind (next_adjacent s ri addr n) (\<lambda>q.
         if q then merge_next s ri n else insert_region s ri addr n)))"

section \<open>The free pages of a state\<close>

definition page_range :: "u64 \<Rightarrow> u64 \<Rightarrow> u64 list" where
  "page_range a n = map (\<lambda>k. a + word_of_nat k * PAGE_SIZE) [0..<unat n]"

definition region_pages :: "region \<Rightarrow> u64 list" where
  "region_pages r = page_range (start_addr r) (num_pages r)"

definition regions :: "pmm \<Rightarrow> region list" where
  "regions s = take (unat (num_free_regions s)) (free_regions s)"

definition free_pages :: "pmm \<Rightarrow> u64 list" where
  "free_pages s = concat (map region_pages (regions s))"

definition pmm_wf :: "pmm \<Rightarrow> bool" where
  "pmm_wf s \<longleftrightarrow> length (free_regions s) = MAX_FREE_REGIONS
                \<and> unat (num_free_regions s) \<le> MAX_FREE_REGIONS"

lemma length_regions: "pmm_wf s \<Longrightarrow> length (regions s) = unat (num_free_regions s)"
  by (simp add: pmm_wf_def regions_def)

lemma page_range_0 [simp]: "page_range a 0 = []"
  by (simp add: page_range_def)

lemma length_page_range [simp]: "length (page_range a n) = unat n"
  by (simp add: page_range_def)

lemma page_range_append:
  assumes "unat n + unat m < 2 ^ 64"
  shows "page_range a (n + m) = page_range a n @ page_range (a + n * PAGE_SIZE) m"
proof -
  have sum: "unat (n + m) = unat n + unat m"
    using assms by (simp add: unat_word_ariths)
  have "[0..<unat n + unat m] = [0..<unat n] @ map (\<lambda>k. unat n + k) [0..<unat m]"
    using upt_add_eq_append [of 0 "unat n" "unat m"] map_add_upt [of "unat n" "unat m"]
    by (simp add: add.commute)
  then show ?thesis
    unfolding page_range_def sum by (simp add: ring_distribs add.assoc)
qed

lemma page_range_split:
  assumes "n \<le> m"
  shows "page_range a m = page_range a n @ page_range (a + n * PAGE_SIZE) (m - n)"
proof -
  have "unat n + unat (m - n) = unat m"
    using assms by (simp add: unat_sub word_le_unat)
  then have "unat n + unat (m - n) < 2 ^ 64"
    using unat_lt_64 [of m] by simp
  from page_range_append [OF this, of a] show ?thesis by simp
qed

lemma in_page_range_last: "0 < n \<Longrightarrow> a + (n - 1) * PAGE_SIZE \<in> set (page_range a n)"
  unfolding page_range_def set_map
  by (rule image_eqI [where x = "unat (n - 1)"])
     (auto simp: word_less_unat unat_sub word_le_unat unat_minus_one)

section \<open>Allocation is first fit\<close>

lemma allocate_loop_find:
  assumes "\<forall>i \<in> set is. i < length (free_regions s)"
  shows "allocate_loop s n is =
    (case find (\<lambda>i. n \<le> num_pages (free_regions s ! i)) is of
       None \<Rightarrow> Inl (Halted ''NULL returned from allocation. Halting...'')
     | Some i \<Rightarrow> let r = free_regions s ! i in
         Inr (start_addr r,
              s\<lparr>free_regions := (free_regions s)[i :=
                 r\<lparr>start_addr := start_addr r + n * PAGE_SIZE,
                   num_pages := num_pages r - n\<rparr>]\<rparr>))"
  using assms by (induction "is") (auto simp: Let_def)

lemma allocate_cases:
  assumes wf: "pmm_wf s"
  obtains (halt) "allocate s n = Inl (Halted ''NULL returned from allocation. Halting...'')"
      "\<forall>r \<in> set (regions s). num_pages r < n"
    | (fit) i where "i < length (regions s)" "n \<le> num_pages (regions s ! i)"
      "\<forall>j < i. num_pages (regions s ! j) < n"
      "allocate s n = Inr (start_addr (regions s ! i),
         s\<lparr>free_regions := (free_regions s)[i :=
             (regions s ! i)\<lparr>start_addr := start_addr (regions s ! i) + n * PAGE_SIZE,
                num_pages := num_pages (regions s ! i) - n\<rparr>]\<rparr>)"
proof -
  let ?N = "unat (num_free_regions s)"
  have len: "length (regions s) = ?N" "?N \<le> length (free_regions s)"
    using wf by (simp_all add: length_regions) (simp add: pmm_wf_def)
  have nth: "regions s ! i = free_regions s ! i" if "i < ?N" for i
    using that by (simp add: regions_def)
  have loop: "allocate s n = (case find (\<lambda>i. n \<le> num_pages (free_regions s ! i)) [0..<?N] of
       None \<Rightarrow> Inl (Halted ''NULL returned from allocation. Halting...'')
     | Some i \<Rightarrow> let r = free_regions s ! i in
         Inr (start_addr r, s\<lparr>free_regions := (free_regions s)[i :=
                 r\<lparr>start_addr := start_addr r + n * PAGE_SIZE,
                   num_pages := num_pages r - n\<rparr>]\<rparr>))"
    unfolding allocate_def using len by (intro allocate_loop_find) auto
  show ?thesis
  proof (cases "find (\<lambda>i. n \<le> num_pages (free_regions s ! i)) [0..<?N]")
    case None
    then have "\<forall>i < ?N. num_pages (free_regions s ! i) < n"
      by (auto simp: find_None_iff not_le)
    then have "\<forall>r \<in> set (regions s). num_pages r < n"
      using len nth by (auto simp: in_set_conv_nth)
    with None loop halt show ?thesis by simp
  next
    case (Some i)
    then have i: "i < ?N" "n \<le> num_pages (free_regions s ! i)"
      "\<forall>j < i. num_pages (free_regions s ! j) < n"
      by (auto simp: find_Some_iff not_le)
    then have j: "\<forall>j < i. num_pages (regions s ! j) < n"
      by (simp add: nth)
    show ?thesis
      by (rule fit [of i]) (use i j Some loop len nth in \<open>simp_all add: Let_def\<close>)
  qed
qed

lemma regions_update:
  "i < unat (num_free_regions s) \<Longrightarrow>
   regions (s\<lparr>free_regions := (free_regions s)[i := r]\<rparr>) = (regions s)[i := r]"
  by (simp add: regions_def take_update_swap)

lemma mset_pages_update:
  assumes "i < length rs" "region_pages (rs ! i) = xs @ region_pages r"
  shows "mset (concat (map region_pages rs)) =
         mset xs + mset (concat (map region_pages (rs[i := r])))"
proof -
  have "rs = take i rs @ rs ! i # drop (Suc i) rs"
    using assms(1) by (rule id_take_nth_drop)
  then have 1: "concat (map region_pages rs) =
      concat (map region_pages (take i rs)) @ (xs @ region_pages r)
      @ concat (map region_pages (drop (Suc i) rs))"
    using assms(2) by (metis concat.simps(2) concat_append list.simps(9) map_append)
  have 2: "concat (map region_pages (rs[i := r])) =
      concat (map region_pages (take i rs)) @ region_pages r
      @ concat (map region_pages (drop (Suc i) rs))"
    using assms(1) by (simp add: list_update_take_drop)
  show ?thesis unfolding 1 2 by simp
qed

lemma allocate_conserves_pages:
  assumes "pmm_wf s" "allocate s n = Inr (a, s')"
  shows "mset (free_pages s) = mset (page_range a n) + mset (free_pages s') \<and> pmm_wf s'
         \<and> num_free_regions s' = num_free_regions s"
  using assms(1)
proof (cases rule: allocate_cases [of s n])
  case halt
  then show ?thesis using assms(2) by simp
next
  case (fit i)
  let ?r = "regions s ! i"
  let ?r' = "?r\<lparr>start_addr := start_addr ?r + n * PAGE_SIZE, num_pages := num_pages ?r - n\<rparr>"
  have s': "a = start_addr ?r" "s' = s\<lparr>free_regions := (free_regions s)[i := ?r']\<rparr>"
    using fit assms(2) by simp_all
  have i: "i < unat (num_free_regions s)"
    using fit(1) assms(1) by (simp add: length_regions)
  have "region_pages ?r = page_range a n @ region_pages ?r'"
    unfolding region_pages_def s' by (simp add: page_range_split [OF fit(2)])
  from mset_pages_update [OF fit(1) this] show ?thesis
    using assms(1) by (simp add: free_pages_def s' regions_update [OF i] pmm_wf_def)
qed

text \<open>
  C13: \<open>allocate\<close> takes exactly the pages it returns out of the free list: the pages that were
  free are the \<open>n\<close> consecutive pages from the returned address together with the pages that
  are free afterwards (as multisets, so nothing is lost or handed out twice), whatever the
  addresses are; the table keeps its shape.
\<close>

theorem allocate_conserves:
  assumes "pmm_wf s" "allocate s n = Inr (a, s')"
  shows "mset (free_pages s) = mset (page_range a n) + mset (free_pages s') \<and> pmm_wf s'"
  using allocate_conserves_pages [OF assms] by simp

section \<open>The shifting loops\<close>

lemma shift_up_in:
  "lo \<le> hi \<Longrightarrow> hi < length rs \<Longrightarrow>
   shift_up lo hi rs = Inr (take (Suc lo) rs @ drop lo (take hi rs) @ drop (Suc hi) rs)"
proof (induction hi arbitrary: rs)
  case 0
  then show ?case by (simp add: shift_up_def Cons_nth_drop_Suc take_Suc_conv_app_nth)
next
  case (Suc hi)
  show ?case
  proof (cases "lo = Suc hi")
    case True
    with Suc.prems show ?thesis by (simp add: shift_up_def flip: take_Suc)
  next
    case False
    with Suc.prems have lo: "lo \<le> hi" by simp
    let ?rs = "rs[Suc hi := rs ! hi]"
    have "shift_up lo (Suc hi) rs = shift_up lo hi ?rs"
      using Suc.prems lo by (simp add: shift_up_def copy_region_def)
    also have "\<dots> = Inr (take (Suc lo) ?rs @ drop lo (take hi ?rs) @ drop (Suc hi) ?rs)"
      using Suc.prems lo by (intro Suc.IH) simp_all
    also have "take (Suc lo) ?rs = take (Suc lo) rs" using lo by simp
    also have "drop lo (take hi ?rs) = drop lo (take hi rs)" by simp
    also have "drop (Suc hi) ?rs = rs ! hi # drop (Suc (Suc hi)) rs"
      using Suc.prems by (simp add: drop_update_swap flip: Cons_nth_drop_Suc)
    finally show ?thesis
      using Suc.prems lo by (simp add: take_Suc_conv_app_nth)
  qed
qed

lemma shift_up_full: "lo < length rs \<Longrightarrow> shift_up lo (length rs) rs = Inl OutOfBounds"
  by (simp add: shift_up_def copy_region_def)

lemma shift_down_in:
  "lo \<le> hi \<Longrightarrow> hi < length rs \<Longrightarrow>
   shift_down lo hi rs = Inr (take lo rs @ drop (Suc lo) (take (Suc hi) rs) @ drop hi rs)"
proof (induction hi)
  case 0
  then show ?case by (simp add: shift_down_def)
next
  case (Suc hi)
  show ?case
  proof (cases "lo = Suc hi")
    case True
    with Suc.prems show ?thesis by (simp add: shift_down_def)
  next
    case False
    with Suc.prems have lo: "lo \<le> hi" "hi < length rs" by simp_all
    let ?xs = "take lo rs @ drop (Suc lo) (take (Suc hi) rs) @ drop hi rs"
    have len: "length (take lo rs @ drop (Suc lo) (take (Suc hi) rs)) = hi"
      using lo by simp
    have "shift_down lo (Suc hi) rs = ebind (shift_down lo hi rs) (copy_region hi (Suc hi))"
      using lo by (simp add: shift_down_def efold_append ebind_def split: sum.splits)
    also have "\<dots> = copy_region hi (Suc hi) ?xs" using Suc.IH lo by simp
    also have "\<dots> = Inr (?xs[hi := ?xs ! Suc hi])"
      using Suc.prems lo by (simp add: copy_region_def)
    also have "?xs ! Suc hi = rs ! Suc hi"
      using len Suc.prems by (simp add: nth_append del: append_assoc flip: append_assoc)
    also have "?xs[hi := rs ! Suc hi] =
        take lo rs @ drop (Suc lo) (take (Suc hi) rs) @ (drop hi rs)[0 := rs ! Suc hi]"
      using len by (simp add: list_update_append del: append_assoc flip: append_assoc)
    also have "(drop hi rs)[0 := rs ! Suc hi] = rs ! Suc hi # drop (Suc hi) rs"
      using lo by (simp flip: Cons_nth_drop_Suc)
    finally show ?thesis
      using Suc.prems lo by (simp add: take_Suc_conv_app_nth [of "Suc hi"])
  qed
qed

section \<open>The scan of deallocate\<close>

lemma find_region_scan:
  "i \<le> N \<Longrightarrow> N \<le> length rs \<Longrightarrow> \<forall>k < i. start_addr (rs ! k) < addr \<Longrightarrow>
   \<exists>j \<le> N. find_region rs addr [i..<N] (i - 1) = Inr (j - 1) \<and>
           (\<forall>k < j. start_addr (rs ! k) < addr) \<and> (j < N \<longrightarrow> addr \<le> start_addr (rs ! j))"
proof (induction "N - i" arbitrary: i)
  case 0
  then show ?case by (intro exI [of _ N]) simp
next
  case (Suc d)
  then have i: "i < N" by simp
  then have upt: "[i..<N] = i # [Suc i..<N]" by (rule upt_conv_Cons)
  show ?case
  proof (cases "start_addr (rs ! i) < addr")
    case True
    then have "\<forall>k < Suc i. start_addr (rs ! k) < addr"
      using Suc.prems by (simp add: less_Suc_eq)
    with Suc.hyps(1) [of "Suc i"] Suc.hyps(2) Suc.prems i True show ?thesis
      by (simp add: upt)
  next
    case False
    then show ?thesis
      using Suc.prems i by (intro exI [of _ i]) (simp add: upt not_less leD)
  qed
qed

text \<open>The index that the scan leaves in \<open>region_index\<close>.\<close>

definition region_index :: "pmm \<Rightarrow> u64 \<Rightarrow> nat" where
  "region_index s addr = length (takeWhile (\<lambda>r. start_addr r < addr) (regions s)) - 1"

lemma find_region_eq:
  assumes "pmm_wf s"
  shows "find_region (free_regions s) addr [0..<unat (num_free_regions s)] 0
         = Inr (region_index s addr)"
proof -
  let ?N = "unat (num_free_regions s)"
  obtain j where j: "j \<le> ?N"
      "find_region (free_regions s) addr [0..<?N] 0 = Inr (j - 1)"
      "\<forall>k < j. start_addr (free_regions s ! k) < addr"
      "j < ?N \<longrightarrow> addr \<le> start_addr (free_regions s ! j)"
    using find_region_scan [of 0 ?N "free_regions s" addr] assms
    by (auto simp: pmm_wf_def)
  have "takeWhile (\<lambda>r. start_addr r < addr) (regions s) = take j (regions s)"
    using j length_regions [OF assms]
    by (intro takeWhile_eq_take_P_nth) (auto simp: regions_def not_less)
  then have "length (takeWhile (\<lambda>r. start_addr r < addr) (regions s)) = j"
    using j(1) length_regions [OF assms] by simp
  with j(2) show ?thesis by (simp add: region_index_def)
qed

section \<open>The three ways deallocate returns a range\<close>

lemma region_index_less: "regions s \<noteq> [] \<Longrightarrow> region_index s addr < length (regions s)"
  using length_takeWhile_le [of "\<lambda>r. start_addr r < addr" "regions s"]
  by (cases "regions s") (auto simp: region_index_def)

lemma regions_nth: "i < length (regions s) \<Longrightarrow> free_regions s ! i = regions s ! i"
  by (simp add: regions_def)

lemma num_minus_1: "0 < (x :: u64) \<Longrightarrow> unat (x - 1) = unat x - 1"
  by (simp add: unat_minus_one word_neq_0_conv)

lemma merge_prev_regions:
  assumes "pmm_wf s" "i < length (regions s)" "0 < i"
  shows "merge_prev s i n = Inr (s\<lparr>free_regions := (free_regions s)[i - 1 :=
           (regions s ! (i - 1))\<lparr>num_pages := num_pages (regions s ! (i - 1)) + n\<rparr>]\<rparr>)"
proof -
  have "i - 1 < length (free_regions s)" "i - 1 < length (regions s)"
    using assms by (auto simp: regions_def)
  then show ?thesis by (simp add: merge_prev_def regions_nth)
qed

lemma merge_next_regions:
  assumes "pmm_wf s" "Suc i < length (regions s)"
  shows "\<exists>s'. merge_next s i n = Inr s' \<and> pmm_wf s' \<and>
     regions s' = take i (regions s) @
       (regions s ! i)\<lparr>num_pages := num_pages (regions s ! i)
                                  + (n + num_pages (regions s ! Suc i))\<rparr>
       # drop (Suc (Suc i)) (regions s)"
proof -
  let ?N = "unat (num_free_regions s)" and ?fr = "free_regions s"
  have N: "Suc i < ?N" "?N \<le> length ?fr" "length ?fr = MAX_FREE_REGIONS"
    using assms by (simp_all add: length_regions pmm_wf_def)
  then have pos: "0 < num_free_regions s" by (simp add: word_less_unat)
  let ?r = "(regions s ! i)\<lparr>num_pages := num_pages (regions s ! i)
                                  + (n + num_pages (regions s ! Suc i))\<rparr>"
  let ?rs = "?fr[i := ?r]"
  let ?rs' = "take (Suc i) ?rs @ drop (Suc (Suc i)) (take ?N ?rs) @ drop (?N - 1) ?rs"
  have nth: "?fr ! i = regions s ! i" "?fr ! Suc i = regions s ! Suc i"
    using assms(2) by (simp_all add: regions_nth)
  have "shift_down (Suc i) (?N - 1) ?rs = Inr ?rs'"
    using shift_down_in [of "Suc i" "?N - 1" ?rs] N by simp
  then have m: "merge_next s i n =
      Inr (s\<lparr>free_regions := ?rs', num_free_regions := num_free_regions s - 1\<rparr>)"
    using N by (simp add: merge_next_def nth num_minus_1 [OF pos])
  have "take (?N - 1) ?rs' = take (Suc i) ?rs @ drop (Suc (Suc i)) (take ?N ?rs)"
    using N by simp
  also have "\<dots> = take i (regions s) @ ?r # drop (Suc (Suc i)) (regions s)"
    using N by (simp add: regions_def take_Suc_conv_app_nth drop_take)
  finally have "take (?N - 1) ?rs' = take i (regions s) @ ?r # drop (Suc (Suc i)) (regions s)" .
  then show ?thesis
    unfolding m using N by (simp add: pmm_wf_def regions_def num_minus_1 [OF pos])
qed

lemma region_overwrite: "(r :: region)\<lparr>start_addr := a, num_pages := n\<rparr> = \<lparr>start_addr = a, num_pages = n\<rparr>"
  by (cases r) simp

lemma insert_region_regions:
  assumes "pmm_wf s" "i < length (regions s)" "length (regions s) < MAX_FREE_REGIONS"
  shows "\<exists>s'. insert_region s i addr n = Inr s' \<and> pmm_wf s' \<and>
     regions s' = take i (regions s) @ \<lparr>start_addr = addr, num_pages = n\<rparr> # drop i (regions s)"
proof -
  let ?N = "unat (num_free_regions s)" and ?fr = "free_regions s"
  have N: "i < ?N" "?N < length ?fr" "length ?fr = MAX_FREE_REGIONS"
    using assms by (simp_all add: length_regions pmm_wf_def)
  have Suc: "unat (num_free_regions s + 1) = Suc ?N"
    using N by (simp add: unat_word_ariths MAX_FREE_REGIONS_def)
  let ?rs = "take (Suc i) ?fr @ drop i (take ?N ?fr) @ drop (Suc ?N) ?fr"
  let ?r = "\<lparr>start_addr = addr, num_pages = n\<rparr>"
  have sh: "shift_up i ?N ?fr = Inr ?rs" using N by (intro shift_up_in) simp_all
  have len: "i < length ?rs" using N by simp
  have m: "insert_region s i addr n = Inr (s\<lparr>free_regions := ?rs[i := ?r],
              num_free_regions := num_free_regions s + 1\<rparr>)"
    unfolding insert_region_def sh ebind_simps eget_in [OF len] eset_in [OF len]
      region_overwrite ..
  have "?rs[i := ?r] = (take i ?fr @ ?r # drop i (take ?N ?fr)) @ drop (Suc ?N) ?fr"
    using N by (simp add: take_Suc_conv_app_nth list_update_append)
  then have "take (Suc ?N) (?rs[i := ?r]) = take i ?fr @ ?r # drop i (take ?N ?fr)"
    using N by (simp add: Suc_diff_le)
  then show ?thesis
    unfolding m using N by (simp add: pmm_wf_def regions_def Suc)
qed

lemma deallocate_cases:
  fixes s :: pmm and addr n :: u64
  assumes wf: "pmm_wf s" and ne: "regions s \<noteq> []"
  defines "i \<equiv> region_index s addr"
  obtains
    (prev) "0 < i" "addr = region_end (regions s ! (i - 1))" "deallocate s addr n = merge_prev s i n"
  | (nxt) "Suc i < length (regions s)" "addr + n * PAGE_SIZE = start_addr (regions s ! Suc i)"
      "\<not> (0 < i \<and> addr = region_end (regions s ! (i - 1)))"
      "deallocate s addr n = merge_next s i n"
  | (new) "\<not> (0 < i \<and> addr = region_end (regions s ! (i - 1)))"
      "\<not> (Suc i < length (regions s) \<and> addr + n * PAGE_SIZE = start_addr (regions s ! Suc i))"
      "deallocate s addr n = insert_region s i addr n"
proof -
  let ?N = "unat (num_free_regions s)"
  have N: "i < ?N" "?N \<le> length (free_regions s)" "length (free_regions s) = MAX_FREE_REGIONS"
    using wf region_index_less [OF ne] by (simp_all add: length_regions pmm_wf_def i_def)
  have len: "length (regions s) = ?N" using wf by (rule length_regions)
  have pos: "0 < num_free_regions s" using N by (simp add: word_less_unat)
  have lt: "word_of_nat i < num_free_regions s - 1 \<longleftrightarrow> Suc i < ?N"
    using N unfolding word_less_unat num_minus_1 [OF pos]
    by (simp add: unat_of_nat MAX_FREE_REGIONS_def) linarith
  have p: "prev_adjacent (free_regions s) i addr
           = Inr (0 < i \<and> addr = region_end (regions s ! (i - 1)))"
    using N len by (auto simp: prev_adjacent_def regions_nth)
  have q: "next_adjacent s i addr n
           = Inr (Suc i < ?N \<and> addr + n * PAGE_SIZE = start_addr (regions s ! Suc i))"
    using N len by (auto simp: next_adjacent_def lt regions_nth)
  have d: "deallocate s addr n =
      (if 0 < i \<and> addr = region_end (regions s ! (i - 1)) then merge_prev s i n
       else if Suc i < ?N \<and> addr + n * PAGE_SIZE = start_addr (regions s ! Suc i)
       then merge_next s i n else insert_region s i addr n)"
    unfolding deallocate_def find_region_eq [OF wf] i_def [symmetric] ebind_simps p q ..
  then show ?thesis
    using prev nxt new len by (auto split: if_splits)
qed

lemma free_pages_append:
  "regions s = xs @ ys \<Longrightarrow>
   free_pages s = concat (map region_pages xs) @ concat (map region_pages ys)"
  by (simp add: free_pages_def)

lemma region_pages_grow:
  "unat (num_pages r) + unat n < 2 ^ 64 \<Longrightarrow>
   region_pages (r\<lparr>num_pages := num_pages r + n\<rparr>) = region_pages r @ page_range (region_end r) n"
  by (simp add: region_pages_def page_range_append region_end_def)

text \<open>What a caller of \<open>deallocate\<close> has to meet for the range to be returned intact.\<close>

definition no_page_overflow :: "pmm \<Rightarrow> u64 \<Rightarrow> bool" where
  "no_page_overflow s n \<longleftrightarrow>
     (\<Sum>r\<leftarrow>regions s. unat (num_pages r)) + unat n < 2 ^ 64"

definition next_merge_adjacent :: "pmm \<Rightarrow> u64 \<Rightarrow> u64 \<Rightarrow> bool" where
  "next_merge_adjacent s addr n \<longleftrightarrow>
     (\<forall>i < length (regions s). Suc i < length (regions s) \<longrightarrow>
        addr + n * PAGE_SIZE = start_addr (regions s ! Suc i) \<longrightarrow>
        addr = region_end (regions s ! i))"

lemma sum_two_le:
  fixes f :: "'a \<Rightarrow> nat"
  shows "i < j \<Longrightarrow> j < length xs \<Longrightarrow> f (xs ! i) + f (xs ! j) \<le> (\<Sum>x\<leftarrow>xs. f x)"
proof (induction xs arbitrary: i j)
  case (Cons x xs)
  have le: "f (xs ! k) \<le> (\<Sum>x\<leftarrow>xs. f x)" if "k < length xs" for k
    using that by (simp add: member_le_sum_list)
  show ?case
  proof (cases i)
    case 0
    with Cons.prems le [of "j - 1"] show ?thesis by (cases j) simp_all
  next
    case (Suc i')
    with Cons.prems Cons.IH [of i' "j - 1"] show ?thesis by (cases j) simp_all
  qed
qed simp

text \<open>
  C14: \<open>deallocate\<close> gives back exactly the range it is handed: the pages free afterwards are
  those free before together with the \<open>n\<close> pages from \<open>addr\<close>. This needs a table that is not
  empty (as after a boot with a usable region; \<open>allocate\<close> removes none) and has room, page counts
  that do not overflow, and that a merge with the next region only happens when the region before it
  also ends at \<open>addr\<close>: the code tests the first and relies on the second.
\<close>

theorem deallocate_conserves:
  assumes wf: "pmm_wf s" and ne: "regions s \<noteq> []"
    and room: "length (regions s) < MAX_FREE_REGIONS"
    and ovf: "no_page_overflow s n" and adj: "next_merge_adjacent s addr n"
  shows "\<exists>s'. deallocate s addr n = Inr s' \<and> pmm_wf s' \<and>
         mset (free_pages s') = mset (free_pages s) + mset (page_range addr n)"
proof -
  let ?i = "region_index s addr" and ?R = "regions s"
  have i: "?i < length ?R" using ne by (rule region_index_less)
  note two = sum_two_le [of _ _ ?R "\<lambda>r. unat (num_pages r)"]
  have one: "unat (num_pages (?R ! k)) + unat n < 2 ^ 64" if "k < length ?R" for k
  proof -
    have "unat (num_pages (?R ! k)) \<le> (\<Sum>r\<leftarrow>?R. unat (num_pages r))"
      using that by (simp add: member_le_sum_list)
    then show ?thesis using ovf by (simp add: no_page_overflow_def)
  qed
  from wf ne show ?thesis
  proof (cases rule: deallocate_cases [of s addr n])
    case prev
    obtain k where ik: "?i = Suc k" using prev(1) gr0_conv_Suc by blast
    have k: "k < length ?R" "k < unat (num_free_regions s)"
      using i ik length_regions [OF wf] by simp_all
    have a: "addr = region_end (?R ! k)" using prev(2) ik by simp
    have "mset (free_pages s) + mset (page_range addr n) =
          mset (concat (map region_pages (?R[k := (?R ! k)\<lparr>num_pages := num_pages (?R ! k) + n\<rparr>])))"
      unfolding a using free_pages_append [OF id_take_nth_drop [OF k(1)]]
      by (simp add: list_update_take_drop [OF k(1)] region_pages_grow [OF one [OF k(1)]])
    then show ?thesis
      using prev(3) merge_prev_regions [OF wf i prev(1)] wf ik
      by (simp add: free_pages_def regions_update [OF k(2)] pmm_wf_def)
  next
    case nxt
    let ?r = "?R ! ?i" and ?r1 = "?R ! Suc ?i"
    have a: "addr = region_end ?r" using adj nxt(1,2) i by (auto simp: next_merge_adjacent_def)
    have "unat (num_pages ?r) + unat (num_pages ?r1) + unat n < 2 ^ 64"
      using two [of ?i "Suc ?i"] nxt(1) ovf by (simp add: no_page_overflow_def)
    then have u: "unat (num_pages ?r) + unat (n + num_pages ?r1) < 2 ^ 64"
        "unat n + unat (num_pages ?r1) < 2 ^ 64"
      by (simp_all add: unat_word_ariths)
    have e: "page_range (region_end ?r) (n + num_pages ?r1) = page_range addr n @ region_pages ?r1"
      unfolding page_range_append [OF u(2)] a [symmetric] nxt(2) region_pages_def ..
    obtain s' where s': "deallocate s addr n = Inr s'" "pmm_wf s'"
      "regions s' = take ?i ?R @ ?r\<lparr>num_pages := num_pages ?r + (n + num_pages ?r1)\<rparr>
         # drop (Suc (Suc ?i)) ?R"
      using merge_next_regions [OF wf nxt(1)] nxt(4) by auto
    have split: "?R = take ?i ?R @ ?r # ?r1 # drop (Suc (Suc ?i)) ?R"
      using nxt(1) i by (simp add: Cons_nth_drop_Suc)
    have "mset (free_pages s') = mset (free_pages s) + mset (page_range addr n)"
      using free_pages_append [OF s'(3)] free_pages_append [OF split]
      by (simp add: region_pages_grow [OF u(1)] e)
    with s' show ?thesis by blast
  next
    case new
    obtain s' where s': "deallocate s addr n = Inr s'" "pmm_wf s'"
      "regions s' = take ?i ?R @ \<lparr>start_addr = addr, num_pages = n\<rparr> # drop ?i ?R"
      using insert_region_regions [OF wf i room] new(3) by auto
    have split: "?R = take ?i ?R @ drop ?i ?R" by simp
    have "mset (free_pages s') = mset (free_pages s) + mset (page_range addr n)"
      using free_pages_append [OF s'(3)] free_pages_append [OF split]
      by (simp add: region_pages_def)
    with s' show ?thesis by blast
  qed
qed

section \<open>Runs of allocations\<close>

text \<open>A client that allocates ranges of the given sizes one after the other.\<close>

primrec allocate_all :: "pmm \<Rightarrow> u64 list \<Rightarrow> fault + (u64 list \<times> pmm)" where
  "allocate_all s [] = Inr ([], s)"
| "allocate_all s (n # ns) =
     ebind (allocate s n) (\<lambda>(a, s1).
     ebind (allocate_all s1 ns) (\<lambda>(as, s2). Inr (a # as, s2)))"

lemma allocate_all_conserves:
  "pmm_wf s \<Longrightarrow> allocate_all s ns = Inr (as, s') \<Longrightarrow>
   length as = length ns \<and>
   mset (free_pages s) = mset (concat (map2 page_range as ns)) + mset (free_pages s')"
proof (induction ns arbitrary: s as)
  case Nil
  then show ?case by simp
next
  case (Cons n ns)
  from Cons.prems(2) obtain a s1 as1 where
    a: "allocate s n = Inr (a, s1)" "allocate_all s1 ns = Inr (as1, s')" "as = a # as1"
    by (auto simp: ebind_Inr_iff)
  then show ?case
    using Cons.IH [OF _ a(2)] allocate_conserves_pages [OF Cons.prems(1) a(1)] by simp
qed

text \<open>
  C15: if no page is free twice, then all ranges ever handed out by a run of allocations are
  disjoint, from each other and from what is still free.
\<close>

theorem allocations_disjoint:
  assumes "pmm_wf s" "distinct (free_pages s)" "allocate_all s ns = Inr (as, s')"
  shows "distinct (concat (map2 page_range as ns) @ free_pages s')"
proof -
  have "mset (free_pages s) = mset (concat (map2 page_range as ns) @ free_pages s')"
    using allocate_all_conserves [OF assms(1,3)] by simp
  then show ?thesis
    using assms(2) mset_eq_imp_distinct_iff by blast
qed

text \<open>
  C31: \<open>allocate\<close> halts the machine exactly when every region is smaller than the request; it
  never halts for another reason and never leaves the array.
\<close>

theorem allocate_halts_iff:
  assumes "pmm_wf s"
  shows "allocate s n = Inl f \<longleftrightarrow>
    f = Halted ''NULL returned from allocation. Halting...'' \<and> (\<forall>r \<in> set (regions s). num_pages r < n)"
  using assms
proof (cases rule: allocate_cases [of s n])
  case halt
  then show ?thesis by auto
next
  case (fit i)
  then have "\<not> (\<forall>r \<in> set (regions s). num_pages r < n)"
    using nth_mem [OF fit(1)] by (auto simp: not_less)
  then show ?thesis unfolding fit(4) by blast
qed

section \<open>Initialisation\<close>

definition usable :: "memmap_entry list \<Rightarrow> memmap_entry list" where
  "usable memmap = filter (\<lambda>e. mm_type e = LIMINE_MEMMAP_USABLE) memmap"

definition entry_region :: "memmap_entry \<Rightarrow> region" where
  "entry_region e = \<lparr>start_addr = mm_base e, num_pages = mm_length e div PAGE_SIZE\<rparr>"

lemma add_free_region_room:
  assumes "pmm_wf s" "length (regions s) < MAX_FREE_REGIONS"
  shows "\<exists>s'. add_free_region s a n = Inr s' \<and> pmm_wf s' \<and>
              regions s' = regions s @ [\<lparr>start_addr = a, num_pages = n\<rparr>]"
proof -
  let ?N = "unat (num_free_regions s)"
  have N: "?N < MAX_FREE_REGIONS" "length (free_regions s) = MAX_FREE_REGIONS"
    using assms by (simp_all add: length_regions pmm_wf_def)
  have Suc: "unat (num_free_regions s + 1) = Suc ?N"
    using N by (simp add: unat_word_ariths MAX_FREE_REGIONS_def)
  have "\<not> word_of_nat MAX_FREE_REGIONS \<le> num_free_regions s"
    using N by (simp add: word_le_unat MAX_FREE_REGIONS_def)
  then show ?thesis
    using N by (simp add: add_free_region_def pmm_wf_def regions_def Suc take_Suc_conv_app_nth)
qed

lemma add_free_region_full:
  "pmm_wf s \<Longrightarrow> length (regions s) = MAX_FREE_REGIONS \<Longrightarrow>
   add_free_region s a n = Inl (Halted ''Max free regions reached. Halting...'')"
  by (simp add: add_free_region_def length_regions word_le_unat MAX_FREE_REGIONS_def)

lemma init_entry_eq:
  "init_entry e s = (if mm_type e = LIMINE_MEMMAP_USABLE
     then add_free_region s (mm_base e) (mm_length e div PAGE_SIZE) else Inr s)"
  by (simp add: init_entry_def Let_def)

lemma FreelistPMMInit_room:
  "pmm_wf s \<Longrightarrow> length (regions s) + length (usable memmap) \<le> MAX_FREE_REGIONS \<Longrightarrow>
   \<exists>s'. FreelistPMMInit memmap s = Inr s' \<and> pmm_wf s' \<and>
        regions s' = regions s @ map entry_region (usable memmap)"
proof (induction memmap arbitrary: s)
  case Nil
  then show ?case by (simp add: FreelistPMMInit_def usable_def)
next
  case (Cons e es)
  show ?case
  proof (cases "mm_type e = LIMINE_MEMMAP_USABLE")
    case True
    with Cons.prems obtain s1 where s1: "init_entry e s = Inr s1" "pmm_wf s1"
      "regions s1 = regions s @ [entry_region e]"
      using add_free_region_room [OF Cons.prems(1), of "mm_base e" "mm_length e div PAGE_SIZE"]
      by (auto simp: usable_def init_entry_eq entry_region_def)
    with Cons.IH [of s1] Cons.prems(2) True show ?thesis
      by (simp add: FreelistPMMInit_def usable_def)
  next
    case False
    with Cons.IH [of s] Cons.prems show ?thesis
      by (simp add: FreelistPMMInit_def usable_def init_entry_eq)
  qed
qed

lemma FreelistPMMInit_full:
  "pmm_wf s \<Longrightarrow> length (regions s) + length (usable memmap) > MAX_FREE_REGIONS \<Longrightarrow>
   FreelistPMMInit memmap s = Inl (Halted ''Max free regions reached. Halting...'')"
proof (induction memmap arbitrary: s)
  case Nil
  then show ?case by (simp add: usable_def length_regions pmm_wf_def)
next
  case (Cons e es)
  show ?case
  proof (cases "mm_type e = LIMINE_MEMMAP_USABLE")
    case False
    with Cons.IH [of s] Cons.prems show ?thesis
      by (simp add: FreelistPMMInit_def usable_def init_entry_eq)
  next
    case usable: True
    show ?thesis
    proof (cases "length (regions s) < MAX_FREE_REGIONS")
      case True
      with Cons.prems usable obtain s1 where s1: "init_entry e s = Inr s1" "pmm_wf s1"
        "length (regions s1) = Suc (length (regions s))"
        using add_free_region_room [OF Cons.prems(1) True, of "mm_base e" "mm_length e div PAGE_SIZE"]
        by (auto simp: init_entry_eq)
      with Cons.IH [of s1] Cons.prems(2) usable show ?thesis
        by (simp add: FreelistPMMInit_def usable_def)
    next
      case False
      then have "length (regions s) = MAX_FREE_REGIONS"
        using Cons.prems(1) by (simp add: length_regions pmm_wf_def)
      with Cons.prems(1) usable show ?thesis
        by (simp add: FreelistPMMInit_def init_entry_eq add_free_region_full)
    qed
  qed
qed

lemma pmm_wf_boot [simp]: "pmm_wf pmm_boot" and regions_boot [simp]: "regions pmm_boot = []"
  by (simp_all add: pmm_wf_def pmm_boot_def regions_def)

text \<open>
  C30: after boot the free list holds one region per usable memory map entry, in order, cut to
  whole pages, when there are at most 256 of them, and the machine halts otherwise.
\<close>

theorem FreelistPMMInit_spec:
  "if length (usable memmap) \<le> MAX_FREE_REGIONS
   then \<exists>s. FreelistPMMInit memmap pmm_boot = Inr s \<and> pmm_wf s \<and>
            regions s = map entry_region (usable memmap)
   else FreelistPMMInit memmap pmm_boot = Inl (Halted ''Max free regions reached. Halting...'')"
  using FreelistPMMInit_room [OF pmm_wf_boot, of memmap]
    FreelistPMMInit_full [OF pmm_wf_boot, of memmap] by simp

lemma page_in_entry:
  assumes "p \<in> set (region_pages (entry_region e))"
    and nowrap: "unat (mm_base e) + unat (mm_length e) \<le> 2 ^ 64"
  shows "unat (mm_base e) \<le> unat p \<and> unat p + 4096 \<le> unat (mm_base e) + unat (mm_length e)"
proof -
  let ?m = "unat (mm_length e) div 4096"
  obtain k where k: "k < ?m" "p = mm_base e + word_of_nat k * 4096"
    using assms(1) by (auto simp: region_pages_def entry_region_def page_range_def PAGE_SIZE_def
        unat_div)
  have m: "k * 4096 + 4096 \<le> unat (mm_length e)" using k(1) by linarith
  then have kb: "k * 4096 < 2 ^ 64" using unat_lt_64 [of "mm_length e"] by simp
  then have "unat (word_of_nat k * 4096 :: u64) = k * 4096"
    by (simp add: unat_word_ariths unat_of_nat)
  then have "unat p = unat (mm_base e) + k * 4096"
    using m nowrap unfolding k(2) by (simp add: unat_word_ariths)
  with m show ?thesis by simp
qed

text \<open>
  Every page that is free after boot lies completely inside a usable entry of the memory
  map: nothing reserved is ever handed out.
\<close>

theorem init_pages_usable:
  assumes "FreelistPMMInit memmap pmm_boot = Inr s" "p \<in> set (free_pages s)"
    and "\<forall>e \<in> set memmap. unat (mm_base e) + unat (mm_length e) \<le> 2 ^ 64"
  shows "\<exists>e \<in> set memmap. mm_type e = LIMINE_MEMMAP_USABLE \<and>
           unat (mm_base e) \<le> unat p \<and> unat p + 4096 \<le> unat (mm_base e) + unat (mm_length e)"
proof -
  have "length (usable memmap) \<le> MAX_FREE_REGIONS"
    using assms(1) FreelistPMMInit_full [OF pmm_wf_boot, of memmap] by (force simp: not_le)
  with FreelistPMMInit_room [OF pmm_wf_boot, of memmap] assms(1)
  have "regions s = map entry_region (usable memmap)" by simp
  with assms(2) obtain e where "e \<in> set (usable memmap)" "p \<in> set (region_pages (entry_region e))"
    by (auto simp: free_pages_def)
  then show ?thesis
    using page_in_entry assms(3) by (auto simp: usable_def)
qed

section \<open>Where deallocate goes wrong\<close>

text \<open>
  When the range handed back ends where the region after \<open>region_index\<close> starts, but
  the region at \<open>region_index\<close> does not end at \<open>addr\<close>, the code still grows the latter
  by the joint page count. The page right after that region becomes free although it was
  neither free before nor part of the returned range.
\<close>

theorem deallocate_frees_foreign_page:
  assumes wf: "pmm_wf s" and "Suc i < length (regions s)" and i: "i = region_index s addr"
    and "addr + n * PAGE_SIZE = start_addr (regions s ! Suc i)"
    and "i = 0 \<or> addr \<noteq> region_end (regions s ! (i - 1))"
    and n: "0 < n" and ovf: "no_page_overflow s n"
    and new: "region_end (regions s ! i) \<notin> set (free_pages s) \<union> set (page_range addr n)"
  shows "\<exists>s'. deallocate s addr n = Inr s' \<and>
           region_end (regions s ! i) \<in> set (free_pages s')"
proof -
  let ?R = "regions s"
  let ?r = "?R ! i" and ?r1 = "?R ! Suc i"
  have ne: "?R \<noteq> []" using assms(2) by auto
  have "unat (num_pages ?r) + unat (num_pages ?r1) + unat n < 2 ^ 64"
    using sum_two_le [of i "Suc i" ?R "\<lambda>r. unat (num_pages r)"] assms(2) ovf
    by (simp add: no_page_overflow_def)
  then have u: "unat (num_pages ?r) + unat (n + num_pages ?r1) < 2 ^ 64"
      "unat (n + num_pages ?r1) = unat n + unat (num_pages ?r1)"
    by (simp_all add: unat_word_ariths)
  have pos: "0 < n + num_pages ?r1" using n by (simp add: word_less_unat u(2))
  have "deallocate s addr n = merge_next s i n"
    using deallocate_cases [OF wf ne, of addr n] assms(2-5) by (metis neq0_conv)
  then obtain s' where s': "deallocate s addr n = Inr s'"
      "regions s' = take i ?R @ ?r\<lparr>num_pages := num_pages ?r + (n + num_pages ?r1)\<rparr>
         # drop (Suc (Suc i)) ?R"
    using merge_next_regions [OF wf assms(2)] by auto
  have "page_range (region_end ?r) (n + num_pages ?r1) = region_end ?r # tl (page_range (region_end ?r) (n + num_pages ?r1))"
    using pos by (cases "unat (n + num_pages ?r1)")
      (auto simp: page_range_def upt_conv_Cons word_less_unat simp del: upt_Suc)
  then have "region_end ?r \<in> set (page_range (region_end ?r) (n + num_pages ?r1))"
    by (metis list.set_intros(1))
  then have "region_end ?r \<in> set (free_pages s')"
    unfolding free_pages_append [OF s'(2)] by (simp add: region_pages_grow [OF u(1)])
  with s' show ?thesis by blast
qed

text \<open>
  With a full table a range that cannot be merged is written past the end of
  \<open>free_regions\<close>: \<open>deallocate\<close> has no counterpart of the check in \<open>add_free_region\<close>.
\<close>

theorem deallocate_overflows_table:
  assumes wf: "pmm_wf s" and full: "length (regions s) = MAX_FREE_REGIONS"
    and "region_index s addr = 0 \<or>
         addr \<noteq> region_end (regions s ! (region_index s addr - 1))"
    and "Suc (region_index s addr) < length (regions s) \<longrightarrow>
         addr + n * PAGE_SIZE \<noteq> start_addr (regions s ! Suc (region_index s addr))"
  shows "deallocate s addr n = Inl OutOfBounds"
proof -
  let ?i = "region_index s addr"
  have ne: "regions s \<noteq> []" using full by (auto simp: MAX_FREE_REGIONS_def)
  have "deallocate s addr n = insert_region s ?i addr n"
    using deallocate_cases [OF wf ne, of addr n] assms(3,4) by (metis neq0_conv)
  moreover have "?i < length (free_regions s)" "unat (num_free_regions s) = length (free_regions s)"
    using region_index_less [OF ne, of addr] full wf by (simp_all add: length_regions pmm_wf_def)
  ultimately show ?thesis by (simp add: insert_region_def shift_up_full)
qed

section \<open>Concrete tables\<close>

definition pmm_table :: "region list \<Rightarrow> pmm" where
  "pmm_table rs = \<lparr>free_regions = rs @ replicate (MAX_FREE_REGIONS - length rs)
                                        \<lparr>start_addr = 0, num_pages = 0\<rparr>,
                   num_free_regions = word_of_nat (length rs)\<rparr>"

lemma pmm_table:
  "length rs \<le> MAX_FREE_REGIONS \<Longrightarrow> pmm_wf (pmm_table rs)"
  "length rs \<le> MAX_FREE_REGIONS \<Longrightarrow> regions (pmm_table rs) = rs"
  by (simp_all add: pmm_table_def pmm_wf_def regions_def unat_of_nat MAX_FREE_REGIONS_def)

definition two_regions :: pmm where
  "two_regions = pmm_table [\<lparr>start_addr = 0x1000, num_pages = 1\<rparr>,
                            \<lparr>start_addr = 0x5000, num_pages = 4\<rparr>]"

lemma two_regions: "pmm_wf two_regions"
  "regions two_regions = [\<lparr>start_addr = 0x1000, num_pages = 1\<rparr>,
                          \<lparr>start_addr = 0x5000, num_pages = 4\<rparr>]"
  by (simp_all add: two_regions_def pmm_table MAX_FREE_REGIONS_def)

lemma two_regions_pages: "free_pages two_regions = [0x1000, 0x5000, 0x6000, 0x7000, 0x8000]"
  by (simp add: free_pages_def two_regions region_pages_def page_range_def PAGE_SIZE_def
      upt_conv_Cons)

lemma two_regions_allocate:
  "allocate two_regions 2 = Inr (0x5000, pmm_table [\<lparr>start_addr = 0x1000, num_pages = 1\<rparr>,
                            \<lparr>start_addr = 0x7000, num_pages = 2\<rparr>])"
  by (simp add: allocate_def two_regions_def pmm_table_def PAGE_SIZE_def upt_conv_Cons
      MAX_FREE_REGIONS_def word_le_unat)

theorem allocate_conserves_witness:
  "mset (free_pages two_regions) = mset (page_range 0x5000 2) + mset (free_pages
     (pmm_table [\<lparr>start_addr = 0x1000, num_pages = 1\<rparr>, \<lparr>start_addr = 0x7000, num_pages = 2\<rparr>]))"
  using allocate_conserves [OF two_regions(1) two_regions_allocate] by blast

theorem allocations_disjoint_witness:
  "distinct (concat (map2 page_range [0x5000] [2]) @ free_pages
     (pmm_table [\<lparr>start_addr = 0x1000, num_pages = 1\<rparr>, \<lparr>start_addr = 0x7000, num_pages = 2\<rparr>]))"
  by (rule allocations_disjoint [OF two_regions(1)])
     (simp_all add: two_regions_pages two_regions_allocate)

theorem allocate_halts_iff_witness:
  "allocate two_regions 5 = Inl (Halted ''NULL returned from allocation. Halting...'')"
  using allocate_halts_iff [OF two_regions(1), of 5 "Halted ''NULL returned from allocation. Halting...''"]
  by (simp add: two_regions(2))

theorem deallocate_conserves_witness:
  "\<exists>s'. deallocate two_regions 0x2000 1 = Inr s' \<and> pmm_wf s' \<and>
        mset (free_pages s') = {#0x1000, 0x2000, 0x5000, 0x6000, 0x7000, 0x8000#}"
  using deallocate_conserves [OF two_regions(1), of 1 "0x2000"]
  by (simp add: two_regions two_regions_pages MAX_FREE_REGIONS_def no_page_overflow_def
      next_merge_adjacent_def less_Suc_eq PAGE_SIZE_def region_end_def page_range_def add_mset_commute)

theorem init_pages_usable_witness:
  "\<exists>s. FreelistPMMInit [\<lparr>mm_base = 0x1000, mm_length = 0x2800, mm_type = 0\<rparr>] pmm_boot = Inr s \<and>
     free_pages s = [0x1000, 0x2000] \<and>
     (\<exists>e \<in> set [\<lparr>mm_base = 0x1000, mm_length = 0x2800, mm_type = 0\<rparr>].
        mm_type e = LIMINE_MEMMAP_USABLE \<and> unat (mm_base e) \<le> unat (0x2000::u64) \<and>
        unat (0x2000::u64) + 4096 \<le> unat (mm_base e) + unat (mm_length e))"
proof -
  let ?m = "[\<lparr>mm_base = 0x1000, mm_length = 0x2800, mm_type = 0\<rparr>]"
  obtain s where s: "FreelistPMMInit ?m pmm_boot = Inr s" "regions s = map entry_region ?m"
    using FreelistPMMInit_room [OF pmm_wf_boot, of ?m]
    by (auto simp: usable_def LIMINE_MEMMAP_USABLE_def MAX_FREE_REGIONS_def)
  then have p: "free_pages s = [0x1000, 0x2000]"
    by (simp add: free_pages_def entry_region_def region_pages_def page_range_def PAGE_SIZE_def
        upt_conv_Cons)
  then show ?thesis
    using s init_pages_usable [OF s(1), of "0x2000"] by auto
qed

theorem deallocate_frees_foreign_page_witness:
  "\<exists>s'. deallocate two_regions 0x4000 1 = Inr s' \<and> 0x2000 \<in> set (free_pages s')
        \<and> 0x2000 \<notin> set (free_pages two_regions)"
  using deallocate_frees_foreign_page [OF two_regions(1), of 0 "0x4000" 1]
  by (simp add: two_regions two_regions_pages region_index_def PAGE_SIZE_def region_end_def
      page_range_def no_page_overflow_def)

theorem deallocate_overflows_table_witness:
  "deallocate (pmm_table (replicate 256 \<lparr>start_addr = 0x1000, num_pages = 1\<rparr>)) 0x1000 1
   = Inl OutOfBounds"
  by (rule deallocate_overflows_table)
     (simp_all add: pmm_table MAX_FREE_REGIONS_def region_index_def PAGE_SIZE_def region_end_def
        takeWhile_replicate nth_replicate)

text \<open>
  C40: the plain round trip is broken: on two regions, allocating two pages from the second one
  and giving them back leaves a free list that claims three pages that were never free and has
  lost the three last free pages for good.
\<close>

theorem allocate_deallocate_corrupts:
  "\<exists>s1 s2. allocate two_regions 2 = Inr (0x5000, s1) \<and> deallocate s1 0x5000 2 = Inr s2 \<and>
     free_pages two_regions = [0x1000, 0x5000, 0x6000, 0x7000, 0x8000] \<and>
     free_pages s2 = [0x1000, 0x2000, 0x3000, 0x4000, 0x5000]"
proof -
  let ?s1 = "pmm_table [\<lparr>start_addr = 0x1000, num_pages = 1\<rparr>, \<lparr>start_addr = 0x7000, num_pages = 2\<rparr>]"
  have s1: "pmm_wf ?s1" "regions ?s1 = [\<lparr>start_addr = 0x1000, num_pages = 1\<rparr>,
                                        \<lparr>start_addr = 0x7000, num_pages = 2\<rparr>]"
    by (simp_all add: pmm_table MAX_FREE_REGIONS_def)
  have i: "region_index ?s1 0x5000 = 0" by (simp add: region_index_def s1)
  have "deallocate ?s1 0x5000 2 = merge_next ?s1 0 2"
    by (rule deallocate_cases [OF s1(1), where addr = "0x5000" and n = 2])
       (simp_all add: s1 i PAGE_SIZE_def)
  then obtain s2 where "deallocate ?s1 0x5000 2 = Inr s2"
      "regions s2 = [\<lparr>start_addr = 0x1000, num_pages = 5\<rparr>]"
    using merge_next_regions [OF s1(1), of 0 2] by (auto simp: s1)
  then show ?thesis
    using two_regions_allocate two_regions_pages
    by (auto simp: free_pages_def region_pages_def page_range_def PAGE_SIZE_def upt_conv_Cons)
qed

end
