(* ===== verification/GDT.thy ===== *)
theory GDT
  imports Deer_Prelude
begin

text \<open>
  The segment descriptors of \<open>kernel/sys/gdt.c\<close>. The table is a list of eleven records;
  \<open>gdt_reload\<close> is inline assembly whose effect on the segment registers is the record
  \<open>segments\<close>. The processor's reading of the table, the decoding of a selector and of the
  eight bytes of a descriptor, is written from the architecture.
\<close>

section \<open>Operations\<close>

record gdt_descriptor =
  limit :: u16
  base_low16 :: u16
  base_mid8 :: u8
  access :: u8
  granularity :: u8
  base_high8 :: u8

record gdtr =
  gdtr_limit :: u16
  gdtr_base :: u64

record segments =
  seg_gdtr :: gdtr
  seg_cs :: u16
  seg_ds :: u16
  seg_es :: u16
  seg_fs :: u16
  seg_gs :: u16
  seg_ss :: u16

definition zero_descriptor :: gdt_descriptor where
  "zero_descriptor = \<lparr>limit = 0, base_low16 = 0, base_mid8 = 0, access = 0, granularity = 0, base_high8 = 0\<rparr>"

text \<open>The six assignments to one entry.\<close>

definition set_entry :: "nat \<Rightarrow> u16 \<Rightarrow> u8 \<Rightarrow> u8 \<Rightarrow> gdt_descriptor list \<Rightarrow> fault + gdt_descriptor list" where
  "set_entry i l a g gdt = eset gdt i
     \<lparr>limit = l, base_low16 = 0, base_mid8 = 0, access = a, granularity = g, base_high8 = 0\<rparr>"

text \<open>\<open>lgdt\<close>, a far return to selector 0x28, and 0x30 in the data segment registers.\<close>

definition gdt_reload :: "gdtr \<Rightarrow> segments" where
  "gdt_reload r = \<lparr>seg_gdtr = r, seg_cs = 0x28, seg_ds = 0x30, seg_es = 0x30, seg_fs = 0x30,
     seg_gs = 0x30, seg_ss = 0x30\<rparr>"

definition sizeof_gdt :: nat where "sizeof_gdt = 11 * 8"

definition gdt_init :: "u64 \<Rightarrow> gdt_descriptor list \<Rightarrow> fault + (gdt_descriptor list \<times> segments)" where
  "gdt_init gdt_addr gdt =
     ebind (set_entry 0 0 0 0 gdt) (\<lambda>gdt.
     ebind (set_entry 1 0xffff 0b10011010 0b00000000 gdt) (\<lambda>gdt.
     ebind (set_entry 2 0xffff 0b10010010 0b00000000 gdt) (\<lambda>gdt.
     ebind (set_entry 3 0xffff 0b10011010 0b11001111 gdt) (\<lambda>gdt.
     ebind (set_entry 4 0xffff 0b10010010 0b11001111 gdt) (\<lambda>gdt.
     ebind (set_entry 5 0 0b10011010 0b00100000 gdt) (\<lambda>gdt.
     ebind (set_entry 6 0 0b10010010 0 gdt) (\<lambda>gdt.
     ebind (eset gdt 7 zero_descriptor) (\<lambda>gdt.
     ebind (eset gdt 8 zero_descriptor) (\<lambda>gdt.
     ebind (set_entry 9 0 0b11111010 0b00100000 gdt) (\<lambda>gdt.
     ebind (set_entry 10 0 0b11110010 0 gdt) (\<lambda>gdt.
       Inr (gdt, gdt_reload \<lparr>gdtr_limit = of_nat (sizeof_gdt - 1), gdtr_base = gdt_addr\<rparr>))))))))))))"

section \<open>The processor's view\<close>

text \<open>The eight bytes of a descriptor, as the little-endian word the processor loads.\<close>

definition raw_descriptor :: "gdt_descriptor \<Rightarrow> u64" where
  "raw_descriptor d = ucast (limit d) OR push_bit 16 (ucast (base_low16 d)) OR push_bit 32 (ucast (base_mid8 d))
     OR push_bit 40 (ucast (access d)) OR push_bit 48 (ucast (granularity d)) OR push_bit 56 (ucast (base_high8 d))"

text \<open>A selector: the index of the descriptor, the table, and the requested privilege.\<close>

definition sel_index :: "u16 \<Rightarrow> nat" where "sel_index s = unat s div 8"

definition sel_rpl :: "u16 \<Rightarrow> nat" where "sel_rpl s = unat s mod 4"

definition sel_local :: "u16 \<Rightarrow> bool" where "sel_local s = bit s 2"

text \<open>The bits of a descriptor.\<close>

definition seg_present :: "u64 \<Rightarrow> bool" where "seg_present r = bit r 47"

definition seg_dpl :: "u64 \<Rightarrow> nat" where "seg_dpl r = unat (drop_bit 45 r AND 3)"

definition seg_code :: "u64 \<Rightarrow> bool" where "seg_code r \<longleftrightarrow> bit r 44 \<and> bit r 43"

definition seg_writable_data :: "u64 \<Rightarrow> bool" where
  "seg_writable_data r \<longleftrightarrow> bit r 44 \<and> \<not> bit r 43 \<and> bit r 41"

definition seg_long :: "u64 \<Rightarrow> bool" where "seg_long r \<longleftrightarrow> bit r 53 \<and> \<not> bit r 54"

text \<open>The descriptor a selector names, if the table reaches to its end.\<close>

definition lookup_segment :: "gdt_descriptor list \<Rightarrow> gdtr \<Rightarrow> u16 \<Rightarrow> u64 option" where
  "lookup_segment gdt r s =
     (if sel_local s \<or> unat (gdtr_limit r) < sel_index s * 8 + 7 then None
      else map_option raw_descriptor (if sel_index s < length gdt then Some (gdt ! sel_index s) else None))"

text \<open>Code the processor can run in long mode at privilege \<open>p\<close>, and data it can write.\<close>

definition long_code :: "nat \<Rightarrow> u64 \<Rightarrow> bool" where
  "long_code p r \<longleftrightarrow> seg_present r \<and> seg_code r \<and> seg_long r \<and> seg_dpl r = p"

definition flat_data :: "nat \<Rightarrow> u64 \<Rightarrow> bool" where
  "flat_data p r \<longleftrightarrow> seg_present r \<and> seg_writable_data r \<and> seg_dpl r = p"

lemmas seg_defs = seg_present_def seg_dpl_def seg_code_def seg_writable_data_def seg_long_def
  long_code_def flat_data_def raw_descriptor_def

text \<open>The table after \<open>gdt_init\<close>.\<close>

definition boot_gdt :: "gdt_descriptor list" where
  "boot_gdt = map (\<lambda>(l, ac, g). \<lparr>limit = l, base_low16 = 0, base_mid8 = 0, access = ac, granularity = g, base_high8 = 0\<rparr>)
      [(0, 0, 0), (0xffff, 0x9a, 0), (0xffff, 0x92, 0), (0xffff, 0x9a, 0xcf), (0xffff, 0x92, 0xcf),
       (0, 0x9a, 0x20), (0, 0x92, 0), (0, 0, 0), (0, 0, 0), (0, 0xfa, 0x20), (0, 0xf2, 0)]"

lemma gdt_init_eq:
  assumes "length gdt = 11"
  shows "gdt_init a gdt = Inr (boot_gdt, gdt_reload \<lparr>gdtr_limit = 87, gdtr_base = a\<rparr>)"
proof -
  obtain a0 a1 a2 a3 a4 a5 a6 a7 a8 a9 a10 where "gdt = [a0, a1, a2, a3, a4, a5, a6, a7, a8, a9, a10]"
    using assms by (auto simp: length_Suc_conv eval_nat_numeral)
  then show ?thesis
    by (simp add: gdt_init_def set_entry_def zero_descriptor_def sizeof_gdt_def boot_gdt_def)
qed

lemma boot_gdt_lookup:
  assumes "gdtr_limit r = 87"
  shows "lookup_segment boot_gdt r 0x28 = Some 0x00209a0000000000"
    "lookup_segment boot_gdt r 0x30 = Some 0x0000920000000000"
    "lookup_segment boot_gdt r 0x48 = Some 0x0020fa0000000000"
    "lookup_segment boot_gdt r 0x50 = Some 0x0000f20000000000"
  by (simp_all add: assms lookup_segment_def sel_index_def sel_local_def boot_gdt_def raw_descriptor_def)

lemma boot_gdt_long:
  "map (\<lambda>d. seg_long (raw_descriptor d)) boot_gdt =
   [False, False, False, False, False, True, False, False, False, True, False]"
  by (simp add: boot_gdt_def raw_descriptor_def seg_long_def)

lemma boot_gdt_long_only:
  assumes "i < 11" "seg_long (raw_descriptor (boot_gdt ! i))"
  shows "i = 5 \<or> i = 9"
proof -
  have i: "i \<in> {0, 1, 2, 3, 4, 5, 6, 7, 8, 9, 10}"
    unfolding insert_iff empty_iff using assms(1) by presburger
  have "map (\<lambda>d. seg_long (raw_descriptor d)) boot_gdt ! i"
    using assms by (subst nth_map) (simp_all add: boot_gdt_def)
  then show ?thesis using i unfolding boot_gdt_long by auto
qed

text \<open>
  After \<open>gdt_init\<close> the segment registers are usable: each selector it loads names a
  descriptor inside the table, \<open>cs\<close> a present 64-bit code segment and the others a present
  writable data segment, all at privilege 0; selectors 0x48 and 0x50 name their counterparts
  for privilege 3, and the table holds no other 64-bit code segment.
\<close>

theorem gdt_init_segments:
  assumes "length gdt = 11"
  shows "\<exists>g s. gdt_init a gdt = Inr (g, s) \<and> length g = 11 \<and> gdtr_base (seg_gdtr s) = a \<and>
    (\<exists>r. lookup_segment g (seg_gdtr s) (seg_cs s) = Some r \<and> long_code 0 r) \<and>
    (\<forall>x \<in> {seg_ds s, seg_es s, seg_fs s, seg_gs s, seg_ss s}.
       \<exists>r. lookup_segment g (seg_gdtr s) x = Some r \<and> flat_data 0 r) \<and>
    (\<exists>r. lookup_segment g (seg_gdtr s) 0x48 = Some r \<and> long_code 3 r) \<and>
    (\<exists>r. lookup_segment g (seg_gdtr s) 0x50 = Some r \<and> flat_data 3 r) \<and>
    (\<forall>i < 11. (\<exists>p. long_code p (raw_descriptor (g ! i))) \<longrightarrow> i = 5 \<or> i = 9)"
proof -
  have "long_code 0 0x00209a0000000000" "flat_data 0 0x0000920000000000"
    "long_code 3 0x0020fa0000000000" "flat_data 3 0x0000f20000000000"
    by (simp_all add: seg_defs)
  then show ?thesis unfolding gdt_init_eq [OF assms]
    using boot_gdt_long_only by (simp add: gdt_reload_def boot_gdt_lookup) (auto simp: long_code_def boot_gdt_def)
qed

theorem gdt_init_segments_witness:
  "\<exists>g s. gdt_init 0x1000 (replicate 11 zero_descriptor) = Inr (g, s) \<and> gdtr_base (seg_gdtr s) = 0x1000"
  using gdt_init_segments [of "replicate 11 zero_descriptor" "0x1000"] by auto

end
