(* ===== verification/Flanterm_State.thy ===== *)
theory Flanterm_State
  imports Deer_Prelude
begin

text \<open>
  The state of the terminal: \<open>struct flanterm_context\<close> (\<open>kernel/flanterm/flanterm.h\<close>)
  and \<open>struct flanterm_fb_context\<close> (\<open>kernel/flanterm/backends/fb.h\<close>), which contains the
  former as its first member and is here its record extension. The function pointers of
  \<open>flanterm_context\<close> are written once, by \<open>flanterm_fb_init\<close>, so a call through them is
  a call of the \<open>flanterm_fb_\<close> function of that name.

  A \<open>size_t\<close> is a natural number below \<open>2 ^ 64\<close>; the arithmetic that can wrap is written
  \<open>sz_add\<close>, \<open>sz_sub\<close>, \<open>sz_mul\<close>. A \<open>uint32_t\<close>, \<open>uint8_t\<close> or
  \<open>uint64_t\<close> that is used bitwise is a word. The pointers of \<open>map\<close> point into
  \<open>queue\<close>: they are indices of that array, \<open>None\<close> being \<open>NULL\<close>.
\<close>

section \<open>Wrapping size\_t arithmetic and checked arrays\<close>

definition SZ :: nat where "SZ = 2 ^ 64"

definition sz_add :: "nat \<Rightarrow> nat \<Rightarrow> nat" where "sz_add a b = (a + b) mod SZ"

definition sz_mul :: "nat \<Rightarrow> nat \<Rightarrow> nat" where "sz_mul a b = (a * b) mod SZ"

definition sz_sub :: "nat \<Rightarrow> nat \<Rightarrow> nat" where
  "sz_sub a b = (if b \<le> a then a - b else (SZ + a - b mod SZ) mod SZ)"

definition SZ_MAX :: nat where "SZ_MAX = SZ - 1"

definition aget :: "'a list \<Rightarrow> nat \<Rightarrow> 'a option" where
  "aget xs i = (if i < length xs then Some (xs ! i) else None)"

definition aset :: "'a list \<Rightarrow> nat \<Rightarrow> 'a \<Rightarrow> 'a list option" where
  "aset xs i v = (if i < length xs then Some (xs[i := v]) else None)"

primrec ofold :: "('i \<Rightarrow> 's \<Rightarrow> 's option) \<Rightarrow> 'i list \<Rightarrow> 's \<Rightarrow> 's option" where
  "ofold f [] s = Some s"
| "ofold f (i # is) s = do { s' \<leftarrow> f i s; ofold f is s' }"

text \<open>
  The values of \<open>i\<close> in \<open>for (i = hi; ; i--) { ...; if (i == lo) break; }\<close>: from
  \<open>hi\<close> downwards, wrapping, until \<open>lo\<close> has been used.
\<close>

definition down_until :: "nat \<Rightarrow> nat \<Rightarrow> nat list" where
  "down_until hi lo = map (\<lambda>k. sz_sub hi k) [0..<Suc (sz_sub hi lo)]"

named_theorems sz_simps

lemma sz_add_id [sz_simps]: "a + b < SZ \<Longrightarrow> sz_add a b = a + b"
  by (simp add: sz_add_def)

lemma sz_mul_id [sz_simps]: "a * b < SZ \<Longrightarrow> sz_mul a b = a * b"
  by (simp add: sz_mul_def)

lemma sz_sub_id [sz_simps]: "b \<le> a \<Longrightarrow> sz_sub a b = a - b"
  by (simp add: sz_sub_def)

lemma sz_sub_0_1: "sz_sub 0 (Suc 0) = SZ_MAX"
  by (simp add: sz_sub_def SZ_MAX_def SZ_def)

lemma aget_in [simp]: "i < length xs \<Longrightarrow> aget xs i = Some (xs ! i)"
  by (simp add: aget_def)

lemma aset_in [simp]: "i < length xs \<Longrightarrow> aset xs i v = Some (xs[i := v])"
  by (simp add: aset_def)

lemma aget_Some_iff: "aget xs i = Some v \<longleftrightarrow> i < length xs \<and> v = xs ! i"
  by (auto simp: aget_def)

lemma ofold_append: "ofold f (xs @ ys) s = do { s' \<leftarrow> ofold f xs s; ofold f ys s' }"
  by (induction xs arbitrary: s) (auto simp: Option.bind_assoc)

text \<open>A loop keeps what each round keeps.\<close>

lemma ofold_invariant:
  assumes "\<And>i s. P s \<Longrightarrow> \<exists>s'. f i s = Some s' \<and> P s'" "P s"
  shows "\<exists>s'. ofold f is s = Some s' \<and> P s'"
  using assms(2)
proof (induction "is" arbitrary: s)
  case (Cons i "is")
  then show ?case using assms(1) [of s i] by auto
qed simp

lemma down_until_le: "lo \<le> hi \<Longrightarrow> down_until hi lo = rev [lo..<Suc hi]"
proof -
  assume le: "lo \<le> hi"
  have "map (\<lambda>k. sz_sub hi k) [0..<Suc (hi - lo)] = map (\<lambda>k. hi - k) [0..<Suc (hi - lo)]"
    by (rule map_cong) (auto simp: sz_sub_id)
  also have "\<dots> = rev [lo..<Suc hi]"
    by (rule nth_equalityI) (use le in \<open>simp_all add: rev_nth del: upt_Suc\<close>)
  finally show ?thesis by (simp add: down_until_def sz_sub_id le)
qed

section \<open>The terminal context\<close>

text \<open>
  A call of the client's \<open>callback\<close> is recorded with its arguments; the client's code is not
  part of the repository (the kernel leaves the pointer \<open>NULL\<close>). The second argument of a
  call is a number or the address of \<open>esc_values\<close>, of which the record keeps the contents.
\<close>

datatype callback_arg = Num nat | Values "u32 list"

datatype callback_event = CB (cb_type: nat) (cb_a: nat) (cb_b: callback_arg) (cb_c: nat)

record flanterm_context =
  tab_size :: nat
  autoflush :: bool
  cursor_enabled :: bool
  scroll_enabled :: bool
  control_sequence :: bool
  csi :: bool
  escape :: bool
  osc :: bool
  osc_escape :: bool
  rrr :: bool
  discard_next :: bool
  bold :: bool
  bg_bold :: bool
  reverse_video :: bool
  dec_private :: bool
  insert_mode :: bool
  code_point :: u64
  unicode_remaining :: nat
  g_select :: u8
  charsets :: "u8 list"
  current_charset :: nat
  escape_offset :: nat
  esc_values_i :: nat
  saved_cursor_x :: nat
  saved_cursor_y :: nat
  current_primary :: nat
  current_bg :: nat
  scroll_top_margin :: nat
  scroll_bottom_margin :: nat
  esc_values :: "u32 list"
  oob_output :: u64
  saved_state_bold :: bool
  saved_state_bg_bold :: bool
  saved_state_reverse_video :: bool
  saved_state_current_charset :: nat
  saved_state_current_primary :: nat
  saved_state_current_bg :: nat
  rows :: nat
  cols :: nat
  callback :: bool
  callback_log :: "callback_event list"

section \<open>The frame buffer context\<close>

record flanterm_fb_char =
  char_c :: u32
  char_fg :: u32
  char_bg :: u32

record flanterm_fb_queue_item =
  q_x :: nat
  q_y :: nat
  q_c :: flanterm_fb_char

record flanterm_fb_context = flanterm_context +
  font_width :: nat
  font_height :: nat
  glyph_width :: nat
  glyph_height :: nat
  font_scale_x :: nat
  font_scale_y :: nat
  offset_x :: nat
  offset_y :: nat
  framebuffer :: "u32 list"
  fb_pitch :: nat
  fb_width :: nat
  fb_height :: nat
  font_bits :: "u8 list"
  font_bool :: "bool list"
  ansi_colours :: "u32 list"
  ansi_bright_colours :: "u32 list"
  default_fg :: u32
  default_bg :: u32
  default_fg_bright :: u32
  default_bg_bright :: u32
  canvas :: "u32 list"
  grid :: "flanterm_fb_char list"
  queue :: "flanterm_fb_queue_item list"
  queue_i :: nat
  fb_map :: "nat option list"
  text_fg :: u32
  text_bg :: u32
  cursor_x :: nat
  cursor_y :: nat
  saved_state_text_fg :: u32
  saved_state_text_bg :: u32
  saved_state_cursor_x :: nat
  saved_state_cursor_y :: nat
  old_cursor_x :: nat
  old_cursor_y :: nat

type_synonym ctx = flanterm_fb_context

section \<open>A concrete terminal\<close>

text \<open>
  A terminal of \<open>h\<close> rows and \<open>w\<close> columns in the state \<open>flanterm_fb_init\<close> leaves, but
  with a font of one pixel per glyph, so that concrete runs stay small. Only the witnesses
  use it.
\<close>

definition sample_ctx :: "nat \<Rightarrow> nat \<Rightarrow> ctx" where
  "sample_ctx h w = \<lparr>
     tab_size = 8, autoflush = True, cursor_enabled = True, scroll_enabled = True,
     control_sequence = False, csi = False, escape = False, osc = False, osc_escape = False,
     rrr = False, discard_next = False, bold = False, bg_bold = False, reverse_video = False,
     dec_private = False, insert_mode = False, code_point = 0, unicode_remaining = 0,
     g_select = 0, charsets = [0, 1], current_charset = 0, escape_offset = 0,
     esc_values_i = 0, saved_cursor_x = 0, saved_cursor_y = 0, current_primary = SZ_MAX,
     current_bg = SZ_MAX, scroll_top_margin = 0, scroll_bottom_margin = h,
     esc_values = [0,0,0,0,0,0,0,0,0,0,0,0,0,0,0,0], oob_output = 16,
     saved_state_bold = False, saved_state_bg_bold = False, saved_state_reverse_video = False,
     saved_state_current_charset = 0, saved_state_current_primary = 0,
     saved_state_current_bg = 0, rows = h, cols = w, callback = False, callback_log = [],
     font_width = 1, font_height = 1, glyph_width = 1, glyph_height = 1,
     font_scale_x = 1, font_scale_y = 1, offset_x = 0, offset_y = 0,
     framebuffer = replicate (h * w) 0, fb_pitch = 4 * w, fb_width = w, fb_height = h,
     font_bits = [], font_bool = map (\<lambda>i. i \<noteq> 32) [0..<256],
     ansi_colours = [0, 0xaa0000, 0xaa00, 0xaa5500, 0xaa, 0xaa00aa, 0xaaaa, 0xaaaaaa],
     ansi_bright_colours =
       [0x555555, 0xff5555, 0x55ff55, 0xffff55, 0x5555ff, 0xff55ff, 0x55ffff, 0xffffff],
     default_fg = 0xaaaaaa, default_bg = 0, default_fg_bright = 0xffffff,
     default_bg_bright = 0x555555, canvas = replicate (h * w) 0,
     grid = replicate (h * w) \<lparr>char_c = 0x20, char_fg = 0xaaaaaa, char_bg = 0xffffffff\<rparr>,
     queue = replicate (h * w) \<lparr>q_x = 0, q_y = 0,
               q_c = \<lparr>char_c = 0, char_fg = 0, char_bg = 0\<rparr>\<rparr>,
     queue_i = 0, fb_map = replicate (h * w) None, text_fg = 0xaaaaaa, text_bg = 0xffffffff,
     cursor_x = 0, cursor_y = 0, saved_state_text_fg = 0, saved_state_text_bg = 0,
     saved_state_cursor_x = 0, saved_state_cursor_y = 0, old_cursor_x = 0, old_cursor_y = 0\<rparr>"

lemma sample_ctx_sel [simp]:
  "rows (sample_ctx h w) = h" "cols (sample_ctx h w) = w"
  "cursor_x (sample_ctx h w) = 0" "cursor_y (sample_ctx h w) = 0"
  "scroll_top_margin (sample_ctx h w) = 0" "scroll_bottom_margin (sample_ctx h w) = h"
  "scroll_enabled (sample_ctx h w)" "autoflush (sample_ctx h w)"
  "text_fg (sample_ctx h w) = 0xaaaaaa" "text_bg (sample_ctx h w) = 0xffffffff"
  "grid (sample_ctx h w) = replicate (h * w)
     \<lparr>char_c = 0x20, char_fg = 0xaaaaaa, char_bg = 0xffffffff\<rparr>"
  "length (queue (sample_ctx h w)) = h * w" "queue_i (sample_ctx h w) = 0"
  "fb_map (sample_ctx h w) = replicate (h * w) None"
  by (simp_all add: sample_ctx_def)

end
