(* ===== verification/FB_Queue.thy ===== *)
theory FB_Queue
  imports Flanterm_State
begin

text \<open>
  The deferred-drawing queue of \<open>kernel/flanterm/backends/fb.c\<close>. A character that is
  written does not reach the grid at once: \<open>push_to_queue\<close> puts it into \<open>queue\<close> and
  makes \<open>map\<close> point to it. The abstraction is the logical \<open>screen\<close>: the pending
  character of a cell if there is one, and the drawn one in \<open>grid\<close> otherwise. The main
  lemma of this theory says that a push is an update of that list of cells, that it stays
  inside all three arrays, and that the queue never overflows. The locale \<open>cell_buffer\<close> is
  the interface the scrolling and clearing loops rely on.
\<close>

section \<open>Operations\<close>

definition compare_char :: "flanterm_fb_char \<Rightarrow> flanterm_fb_char \<Rightarrow> bool" where
  "compare_char a b =
     (\<not> (char_c a \<noteq> char_c b \<or> char_bg a \<noteq> char_bg b \<or> char_fg a \<noteq> char_fg b))"

definition push_to_queue :: "ctx \<Rightarrow> flanterm_fb_char \<Rightarrow> nat \<Rightarrow> nat \<Rightarrow> ctx option" where
  "push_to_queue ctx ch x y =
     (if cols ctx \<le> x \<or> rows ctx \<le> y then Some ctx
      else do {
        let i = sz_add (sz_mul y (cols ctx)) x;
        q \<leftarrow> aget (fb_map ctx) i;
        case q of
          None \<Rightarrow> do {
            g \<leftarrow> aget (grid ctx) i;
            if compare_char g ch then Some ctx
            else do {
              let k = queue_i ctx;
              qs \<leftarrow> aset (queue ctx) k \<lparr>q_x = x, q_y = y, q_c = ch\<rparr>;
              m \<leftarrow> aset (fb_map ctx) i (Some k);
              Some (ctx\<lparr>queue := qs, queue_i := sz_add k 1, fb_map := m\<rparr>)
            }
          }
        | Some k \<Rightarrow> do {
            item \<leftarrow> aget (queue ctx) k;
            qs \<leftarrow> aset (queue ctx) k (item\<lparr>q_c := ch\<rparr>);
            Some (ctx\<lparr>queue := qs\<rparr>)
          }
      })"

text \<open>
  The pattern \<open>q = map[i]; c = q != NULL ? &q->c : &grid[i]\<close> of the scrolling, moving and
  cursor code: the character shown at cell \<open>i\<close>.
\<close>

definition cell_ptr :: "ctx \<Rightarrow> nat \<Rightarrow> flanterm_fb_char option" where
  "cell_ptr ctx i = do {
     q \<leftarrow> aget (fb_map ctx) i;
     case q of
       Some k \<Rightarrow> do { item \<leftarrow> aget (queue ctx) k; Some (q_c item) }
     | None \<Rightarrow> aget (grid ctx) i
   }"

section \<open>Invariant and abstraction\<close>

definition q_off :: "ctx \<Rightarrow> nat \<Rightarrow> nat" where
  "q_off c k = q_y (queue c ! k) * cols c + q_x (queue c ! k)"

definition geom_wf :: "ctx \<Rightarrow> bool" where
  "geom_wf c \<longleftrightarrow> 0 < cols c \<and> 0 < rows c \<and> rows c * cols c < 2 ^ 31 \<and>
     length (grid c) = rows c * cols c \<and> length (queue c) = rows c * cols c \<and>
     length (fb_map c) = rows c * cols c"

definition queue_wf :: "ctx \<Rightarrow> bool" where
  "queue_wf c \<longleftrightarrow> queue_i c \<le> rows c * cols c \<and>
     (\<forall>k < queue_i c. q_x (queue c ! k) < cols c \<and> q_y (queue c ! k) < rows c \<and>
                      fb_map c ! q_off c k = Some k) \<and>
     (\<forall>i < rows c * cols c. \<forall>k. fb_map c ! i = Some k \<longrightarrow> k < queue_i c \<and> q_off c k = i)"

definition fb_wf :: "ctx \<Rightarrow> bool" where
  "fb_wf c \<longleftrightarrow> geom_wf c \<and> queue_wf c"

definition cell_at :: "ctx \<Rightarrow> nat \<Rightarrow> flanterm_fb_char" where
  "cell_at c i = (case fb_map c ! i of Some k \<Rightarrow> q_c (queue c ! k) | None \<Rightarrow> grid c ! i)"

definition screen :: "ctx \<Rightarrow> flanterm_fb_char list" where
  "screen c = map (cell_at c) [0..<rows c * cols c]"

lemma length_screen [simp]: "length (screen c) = rows c * cols c"
  by (simp add: screen_def)

lemma nth_screen [simp]: "i < rows c * cols c \<Longrightarrow> screen c ! i = cell_at c i"
  by (simp add: screen_def)

text \<open>Everything but the queue is unchanged: the states agree once the queue is forgotten.\<close>

definition forget_queue :: "ctx \<Rightarrow> ctx" where
  "forget_queue c = c\<lparr>queue := [], queue_i := 0, fb_map := []\<rparr>"

definition qframe :: "ctx \<Rightarrow> ctx \<Rightarrow> bool" where
  "qframe c c' \<longleftrightarrow> forget_queue c' = forget_queue c"

lemma qframe_refl [simp, intro!]: "qframe c c"
  by (simp add: qframe_def)

lemma qframe_trans [trans]: "qframe c c' \<Longrightarrow> qframe c' c'' \<Longrightarrow> qframe c c''"
  by (simp add: qframe_def)

lemma qframe_upd [simp]:
  "qframe c (c\<lparr>queue := Q, queue_i := K, fb_map := M\<rparr>)" "qframe c (c\<lparr>queue := Q\<rparr>)"
  by (simp_all add: qframe_def forget_queue_def)

lemma qframe_sel:
  assumes "qframe c c'" and "\<And>d. f (forget_queue d) = f d"
  shows "f c' = f c"
  using assms unfolding qframe_def by metis

lemma qframe_geom:
  assumes "qframe c c'"
  shows "rows c' = rows c" "cols c' = cols c" "grid c' = grid c"
    "cursor_x c' = cursor_x c" "cursor_y c' = cursor_y c"
    "text_fg c' = text_fg c" "text_bg c' = text_bg c" "scroll_enabled c' = scroll_enabled c"
    "scroll_top_margin c' = scroll_top_margin c"
    "scroll_bottom_margin c' = scroll_bottom_margin c"
  by (rule qframe_sel [OF assms], simp add: forget_queue_def)+

lemma cell_index:
  assumes "x < cols c" "y < rows c"
  shows "y * cols c + x < rows c * cols c"
proof -
  have "y * cols c + x < Suc y * cols c" using assms(1) by simp
  also have "\<dots> \<le> rows c * cols c" using assms(2) by (intro mult_right_mono) simp_all
  finally show ?thesis .
qed

lemma cell_index_sz:
  assumes "geom_wf c" "x < cols c" "y < rows c"
  shows "sz_add (sz_mul y (cols c)) x = y * cols c + x"
proof -
  have "y * cols c + x < SZ"
    using cell_index [OF assms(2,3)] assms(1) by (simp add: geom_wf_def SZ_def)
  then show ?thesis by (simp add: sz_simps)
qed

lemma cell_index_inj:
  fixes w :: nat
  assumes "x < w" "x' < w" "y * w + x = y' * w + x'"
  shows "x = x' \<and> y = y'"
proof -
  have "(y * w + x) mod w = (y' * w + x') mod w" "(y * w + x) div w = (y' * w + x') div w"
    using assms(3) by simp_all
  then show ?thesis using assms(1,2) by simp
qed

lemma q_off_less: "queue_wf c \<Longrightarrow> k < queue_i c \<Longrightarrow> q_off c k < rows c * cols c"
  by (simp add: queue_wf_def q_off_def cell_index)

lemma queue_wf_item:
  assumes "queue_wf c" "k < queue_i c"
  shows "q_x (queue c ! k) < cols c" "q_y (queue c ! k) < rows c" "fb_map c ! q_off c k = Some k"
  using assms by (simp_all add: queue_wf_def)

lemma queue_wf_map:
  assumes "queue_wf c" "i < rows c * cols c" "fb_map c ! i = Some k"
  shows "k < queue_i c" "q_off c k = i"
  using assms by (simp_all add: queue_wf_def)

lemma queue_not_full:
  assumes "queue_wf c" "i < rows c * cols c" "fb_map c ! i = None"
  shows "queue_i c < rows c * cols c"
proof -
  have "inj_on (q_off c) {..<queue_i c}"
    by (rule inj_onI) (use assms(1) in \<open>auto simp: queue_wf_def, metis option.inject\<close>)
  then have "queue_i c = card (q_off c ` {..<queue_i c})" by (simp add: card_image)
  also have "\<dots> \<le> card ({..<rows c * cols c} - {i})"
    using assms q_off_less [OF assms(1)]
    by (intro card_mono) (auto simp: queue_wf_def)
  also have "\<dots> < rows c * cols c" using assms(2) by simp
  finally show ?thesis .
qed

lemma cell_ptr_screen:
  "fb_wf c \<Longrightarrow> i < rows c * cols c \<Longrightarrow> cell_ptr c i = Some (screen c ! i)"
  by (auto simp: fb_wf_def geom_wf_def queue_wf_def cell_ptr_def cell_at_def split: option.split)

lemma compare_char_eq: "compare_char a b \<longleftrightarrow> a = b"
  by (cases a; cases b) (auto simp: compare_char_def)

section \<open>A push updates one cell of the screen\<close>

lemma screen_eqI:
  assumes "rows c' = rows c" "cols c' = cols c" "i < rows c * cols c"
    "\<And>j. j < rows c * cols c \<Longrightarrow> cell_at c' j = (if j = i then ch else cell_at c j)"
  shows "screen c' = (screen c)[i := ch]"
  using assms by (intro nth_equalityI) (auto simp: nth_list_update)

lemma push_replace:
  fixes ch :: flanterm_fb_char
  assumes wf: "fb_wf c" and i: "i < rows c * cols c" and k: "fb_map c ! i = Some k"
  defines "c' \<equiv> c\<lparr>queue := (queue c)[k := (queue c ! k)\<lparr>q_c := ch\<rparr>]\<rparr>"
  shows "fb_wf c' \<and> screen c' = (screen c)[i := ch]"
proof -
  have off: "q_off c' j = q_off c j" for j
    by (cases "j = k"; cases "k < length (queue c)") (simp_all add: q_off_def c'_def list_update_beyond)
  have kq: "k < queue_i c" "queue_i c \<le> length (queue c)"
    using wf i k by (auto simp: fb_wf_def queue_wf_def geom_wf_def)
  have "queue_wf c'"
    using wf kq by (auto simp: fb_wf_def queue_wf_def off) (auto simp: c'_def nth_list_update)
  moreover have "geom_wf c'" using wf by (simp add: fb_wf_def geom_wf_def c'_def)
  moreover have "screen c' = (screen c)[i := ch]"
  proof (rule screen_eqI)
    fix j assume j: "j < rows c * cols c"
    have ne: "l \<noteq> k" if "j \<noteq> i" "fb_map c ! j = Some l" for l
      using wf queue_wf_map(2) [OF _ j that(2)] queue_wf_map(2) [OF _ i k] that(1)
      by (auto simp: fb_wf_def)
    show "cell_at c' j = (if j = i then ch else cell_at c j)"
      using k kq by (auto simp: cell_at_def c'_def dest: ne split: option.split)
  qed (use i in \<open>simp_all add: c'_def\<close>)
  ultimately show ?thesis by (simp add: fb_wf_def)
qed

lemma push_new:
  fixes ch :: flanterm_fb_char
  assumes wf: "fb_wf c" and x: "x < cols c" and y: "y < rows c"
  defines "i \<equiv> y * cols c + x" and "k \<equiv> queue_i c"
  assumes none: "fb_map c ! i = None"
  defines "c' \<equiv> c\<lparr>queue := (queue c)[k := \<lparr>q_x = x, q_y = y, q_c = ch\<rparr>],
                 queue_i := Suc k, fb_map := (fb_map c)[i := Some k]\<rparr>"
  shows "fb_wf c' \<and> screen c' = (screen c)[i := ch]"
proof -
  have i: "i < rows c * cols c" using x y by (simp add: i_def cell_index)
  have g: "geom_wf c" and q: "queue_wf c" using wf by (simp_all add: fb_wf_def)
  have k: "k < rows c * cols c" using queue_not_full [OF q i none] by (simp add: k_def)
  have len: "length (queue c) = rows c * cols c" "length (fb_map c) = rows c * cols c"
    using g by (simp_all add: geom_wf_def)
  have off: "q_off c' j = (if j = k then i else q_off c j)" for j
    using k len by (simp add: q_off_def c'_def i_def)
  have "queue_wf c'"
    unfolding queue_wf_def off
  proof (intro conjI allI impI)
    show "queue_i c' \<le> rows c' * cols c'" using k by (simp add: c'_def)
    fix j assume "j < queue_i c'"
    then have j: "j < k \<or> j = k" by (auto simp: c'_def)
    have "q_x (queue c' ! j) < cols c \<and> q_y (queue c' ! j) < rows c \<and>
          fb_map c' ! (if j = k then i else q_off c j) = Some j"
    proof (cases "j = k")
      case True
      then show ?thesis using k len x y i by (simp add: c'_def)
    next
      case False
      with j have j: "j < queue_i c" by (simp add: k_def)
      have "q_off c j \<noteq> i" using queue_wf_item(3) [OF q j] none by auto
      then show ?thesis using queue_wf_item [OF q j] False by (simp add: c'_def)
    qed
    then show "q_x (queue c' ! j) < cols c'" "q_y (queue c' ! j) < rows c'"
      "fb_map c' ! (if j = k then i else q_off c j) = Some j"
      by (simp_all add: c'_def)
  next
    fix j l assume "j < rows c' * cols c'" and jl: "fb_map c' ! j = Some l"
    then have j: "j < rows c * cols c" by (simp add: c'_def)
    have "l < Suc k \<and> (if l = k then i else q_off c l) = j"
    proof (cases "j = i")
      case True
      with jl i len show ?thesis by (simp add: c'_def)
    next
      case False
      with jl have "fb_map c ! j = Some l" by (simp add: c'_def)
      with queue_wf_map [OF q j] k_def show ?thesis by auto
    qed
    then show "l < queue_i c'" "(if l = k then i else q_off c l) = j"
      by (simp_all add: c'_def)
  qed
  moreover have "geom_wf c'" using g by (simp add: geom_wf_def c'_def)
  moreover have "screen c' = (screen c)[i := ch]"
  proof (rule screen_eqI [OF _ _ i])
    fix j assume j: "j < rows c * cols c"
    have "fb_map c ! j \<noteq> Some k" using queue_wf_map(1) [OF q j, of k] by (auto simp: k_def)
    then show "cell_at c' j = (if j = i then ch else cell_at c j)"
      using k len j
      by (auto simp: cell_at_def c'_def nth_list_update split: option.split)
  qed (simp_all add: c'_def)
  ultimately show ?thesis by (simp add: fb_wf_def)
qed

text \<open>The map of the other cells stays.\<close>

lemma push_to_queue_map:
  assumes "fb_wf c" "push_to_queue c ch x y = Some c'" "x < cols c" "y < rows c" "j \<noteq> y * cols c + x"
  shows "fb_map c' ! j = fb_map c ! j"
  using assms cell_index_sz [of c x y]
  by (auto simp: push_to_queue_def fb_wf_def Let_def aset_def split: bind_splits option.splits if_splits)

lemma push_to_queue_ok:
  assumes wf: "fb_wf c"
  shows "\<exists>c'. push_to_queue c ch x y = Some c' \<and> fb_wf c' \<and> qframe c c' \<and>
     screen c' = (if x < cols c \<and> y < rows c then (screen c)[y * cols c + x := ch] else screen c)"
proof (cases "x < cols c \<and> y < rows c")
  case False
  then show ?thesis using wf by (auto simp: push_to_queue_def)
next
  case True
  let ?i = "y * cols c + x"
  have g: "geom_wf c" and q: "queue_wf c" using wf by (simp_all add: fb_wf_def)
  have i: "?i < rows c * cols c" using True by (simp add: cell_index)
  have len: "length (queue c) = rows c * cols c" "length (fb_map c) = rows c * cols c"
      "length (grid c) = rows c * cols c" "rows c * cols c < 2 ^ 31"
    using g by (simp_all add: geom_wf_def)
  note idx = cell_index_sz [OF g conjunct1 [OF True] conjunct2 [OF True]]
  show ?thesis
  proof (cases "fb_map c ! ?i")
    case (Some k)
    then have k: "k < rows c * cols c" using q i by (auto simp: queue_wf_def)
    from push_replace [OF wf i Some, of ch] show ?thesis
      using True i len k Some
      by (intro exI [of _ "c\<lparr>queue := (queue c)[k := (queue c ! k)\<lparr>q_c := ch\<rparr>]\<rparr>"])
         (simp add: push_to_queue_def idx)
  next
    case None
    show ?thesis
    proof (cases "grid c ! ?i = ch")
      case same: True
      have "screen c = (screen c)[?i := ch]"
        using i None same by (intro screen_eqI) (auto simp: cell_at_def)
      then show ?thesis
        using True i len None same wf by (auto simp: push_to_queue_def idx compare_char_eq)
    next
      case False
      have k: "queue_i c < rows c * cols c" by (rule queue_not_full [OF q i None])
      then have "sz_add (queue_i c) (Suc 0) = Suc (queue_i c)"
        using len(4) by (simp add: sz_simps SZ_def)
      with push_new [OF wf conjunct1 [OF True] conjunct2 [OF True] None, of ch] show ?thesis
        using True i len k None False by (simp add: push_to_queue_def idx compare_char_eq Let_def)
    qed
  qed
qed

end
