(* ===== verification/FB_Scroll.thy ===== *)
theory FB_Scroll
  imports FB_Queue
begin

text \<open>
  The operations of the frame buffer backend (\<open>kernel/flanterm/backends/fb.c\<close>) that write
  characters, scroll, clear, move the cursor and set the colours. Their effect on the logical
  screen is given by list functions (\<open>scroll_rows\<close>, \<open>revscroll_rows\<close>, ...): the
  refinement lemmas say that the loops of the code, which go through the queue and the map
  cell by cell, compute exactly these, without leaving an array.
\<close>

section \<open>Operations\<close>

definition flanterm_fb_save_state :: "ctx \<Rightarrow> ctx" where
  "flanterm_fb_save_state ctx =
     ctx\<lparr>saved_state_text_fg := text_fg ctx, saved_state_text_bg := text_bg ctx,
         saved_state_cursor_x := cursor_x ctx, saved_state_cursor_y := cursor_y ctx\<rparr>"

definition flanterm_fb_restore_state :: "ctx \<Rightarrow> ctx" where
  "flanterm_fb_restore_state ctx =
     ctx\<lparr>text_fg := saved_state_text_fg ctx, text_bg := saved_state_text_bg ctx,
         cursor_x := saved_state_cursor_x ctx, cursor_y := saved_state_cursor_y ctx\<rparr>"

definition flanterm_fb_swap_palette :: "ctx \<Rightarrow> ctx" where
  "flanterm_fb_swap_palette ctx = ctx\<lparr>text_bg := text_fg ctx, text_fg := text_bg ctx\<rparr>"

definition empty_char :: "ctx \<Rightarrow> flanterm_fb_char" where
  "empty_char ctx = \<lparr>char_c = 0x20, char_fg = text_fg ctx, char_bg = text_bg ctx\<rparr>"

text \<open>
  \<open>revscroll\<close>: \<open>i\<close> runs down from \<open>(bottom - 1) * cols - 1\<close> while
  \<open>i >= top * cols\<close>, and stops when it has wrapped to \<open>(size_t)-1\<close>.
\<close>

definition revscroll_indices :: "nat \<Rightarrow> nat \<Rightarrow> nat list" where
  "revscroll_indices hi lo = (if hi = SZ_MAX then [] else rev [lo..<Suc hi])"

definition flanterm_fb_revscroll :: "ctx \<Rightarrow> ctx option" where
  "flanterm_fb_revscroll ctx = do {
     ctx \<leftarrow> ofold (\<lambda>i s. do {
         ch \<leftarrow> cell_ptr s i;
         push_to_queue s ch (sz_add i (cols ctx) mod cols ctx) (sz_add i (cols ctx) div cols ctx)
       })
       (revscroll_indices
          (sz_sub (sz_mul (sz_sub (scroll_bottom_margin ctx) 1) (cols ctx)) 1)
          (sz_mul (scroll_top_margin ctx) (cols ctx))) ctx;
     ofold (\<lambda>i s. push_to_queue s (empty_char ctx) i (scroll_top_margin ctx)) [0..<cols ctx] ctx
   }"

definition flanterm_fb_scroll :: "ctx \<Rightarrow> ctx option" where
  "flanterm_fb_scroll ctx = do {
     ctx \<leftarrow> ofold (\<lambda>i s. do {
         ch \<leftarrow> cell_ptr s i;
         push_to_queue s ch (sz_sub i (cols ctx) mod cols ctx) (sz_sub i (cols ctx) div cols ctx)
       })
       [sz_mul (sz_add (scroll_top_margin ctx) 1) (cols ctx) ..<
        sz_mul (scroll_bottom_margin ctx) (cols ctx)] ctx;
     ofold (\<lambda>i s. push_to_queue s (empty_char ctx) i (sz_sub (scroll_bottom_margin ctx) 1))
       [0..<cols ctx] ctx
   }"

definition flanterm_fb_clear :: "ctx \<Rightarrow> bool \<Rightarrow> ctx option" where
  "flanterm_fb_clear ctx move = do {
     ctx \<leftarrow> ofold (\<lambda>i s. push_to_queue s (empty_char ctx) (i mod cols ctx) (i div cols ctx))
       [0..<sz_mul (rows ctx) (cols ctx)] ctx;
     Some (if move then ctx\<lparr>cursor_x := 0, cursor_y := 0\<rparr> else ctx)
   }"

text \<open>\<open>(int)x < 0\<close> for a \<open>size_t x\<close>: the sign bit of its low 32 bits.\<close>

definition int_negative :: "nat \<Rightarrow> bool" where
  "int_negative x \<longleftrightarrow> 2 ^ 31 \<le> x mod 2 ^ 32"

definition clamp_pos :: "nat \<Rightarrow> nat \<Rightarrow> nat" where
  "clamp_pos x n = (if n \<le> x then (if int_negative x then 0 else sz_sub n 1) else x)"

definition flanterm_fb_set_cursor_pos :: "ctx \<Rightarrow> nat \<Rightarrow> nat \<Rightarrow> ctx" where
  "flanterm_fb_set_cursor_pos ctx x y =
     ctx\<lparr>cursor_x := clamp_pos x (cols ctx), cursor_y := clamp_pos y (rows ctx)\<rparr>"

definition flanterm_fb_get_cursor_pos :: "ctx \<Rightarrow> nat \<times> nat" where
  "flanterm_fb_get_cursor_pos ctx =
     (if cols ctx \<le> cursor_x ctx then sz_sub (cols ctx) 1 else cursor_x ctx,
      if rows ctx \<le> cursor_y ctx then sz_sub (rows ctx) 1 else cursor_y ctx)"

definition flanterm_fb_move_character ::
    "ctx \<Rightarrow> nat \<Rightarrow> nat \<Rightarrow> nat \<Rightarrow> nat \<Rightarrow> ctx option" where
  "flanterm_fb_move_character ctx new_x new_y old_x old_y =
     (if cols ctx \<le> old_x \<or> rows ctx \<le> old_y \<or> cols ctx \<le> new_x \<or> rows ctx \<le> new_y
      then Some ctx
      else do {
        ch \<leftarrow> cell_ptr ctx (sz_add old_x (sz_mul old_y (cols ctx)));
        push_to_queue ctx ch new_x new_y
      })"

definition flanterm_fb_set_text_fg :: "ctx \<Rightarrow> nat \<Rightarrow> ctx option" where
  "flanterm_fb_set_text_fg ctx i = do { v \<leftarrow> aget (ansi_colours ctx) i; Some (ctx\<lparr>text_fg := v\<rparr>) }"

definition flanterm_fb_set_text_bg :: "ctx \<Rightarrow> nat \<Rightarrow> ctx option" where
  "flanterm_fb_set_text_bg ctx i = do { v \<leftarrow> aget (ansi_colours ctx) i; Some (ctx\<lparr>text_bg := v\<rparr>) }"

definition flanterm_fb_set_text_fg_bright :: "ctx \<Rightarrow> nat \<Rightarrow> ctx option" where
  "flanterm_fb_set_text_fg_bright ctx i =
     do { v \<leftarrow> aget (ansi_bright_colours ctx) i; Some (ctx\<lparr>text_fg := v\<rparr>) }"

definition flanterm_fb_set_text_bg_bright :: "ctx \<Rightarrow> nat \<Rightarrow> ctx option" where
  "flanterm_fb_set_text_bg_bright ctx i =
     do { v \<leftarrow> aget (ansi_bright_colours ctx) i; Some (ctx\<lparr>text_bg := v\<rparr>) }"

definition flanterm_fb_set_text_fg_rgb :: "ctx \<Rightarrow> u32 \<Rightarrow> ctx" where
  "flanterm_fb_set_text_fg_rgb ctx v = ctx\<lparr>text_fg := v\<rparr>"

definition flanterm_fb_set_text_bg_rgb :: "ctx \<Rightarrow> u32 \<Rightarrow> ctx" where
  "flanterm_fb_set_text_bg_rgb ctx v = ctx\<lparr>text_bg := v\<rparr>"

definition flanterm_fb_set_text_fg_default :: "ctx \<Rightarrow> ctx" where
  "flanterm_fb_set_text_fg_default ctx = ctx\<lparr>text_fg := default_fg ctx\<rparr>"

definition flanterm_fb_set_text_bg_default :: "ctx \<Rightarrow> ctx" where
  "flanterm_fb_set_text_bg_default ctx = ctx\<lparr>text_bg := 0xffffffff\<rparr>"

definition flanterm_fb_set_text_fg_default_bright :: "ctx \<Rightarrow> ctx" where
  "flanterm_fb_set_text_fg_default_bright ctx = ctx\<lparr>text_fg := default_fg_bright ctx\<rparr>"

definition flanterm_fb_set_text_bg_default_bright :: "ctx \<Rightarrow> ctx" where
  "flanterm_fb_set_text_bg_default_bright ctx = ctx\<lparr>text_bg := default_bg_bright ctx\<rparr>"

text \<open>
  \<open>raw_putchar\<close>: the line wrap (with the scroll at the bottom margin and the correction of
  \<open>cursor_y\<close> that compares with \<open>cols\<close>), then the push, then \<open>cursor_x++\<close>.
\<close>

definition wrap_line :: "ctx \<Rightarrow> ctx option" where
  "wrap_line ctx = do {
     let ctx = ctx\<lparr>cursor_x := 0, cursor_y := sz_add (cursor_y ctx) 1\<rparr>;
     ctx \<leftarrow> (if cursor_y ctx = scroll_bottom_margin ctx
            then flanterm_fb_scroll (ctx\<lparr>cursor_y := sz_sub (cursor_y ctx) 1\<rparr>)
            else Some ctx);
     Some (if cols ctx \<le> cursor_y ctx then ctx\<lparr>cursor_y := sz_sub (cols ctx) 1\<rparr> else ctx)
   }"

definition flanterm_fb_raw_putchar :: "ctx \<Rightarrow> u8 \<Rightarrow> ctx option" where
  "flanterm_fb_raw_putchar ctx c = do {
     ctx \<leftarrow> (if cols ctx \<le> cursor_x ctx \<and>
               (cursor_y ctx < sz_sub (scroll_bottom_margin ctx) 1 \<or> scroll_enabled ctx)
            then wrap_line ctx else Some ctx);
     let ch = \<lparr>char_c = ucast c, char_fg = text_fg ctx, char_bg = text_bg ctx\<rparr>;
     push_to_queue (ctx\<lparr>cursor_x := sz_add (cursor_x ctx) 1\<rparr>) ch (cursor_x ctx) (cursor_y ctx)
   }"

section \<open>The interface of the scrolling loops\<close>

text \<open>
  A buffer of \<open>height * width\<close> cells that can be read at an index and written at a position,
  where a write outside the buffer is ignored.
\<close>

locale cell_buffer =
  fixes put :: "'s \<Rightarrow> 'a \<Rightarrow> nat \<Rightarrow> nat \<Rightarrow> 's option"
    and peek :: "'s \<Rightarrow> nat \<Rightarrow> 'a option"
    and cells :: "'s \<Rightarrow> 'a list"
    and width :: "'s \<Rightarrow> nat" and height :: "'s \<Rightarrow> nat"
    and inv :: "'s \<Rightarrow> bool"
    and frame :: "'s \<Rightarrow> 's \<Rightarrow> bool"
  assumes frame_refl: "frame s s"
    and frame_trans: "frame s s' \<Longrightarrow> frame s' s'' \<Longrightarrow> frame s s''"
    and frame_dims: "frame s s' \<Longrightarrow> width s' = width s \<and> height s' = height s"
    and length_cells: "length (cells s) = height s * width s"
    and peek: "inv s \<Longrightarrow> i < height s * width s \<Longrightarrow> peek s i = Some (cells s ! i)"
    and put: "inv s \<Longrightarrow> \<exists>s'. put s a x y = Some s' \<and> inv s' \<and> frame s s' \<and>
        cells s' = (if x < width s \<and> y < height s then (cells s)[y * width s + x := a]
                    else cells s)"
begin

lemma put_seq:
  assumes "inv s" "\<forall>i \<in> set is. X i < width s \<and> Y i < height s"
  shows "\<exists>s'. ofold (\<lambda>i s. put s a (X i) (Y i)) is s = Some s' \<and> inv s' \<and> frame s s' \<and>
     cells s' = fold (\<lambda>i cs. cs[Y i * width s + X i := a]) is (cells s)"
  using assms
proof (induction "is" arbitrary: s)
  case Nil
  then show ?case by (simp add: frame_refl)
next
  case (Cons i "is")
  obtain s1 where s1: "put s a (X i) (Y i) = Some s1" "inv s1" "frame s s1"
    "cells s1 = (cells s)[Y i * width s + X i := a]"
    using put [OF Cons.prems(1), of a "X i" "Y i"] Cons.prems(2) by auto
  then have d: "width s1 = width s" "height s1 = height s"
    using frame_dims by auto
  from Cons.IH [OF s1(2)] Cons.prems(2) d obtain s2 where
    "ofold (\<lambda>i s. put s a (X i) (Y i)) is s1 = Some s2" "inv s2" "frame s1 s2"
    "cells s2 = fold (\<lambda>i cs. cs[Y i * width s + X i := a]) is (cells s1)"
    by auto
  with s1 show ?case by (auto intro: frame_trans)
qed

lemma move_seq:
  assumes "inv s" "\<forall>i \<in> set is. i < height s * width s \<and> X i < width s \<and> Y i < height s"
  shows "\<exists>s'. ofold (\<lambda>i s. do { ch \<leftarrow> peek s i; put s ch (X i) (Y i) }) is s = Some s' \<and>
     inv s' \<and> frame s s' \<and>
     cells s' = fold (\<lambda>i cs. cs[Y i * width s + X i := cs ! i]) is (cells s)"
  using assms
proof (induction "is" arbitrary: s)
  case Nil
  then show ?case by (simp add: frame_refl)
next
  case (Cons i "is")
  have pk: "peek s i = Some (cells s ! i)" using Cons.prems by (simp add: peek)
  obtain s1 where s1: "put s (cells s ! i) (X i) (Y i) = Some s1" "inv s1" "frame s s1"
    "cells s1 = (cells s)[Y i * width s + X i := cells s ! i]"
    using put [OF Cons.prems(1), of "cells s ! i" "X i" "Y i"] Cons.prems(2) by auto
  then have d: "width s1 = width s" "height s1 = height s"
    using frame_dims by auto
  from Cons.IH [OF s1(2)] Cons.prems(2) d obtain s2 where
    "ofold (\<lambda>i s. do { ch \<leftarrow> peek s i; put s ch (X i) (Y i) }) is s1 = Some s2"
    "inv s2" "frame s1 s2"
    "cells s2 = fold (\<lambda>i cs. cs[Y i * width s + X i := cs ! i]) is (cells s1)"
    by auto
  with s1 pk show ?case by (auto intro: frame_trans)
qed

end

interpretation fbq: cell_buffer push_to_queue cell_ptr screen cols rows fb_wf qframe
proof unfold_locales
  fix s s' s'' :: ctx and i x y and a
  show "qframe s s" by simp
  show "qframe s s' \<Longrightarrow> qframe s' s'' \<Longrightarrow> qframe s s''" by (rule qframe_trans)
  show "qframe s s' \<Longrightarrow> cols s' = cols s \<and> rows s' = rows s" by (simp add: qframe_geom)
  show "length (screen s) = rows s * cols s" by simp
  show "fb_wf s \<Longrightarrow> i < rows s * cols s \<Longrightarrow> cell_ptr s i = Some (screen s ! i)"
    by (rule cell_ptr_screen)
  show "fb_wf s \<Longrightarrow> \<exists>s'. push_to_queue s a x y = Some s' \<and> fb_wf s' \<and> qframe s s' \<and>
      screen s' = (if x < cols s \<and> y < rows s then (screen s)[y * cols s + x := a] else screen s)"
    by (rule push_to_queue_ok)
qed

section \<open>Blocks of a list, filled and shifted cell by cell\<close>

lemma fold_fill:
  "b + w \<le> length cs \<Longrightarrow>
   fold (\<lambda>i cs. cs[b + i := a]) [0..<w] cs = take b cs @ replicate w a @ drop (b + w) cs"
proof (induction w)
  case (Suc w)
  let ?l = "take b cs @ replicate w a @ drop (b + w) cs"
  have "fold (\<lambda>i cs. cs[b + i := a]) [0..<Suc w] cs = ?l[b + w := a]" using Suc by simp
  also have "?l[b + w := a] = take b cs @ replicate w a @ (drop (b + w) cs)[0 := a]"
    using Suc.prems by (simp add: list_update_append)
  also have "drop (b + w) cs = cs ! (b + w) # drop (b + Suc w) cs"
    using Suc.prems by (simp add: Cons_nth_drop_Suc)
  finally show ?case by (simp add: replicate_append_same)
qed simp

lemma fold_shift_back:
  assumes "w \<le> lo"
  shows "lo \<le> hi \<Longrightarrow> hi \<le> length cs \<Longrightarrow>
   fold (\<lambda>i cs. cs[i - w := cs ! i]) [lo..<hi] cs =
   take (lo - w) cs @ take (hi - lo) (drop lo cs) @ drop (hi - w) cs"
proof (induction hi rule: dec_induct)
  case base
  then show ?case by simp
next
  case (step hi)
  let ?l = "take (lo - w) cs @ take (hi - lo) (drop lo cs) @ drop (hi - w) cs"
  have len: "length (take (lo - w) cs @ take (hi - lo) (drop lo cs)) = hi - w"
    using step assms by simp
  have "\<not> hi < hi - w" by arith
  then have nth: "?l ! hi = cs ! hi"
    unfolding append_assoc [symmetric] nth_append len using step.prems assms by simp
  have "fold (\<lambda>i cs. cs[i - w := cs ! i]) [lo..<Suc hi] cs = ?l[hi - w := ?l ! hi]"
    using step by simp
  also have "\<dots> = take (lo - w) cs @ take (hi - lo) (drop lo cs) @ (drop (hi - w) cs)[0 := cs ! hi]"
    unfolding nth using len
    by (simp add: list_update_append del: append_assoc flip: append_assoc)
  also have "drop (hi - w) cs = cs ! (hi - w) # drop (Suc hi - w) cs"
    using step assms by (simp add: Cons_nth_drop_Suc Suc_diff_le)
  also have "take (hi - lo) (drop lo cs) @ (cs ! (hi - w) # drop (Suc hi - w) cs)[0 := cs ! hi]
      = take (Suc hi - lo) (drop lo cs) @ drop (Suc hi - w) cs"
    using step by (simp add: Suc_diff_le take_Suc_conv_app_nth)
  finally show ?case .
qed

lemma fold_shift_fwd:
  "lo \<le> hi \<Longrightarrow> hi + w \<le> length cs \<Longrightarrow>
   fold (\<lambda>i cs. cs[i + w := cs ! i]) (rev [lo..<hi]) cs =
   take (lo + w) cs @ take (hi - lo) (drop lo cs) @ drop (hi + w) cs"
proof (induction hi arbitrary: cs rule: dec_induct)
  case base
  then show ?case by simp
next
  case (step hi)
  let ?cs = "cs[hi + w := cs ! hi]"
  have "fold (\<lambda>i cs. cs[i + w := cs ! i]) (rev [lo..<Suc hi]) cs =
        fold (\<lambda>i cs. cs[i + w := cs ! i]) (rev [lo..<hi]) ?cs"
    using step(1) by simp
  also have "\<dots> = take (lo + w) ?cs @ take (hi - lo) (drop lo ?cs) @ drop (hi + w) ?cs"
    using step by simp
  also have "take (lo + w) ?cs = take (lo + w) cs" using step(1) by simp
  also have "take (hi - lo) (drop lo ?cs) = take (hi - lo) (drop lo cs)"
    using step(1) by (simp add: drop_update_swap)
  also have "drop (hi + w) ?cs = cs ! hi # drop (Suc hi + w) cs"
    using step.prems by (simp add: drop_update_swap flip: Cons_nth_drop_Suc)
  finally show ?case
    using step by (simp add: Suc_diff_le take_Suc_conv_app_nth)
qed

section \<open>What scrolling and clearing do to the screen\<close>

definition scroll_rows :: "nat \<Rightarrow> nat \<Rightarrow> nat \<Rightarrow> 'a \<Rightarrow> 'a list \<Rightarrow> 'a list" where
  "scroll_rows w t b a cs =
     take (t * w) cs @ take ((b - Suc t) * w) (drop (Suc t * w) cs)
     @ replicate w a @ drop (b * w) cs"

definition revscroll_rows :: "nat \<Rightarrow> nat \<Rightarrow> nat \<Rightarrow> 'a \<Rightarrow> 'a list \<Rightarrow> 'a list" where
  "revscroll_rows w t b a cs =
     take (t * w) cs @ replicate w a @ take ((b - Suc t) * w) (drop (t * w) cs)
     @ drop (max (Suc t) b * w) cs"

lemma row_le: "y < rows c \<Longrightarrow> Suc y * cols c \<le> rows c * cols c"
  by (intro mult_right_mono) simp_all

lemma geom_small:
  assumes "geom_wf c" "n \<le> rows c"
  shows "n * cols c < 2 ^ 31"
  using le_less_trans [OF mult_le_mono1 [OF assms(2)]] assms(1) unfolding geom_wf_def by blast

lemma geom_dims:
  assumes "geom_wf c"
  shows "0 < rows c" "0 < cols c" "rows c < 2 ^ 31" "cols c < 2 ^ 31"
proof -
  show pos: "0 < rows c" "0 < cols c" using assms by (simp_all add: geom_wf_def)
  have b: "rows c * cols c < 2 ^ 31" using assms by (simp add: geom_wf_def)
  have "rows c * 1 \<le> rows c * cols c" "1 * cols c \<le> rows c * cols c"
    using pos by (intro mult_le_mono; simp)+
  from this [THEN le_less_trans, OF b] show "rows c < 2 ^ 31" "cols c < 2 ^ 31" by simp_all
qed

lemma fold_cong_set:
  "(\<And>i. i \<in> set is \<Longrightarrow> f i = g i) \<Longrightarrow> fold f is s = fold g is s"
  by (induction "is" arbitrary: s) auto

lemma ofold_cong_set:
  "(\<And>i. i \<in> set is \<Longrightarrow> f i = g i) \<Longrightarrow> ofold f is s = ofold g is s"
  by (induction "is" arbitrary: s) (auto cong: Option.bind_cong)

text \<open>Everything but the queue and the cursor is unchanged.\<close>

definition forget_cursor :: "ctx \<Rightarrow> ctx" where
  "forget_cursor c = (forget_queue c)\<lparr>cursor_x := 0, cursor_y := 0\<rparr>"

definition cframe :: "ctx \<Rightarrow> ctx \<Rightarrow> bool" where
  "cframe c c' \<longleftrightarrow> forget_cursor c' = forget_cursor c"

lemma cframe_qframe: "qframe c c' \<Longrightarrow> cframe c c'"
  by (simp add: cframe_def qframe_def forget_cursor_def)

lemma cframe_refl [simp]: "cframe c c"
  by (simp add: cframe_def)

lemma cframe_trans [trans]: "cframe c c' \<Longrightarrow> cframe c' c'' \<Longrightarrow> cframe c c''"
  by (simp add: cframe_def)

lemma cframe_cursor [simp]:
  "cframe c (c'\<lparr>cursor_x := x\<rparr>) = cframe c c'" "cframe c (c'\<lparr>cursor_y := y\<rparr>) = cframe c c'"
  "cframe (c\<lparr>cursor_x := x\<rparr>) c' = cframe c c'" "cframe (c\<lparr>cursor_y := y\<rparr>) c' = cframe c c'"
  by (simp_all add: cframe_def forget_cursor_def forget_queue_def)

lemma cframe_sel:
  assumes "cframe c c'" and "\<And>d. f (forget_cursor d) = f d"
  shows "f c' = f c"
  using assms unfolding cframe_def by metis

lemma cframe_geom:
  assumes "cframe c c'"
  shows "rows c' = rows c" "cols c' = cols c" "grid c' = grid c"
    "text_fg c' = text_fg c" "text_bg c' = text_bg c" "scroll_enabled c' = scroll_enabled c"
    "scroll_top_margin c' = scroll_top_margin c"
    "scroll_bottom_margin c' = scroll_bottom_margin c"
  by (rule cframe_sel [OF assms], simp add: forget_cursor_def forget_queue_def)+

text \<open>The invariant and the screen only depend on the sizes and the queue.\<close>

lemma fb_wf_cong:
  assumes "rows c' = rows c" "cols c' = cols c" "grid c' = grid c" "queue c' = queue c"
    "queue_i c' = queue_i c" "fb_map c' = fb_map c"
  shows "fb_wf c' = fb_wf c" "screen c' = screen c"
proof -
  have "cell_at c' i = cell_at c i" for i
    using assms by (simp add: cell_at_def split: option.split)
  then show "fb_wf c' = fb_wf c" "screen c' = screen c"
    using assms by (simp_all add: fb_wf_def geom_wf_def queue_wf_def q_off_def screen_def)
qed

lemma fb_wf_cursor [simp]:
  "fb_wf (c\<lparr>cursor_x := x\<rparr>) = fb_wf c" "screen (c\<lparr>cursor_x := x\<rparr>) = screen c"
  "fb_wf (c\<lparr>cursor_y := y\<rparr>) = fb_wf c" "screen (c\<lparr>cursor_y := y\<rparr>) = screen c"
  by (rule fb_wf_cong; simp)+

lemma blank_row:
  assumes wf: "fb_wf c" and y: "y < rows c"
  shows "\<exists>c'. ofold (\<lambda>i s. push_to_queue s a i y) [0..<cols c] c = Some c' \<and> fb_wf c' \<and>
     qframe c c' \<and> screen c' = take (y * cols c) (screen c) @ replicate (cols c) a
                                @ drop (Suc y * cols c) (screen c)"
  using fbq.put_seq [OF wf, of "[0..<cols c]" "\<lambda>i. i" "\<lambda>_. y" a] y
    fold_fill [of "y * cols c" "cols c" "screen c" a] row_le [OF y]
  by (auto simp: add.commute)

lemma flanterm_fb_scroll_ok:
  assumes wf: "fb_wf c" and top: "scroll_top_margin c < scroll_bottom_margin c"
    and bot: "scroll_bottom_margin c \<le> rows c"
  shows "\<exists>c'. flanterm_fb_scroll c = Some c' \<and> fb_wf c' \<and> qframe c c' \<and>
     screen c' = scroll_rows (cols c) (scroll_top_margin c) (scroll_bottom_margin c)
                   (empty_char c) (screen c)"
proof -
  let ?w = "cols c" and ?t = "scroll_top_margin c" and ?b = "scroll_bottom_margin c"
  let ?lo = "Suc ?t * ?w" and ?hi = "?b * ?w"
  have g: "geom_wf c" using wf by (simp add: fb_wf_def)
  have w: "0 < ?w" using g by (simp add: geom_wf_def)
  have le: "?w \<le> ?lo" "?lo \<le> ?hi" "?hi \<le> rows c * ?w" "?hi < 2 ^ 31"
    by (simp, rule mult_le_mono1, use top in simp, rule mult_le_mono1 [OF bot],
        rule geom_small [OF g bot])
  have rows: "?b < SZ" using bot geom_dims(3) [OF g] by (simp add: SZ_def)
  have eqs: "sz_mul (sz_add ?t 1) ?w = ?lo" "sz_mul ?b ?w = ?hi" "sz_sub ?b 1 = ?b - 1"
    using le top rows by (simp_all add: sz_simps SZ_def)
  let ?is = "[?lo..<?hi]"
  have "\<forall>i \<in> set ?is. i < rows c * ?w \<and> (i - ?w) mod ?w < ?w \<and> (i - ?w) div ?w < rows c"
  proof
    fix i assume "i \<in> set ?is"
    then have "i < ?hi" by simp
    then have "i < rows c * ?w" using le(3) by (rule less_le_trans)
    then show "i < rows c * ?w \<and> (i - ?w) mod ?w < ?w \<and> (i - ?w) div ?w < rows c"
      using w by (simp add: div_less_iff_less_mult)
  qed
  from fbq.move_seq [OF wf this] obtain c1 where c1:
    "ofold (\<lambda>i s. do { ch \<leftarrow> cell_ptr s i; push_to_queue s ch ((i - ?w) mod ?w) ((i - ?w) div ?w) })
       ?is c = Some c1" "fb_wf c1" "qframe c c1"
    "screen c1 = fold (\<lambda>i cs. cs[(i - ?w) div ?w * ?w + (i - ?w) mod ?w := cs ! i]) ?is (screen c)"
    by blast
  have s1: "screen c1 = take (?t * ?w) (screen c) @ take ((?b - Suc ?t) * ?w) (drop ?lo (screen c))
      @ drop ((?b - 1) * ?w) (screen c)"
    using c1(4) fold_shift_back [OF le(1,2), of "screen c"] le(3)
    by (simp add: diff_mult_distrib)
  have dims: "cols c1 = ?w" "rows c1 = rows c" using c1(3) by (simp_all add: qframe_geom)
  then have b1: "?b - 1 < rows c1" using top bot by linarith
  obtain c2 where c2: "ofold (\<lambda>i s. push_to_queue s (empty_char c) i (?b - 1)) [0..<?w] c1 = Some c2"
      "fb_wf c2" "qframe c1 c2"
      "screen c2 = take ((?b - 1) * ?w) (screen c1) @ replicate ?w (empty_char c)
                   @ drop (Suc (?b - 1) * ?w) (screen c1)"
    using blank_row [OF c1(2) b1, of "empty_char c"] unfolding dims by blast
  have body: "ofold (\<lambda>i s. do { ch \<leftarrow> cell_ptr s i;
        push_to_queue s ch (sz_sub i ?w mod ?w) (sz_sub i ?w div ?w) }) ?is c = Some c1"
    unfolding c1(1) [symmetric] using le(1) by (intro ofold_cong_set) (simp add: sz_simps)
  have "flanterm_fb_scroll c = Some c2"
    unfolding flanterm_fb_scroll_def eqs body
    using c2(1) c1(3) eqs(3) by (simp add: qframe_geom empty_char_def)
  moreover obtain d where d: "?b = Suc (?t + d)" using top less_iff_Suc_add by blast
  let ?A = "take (?t * ?w) (screen c)" and ?B = "take (d * ?w) (drop ?lo (screen c))"
  have "Suc (?t + d) * ?w \<le> rows c * ?w" using le(3) d by simp
  then have len: "length ?A = ?t * ?w" "length ?B = d * ?w"
    by (simp_all add: add_mult_distrib)
  have "screen c2 = ?A @ ?B @ replicate ?w (empty_char c) @ drop ?hi (screen c)"
    unfolding c2(4) s1 d using len by (simp add: add_mult_distrib)
  then have "screen c2 = scroll_rows ?w ?t ?b (empty_char c) (screen c)"
    by (simp add: scroll_rows_def d)
  ultimately show ?thesis
    using c2(2,3) c1(3) by (blast intro: qframe_trans)
qed

lemma revscroll_indices_upto:
  assumes "h < SZ"
  shows "revscroll_indices (sz_sub h 1) lo = rev [lo..<h]"
proof (cases h)
  case 0
  then show ?thesis by (simp add: revscroll_indices_def sz_sub_0_1)
next
  case (Suc k)
  with assms have "k \<noteq> SZ - 1" by linarith
  with Suc show ?thesis
    by (simp add: revscroll_indices_def sz_simps SZ_MAX_def)
qed

lemma flanterm_fb_revscroll_ok:
  assumes wf: "fb_wf c" and t: "scroll_top_margin c < rows c"
    and b: "0 < scroll_bottom_margin c" "scroll_bottom_margin c \<le> rows c"
  shows "\<exists>c'. flanterm_fb_revscroll c = Some c' \<and> fb_wf c' \<and> qframe c c' \<and>
     screen c' = revscroll_rows (cols c) (scroll_top_margin c) (scroll_bottom_margin c)
                   (empty_char c) (screen c)"
proof -
  let ?w = "cols c" and ?t = "scroll_top_margin c" and ?b = "scroll_bottom_margin c"
  let ?lo = "?t * ?w" and ?hi = "(?b - 1) * ?w"
  have g: "geom_wf c" using wf by (simp add: fb_wf_def)
  have w: "0 < ?w" using g by (simp add: geom_wf_def)
  have lo: "?lo < 2 ^ 31" using t by (intro geom_small [OF g]) simp
  have hi: "?hi < 2 ^ 31" using b by (intro geom_small [OF g]) simp
  have "Suc (?b - 1) * ?w \<le> rows c * ?w" by (rule row_le) (use b in linarith)
  then have hi_w: "?hi + ?w \<le> rows c * ?w" by (simp only: mult_Suc add.commute)
  have eqs: "sz_mul (sz_sub ?b 1) ?w = ?hi" "sz_mul ?t ?w = ?lo"
    using lo hi b by (simp_all add: sz_simps SZ_def)
  have idx: "revscroll_indices (sz_sub ?hi 1) ?lo = rev [?lo..<?hi]"
    using hi by (intro revscroll_indices_upto) (simp add: SZ_def)
  let ?is = "rev [?lo..<?hi]"
  have "\<forall>i \<in> set ?is. i < rows c * ?w \<and> (i + ?w) mod ?w < ?w \<and> (i + ?w) div ?w < rows c"
  proof
    fix i assume "i \<in> set ?is"
    then have "i < ?hi" by simp
    then have "i + ?w < ?hi + ?w" by simp
    then have "i + ?w < rows c * ?w" using hi_w by (rule less_le_trans)
    then show "i < rows c * ?w \<and> (i + ?w) mod ?w < ?w \<and> (i + ?w) div ?w < rows c"
      using w by (metis add_lessD1 less_mult_imp_div_less mod_less_divisor)
  qed
  from fbq.move_seq [OF wf this] obtain c1 where c1:
    "ofold (\<lambda>i s. do { ch \<leftarrow> cell_ptr s i; push_to_queue s ch ((i + ?w) mod ?w) ((i + ?w) div ?w) })
       ?is c = Some c1" "fb_wf c1" "qframe c c1"
    "screen c1 = fold (\<lambda>i cs. cs[(i + ?w) div ?w * ?w + (i + ?w) mod ?w := cs ! i]) ?is (screen c)"
    by blast
  have s1: "screen c1 = (if ?t < ?b then take (?lo + ?w) (screen c)
        @ take (?hi - ?lo) (drop ?lo (screen c)) @ drop (?hi + ?w) (screen c) else screen c)"
  proof (cases "?t < ?b")
    case True
    then have "?lo \<le> ?hi" by (intro mult_le_mono1) linarith
    from fold_shift_fwd [OF this, of ?w "screen c"] hi_w True show ?thesis
      unfolding c1(4) div_mult_mod_eq by simp
  next
    case False
    then have "?hi \<le> ?lo" by (intro mult_le_mono1) linarith
    with False show ?thesis by (simp add: c1(4))
  qed
  have dims: "cols c1 = ?w" "rows c1 = rows c" using c1(3) by (simp_all add: qframe_geom)
  then have t1: "?t < rows c1" using t by simp
  obtain c2 where c2: "ofold (\<lambda>i s. push_to_queue s (empty_char c) i ?t) [0..<?w] c1 = Some c2"
      "fb_wf c2" "qframe c1 c2"
      "screen c2 = take ?lo (screen c1) @ replicate ?w (empty_char c) @ drop (Suc ?t * ?w) (screen c1)"
    using blank_row [OF c1(2) t1, of "empty_char c"] unfolding dims by blast
  have body: "ofold (\<lambda>i s. do { ch \<leftarrow> cell_ptr s i;
        push_to_queue s ch (sz_add i ?w mod ?w) (sz_add i ?w div ?w) }) ?is c = Some c1"
    unfolding c1(1) [symmetric] using hi geom_dims(4) [OF g]
    by (intro ofold_cong_set) (simp add: sz_simps SZ_def)
  have "flanterm_fb_revscroll c = Some c2"
    unfolding flanterm_fb_revscroll_def eqs idx body
    using c2(1) c1(3) by (simp add: qframe_geom empty_char_def)
  moreover have "screen c2 = revscroll_rows ?w ?t ?b (empty_char c) (screen c)"
  proof (cases "?t < ?b")
    case True
    then obtain d where d: "?b = Suc (?t + d)" using less_iff_Suc_add by blast
    have "length (screen c) = rows c * ?w" "?lo + d * ?w + ?w \<le> rows c * ?w"
      using hi_w by (simp_all add: d add_mult_distrib)
    then show ?thesis
      unfolding c2(4) s1 revscroll_rows_def using d True
      by (simp add: add_mult_distrib max_def add.commute add.left_commute)
  next
    case False
    then show ?thesis
      unfolding c2(4) s1 revscroll_rows_def by (simp add: max_def)
  qed
  ultimately show ?thesis
    using c2(2,3) c1(3) by (blast intro: qframe_trans)
qed

lemma flanterm_fb_clear_ok:
  assumes wf: "fb_wf c"
  shows "\<exists>c'. flanterm_fb_clear c move = Some c' \<and> fb_wf c' \<and>
     cframe c c' \<and> (if move then cursor_x c' = 0 \<and> cursor_y c' = 0 else qframe c c') \<and>
     screen c' = replicate (rows c * cols c) (empty_char c)"
proof -
  let ?w = "cols c" and ?n = "rows c * cols c"
  have g: "geom_wf c" and w: "0 < ?w" using wf by (simp_all add: fb_wf_def geom_wf_def)
  have n: "sz_mul (rows c) ?w = ?n"
    using g by (simp add: sz_simps geom_wf_def SZ_def)
  have "\<forall>i \<in> set [0..<?n]. i mod ?w < ?w \<and> i div ?w < rows c"
    using w by (simp add: div_less_iff_less_mult)
  from fbq.put_seq [OF wf this, of "empty_char c"] obtain c1 where c1:
    "ofold (\<lambda>i s. push_to_queue s (empty_char c) (i mod ?w) (i div ?w)) [0..<?n] c = Some c1"
    "fb_wf c1" "qframe c c1"
    "screen c1 = fold (\<lambda>i cs. cs[i div ?w * ?w + i mod ?w := empty_char c]) [0..<?n] (screen c)"
    by blast
  have s: "screen c1 = replicate ?n (empty_char c)"
    unfolding c1(4) using fold_fill [of 0 ?n "screen c" "empty_char c"] by simp
  then show ?thesis
    using c1 cframe_qframe [OF c1(3)] by (simp add: flanterm_fb_clear_def n)
qed

section \<open>Cursor, characters, colours\<close>

definition margins_wf :: "ctx \<Rightarrow> bool" where
  "margins_wf c \<longleftrightarrow> scroll_top_margin c < scroll_bottom_margin c
                   \<and> scroll_bottom_margin c \<le> rows c"

lemma clamp_pos_less: "0 < n \<Longrightarrow> clamp_pos x n < n"
  by (simp add: clamp_pos_def sz_simps)

lemma clamp_pos_id: "x < n \<Longrightarrow> clamp_pos x n = x"
  by (simp add: clamp_pos_def)

lemma clamp_pos_neg: "0 < n \<Longrightarrow> n < 2 ^ 31 \<Longrightarrow> clamp_pos (sz_sub 0 (Suc 0)) n = 0"
  by (simp add: clamp_pos_def sz_sub_0_1 SZ_MAX_def SZ_def int_negative_def)

lemma clamp_pos_over: "0 < n \<Longrightarrow> n \<le> x \<Longrightarrow> x < 2 ^ 31 \<Longrightarrow> clamp_pos x n = n - 1"
  by (simp add: clamp_pos_def int_negative_def sz_simps)

lemma set_cursor_pos_ok [simp]:
  "fb_wf (flanterm_fb_set_cursor_pos c x y) = fb_wf c"
  "screen (flanterm_fb_set_cursor_pos c x y) = screen c"
  "cframe c (flanterm_fb_set_cursor_pos c x y)"
  by (simp_all add: flanterm_fb_set_cursor_pos_def)

lemma get_cursor_pos_less:
  assumes "fb_wf c" "flanterm_fb_get_cursor_pos c = (x, y)"
  shows "x < cols c" "y < rows c"
  using assms by (auto simp: flanterm_fb_get_cursor_pos_def fb_wf_def geom_wf_def sz_simps
      split: if_splits)

lemma get_cursor_pos_inside:
  "cursor_x c < cols c \<Longrightarrow> cursor_y c < rows c \<Longrightarrow>
   flanterm_fb_get_cursor_pos c = (cursor_x c, cursor_y c)"
  by (simp add: flanterm_fb_get_cursor_pos_def)

lemma flanterm_fb_move_character_ok:
  assumes wf: "fb_wf c"
  shows "\<exists>c'. flanterm_fb_move_character c nx ny ox oy = Some c' \<and> fb_wf c' \<and> qframe c c' \<and>
     screen c' = (if ox < cols c \<and> oy < rows c \<and> nx < cols c \<and> ny < rows c
                  then (screen c)[ny * cols c + nx := screen c ! (oy * cols c + ox)]
                  else screen c)"
proof (cases "ox < cols c \<and> oy < rows c \<and> nx < cols c \<and> ny < rows c")
  case False
  then show ?thesis using wf by (auto simp: flanterm_fb_move_character_def not_less)
next
  case True
  then have i: "oy * cols c + ox < rows c * cols c" by (simp add: cell_index)
  moreover have "geom_wf c" using wf by (simp add: fb_wf_def)
  ultimately have "sz_add ox (sz_mul oy (cols c)) = oy * cols c + ox"
    by (simp add: sz_simps geom_wf_def SZ_def add.commute)
  then show ?thesis
    using push_to_queue_ok [OF wf, of "screen c ! (oy * cols c + ox)" nx ny] True
      cell_ptr_screen [OF wf i]
    by (auto simp: flanterm_fb_move_character_def)
qed

text \<open>The character cell that \<open>raw_putchar\<close> writes.\<close>

definition glyph_cell :: "ctx \<Rightarrow> u8 \<Rightarrow> flanterm_fb_char" where
  "glyph_cell ctx c = \<lparr>char_c = ucast c, char_fg = text_fg ctx, char_bg = text_bg ctx\<rparr>"

text \<open>The two halves of \<open>raw_putchar\<close> after the line wrap has been decided.\<close>

lemma put_and_advance:
  assumes wf: "fb_wf c"
  shows "\<exists>c'. push_to_queue (c\<lparr>cursor_x := x\<rparr>) ch (cursor_x c) (cursor_y c) = Some c' \<and>
     fb_wf c' \<and> cframe c c' \<and> cursor_x c' = x \<and> cursor_y c' = cursor_y c \<and>
     screen c' = (if cursor_x c < cols c \<and> cursor_y c < rows c
                  then (screen c)[cursor_y c * cols c + cursor_x c := ch] else screen c)"
proof -
  have "fb_wf (c\<lparr>cursor_x := x\<rparr>)" using wf by simp
  from push_to_queue_ok [OF this, of ch "cursor_x c" "cursor_y c"]
  obtain c' where c': "push_to_queue (c\<lparr>cursor_x := x\<rparr>) ch (cursor_x c) (cursor_y c) = Some c'"
    "fb_wf c'" "qframe (c\<lparr>cursor_x := x\<rparr>) c'"
    "screen c' = (if cursor_x c < cols c \<and> cursor_y c < rows c
                  then (screen c)[cursor_y c * cols c + cursor_x c := ch] else screen c)"
    by auto
  have "cframe c c'" using cframe_qframe [OF c'(3)] by simp
  with c' qframe_geom(4,5) [OF c'(3)] show ?thesis by simp
qed

lemma wrap_line_ok:
  assumes wf: "fb_wf c" and m: "margins_wf c"
  defines "y \<equiv> sz_add (cursor_y c) 1"
  shows "\<exists>c'. wrap_line c = Some c' \<and> fb_wf c' \<and> cframe c c' \<and> cursor_x c' = 0 \<and>
     cursor_y c' = (let y' = if y = scroll_bottom_margin c then y - 1 else y
                    in if cols c \<le> y' then cols c - 1 else y') \<and>
     screen c' = (if y = scroll_bottom_margin c
                  then scroll_rows (cols c) (scroll_top_margin c) (scroll_bottom_margin c)
                         (empty_char c) (screen c)
                  else screen c)"
proof -
  have w: "0 < cols c" using wf by (simp add: fb_wf_def geom_wf_def)
  have y: "sz_add (cursor_y c) (Suc 0) = y" by (simp add: y_def)
  define c1 where "c1 = (if y = scroll_bottom_margin c
    then c\<lparr>cursor_x := 0, cursor_y := y - 1\<rparr> else c\<lparr>cursor_x := 0, cursor_y := y\<rparr>)"
  have wf1: "fb_wf c1" "cframe c c1" "screen c1 = screen c"
    using wf by (auto simp: c1_def)
  have "\<exists>c2. (if y = scroll_bottom_margin c then flanterm_fb_scroll c1 else Some c1) = Some c2 \<and>
     fb_wf c2 \<and> qframe c1 c2 \<and>
     screen c2 = (if y = scroll_bottom_margin c
                  then scroll_rows (cols c) (scroll_top_margin c) (scroll_bottom_margin c)
                         (empty_char c) (screen c) else screen c)"
  proof (cases "y = scroll_bottom_margin c")
    case True
    then have "empty_char c1 = empty_char c" by (simp add: c1_def empty_char_def)
    with True flanterm_fb_scroll_ok [OF wf1(1)] m show ?thesis
      by (simp add: cframe_geom [OF wf1(2)] wf1(3) margins_wf_def)
  next
    case False
    with wf1 show ?thesis by auto
  qed
  then obtain c2 where c2: "(if y = scroll_bottom_margin c then flanterm_fb_scroll c1 else Some c1)
      = Some c2" "fb_wf c2" "qframe c1 c2"
    "screen c2 = (if y = scroll_bottom_margin c
                  then scroll_rows (cols c) (scroll_top_margin c) (scroll_bottom_margin c)
                         (empty_char c) (screen c) else screen c)" by blast
  have pos: "0 < scroll_bottom_margin c" using m by (simp add: margins_wf_def)
  have "wrap_line c = Some (if cols c2 \<le> cursor_y c2
      then c2\<lparr>cursor_y := sz_sub (cols c2) 1\<rparr> else c2)"
  proof (cases "y = scroll_bottom_margin c")
    case True
    then show ?thesis using c2(1) pos by (simp add: wrap_line_def c1_def sz_simps y)
  next
    case False
    then have "c2 = c\<lparr>cursor_x := 0, cursor_y := y\<rparr>" using c2(1) by (simp add: c1_def)
    with False show ?thesis by (simp add: wrap_line_def y)
  qed
  moreover have "cframe c c2"
    using wf1(2) cframe_qframe [OF c2(3)] by (rule cframe_trans)
  moreover have "cols c2 = cols c" "cursor_x c2 = 0"
    "cursor_y c2 = (if y = scroll_bottom_margin c then y - 1 else y)"
    using qframe_geom [OF c2(3)] by (simp_all add: c1_def)
  ultimately show ?thesis
    using c2(2,4) w by (simp add: sz_simps Let_def)
qed

lemma flanterm_fb_raw_putchar_ok:
  assumes wf: "fb_wf c" and m: "margins_wf c"
  shows "\<exists>c'. flanterm_fb_raw_putchar c b = Some c' \<and> fb_wf c' \<and> cframe c c'"
proof -
  have "\<exists>c1. (if cols c \<le> cursor_x c \<and>
               (cursor_y c < sz_sub (scroll_bottom_margin c) 1 \<or> scroll_enabled c)
            then wrap_line c else Some c) = Some c1 \<and> fb_wf c1 \<and> cframe c c1"
    using wrap_line_ok [OF wf m] wf by (auto simp: Let_def)
  then obtain c1 where c1: "(if cols c \<le> cursor_x c \<and>
               (cursor_y c < sz_sub (scroll_bottom_margin c) 1 \<or> scroll_enabled c)
            then wrap_line c else Some c) = Some c1" "fb_wf c1" "cframe c c1" by blast
  then show ?thesis
    using put_and_advance [OF c1(2), of "sz_add (cursor_x c1) 1"
        "\<lparr>char_c = ucast b, char_fg = text_fg c1, char_bg = text_bg c1\<rparr>"]
    by (auto simp: flanterm_fb_raw_putchar_def Let_def intro: cframe_trans)
qed

section \<open>Properties\<close>

lemma sample_ctx_wf:
  assumes "0 < w" "0 < h" "h * w < 2 ^ 31"
  shows "fb_wf (sample_ctx h w)" "margins_wf (sample_ctx h w)"
  using assms by (simp_all add: fb_wf_def geom_wf_def queue_wf_def margins_wf_def)

lemma sample_ctx_screen [simp]:
  "screen (sample_ctx h w) = replicate (h * w) \<lparr>char_c = 0x20, char_fg = 0xaaaaaa, char_bg = 0xffffffff\<rparr>"
  by (rule nth_equalityI) (simp_all add: cell_at_def)

text \<open>
  C18: queueing a character is an update of the logical screen: \<open>push_to_queue\<close> never leaves
  the queue, map or grid arrays, keeps the queue invariant (no overflow, each pending cell
  queued once), changes nothing but the queue, and the screen afterwards is the old one with
  that one cell replaced (or the old one, off the screen).
\<close>

theorem push_refines_screen:
  assumes "fb_wf c"
  shows "\<exists>c'. push_to_queue c ch x y = Some c' \<and> fb_wf c' \<and> forget_queue c' = forget_queue c \<and>
     screen c' = (if x < cols c \<and> y < rows c then (screen c)[y * cols c + x := ch] else screen c)"
  using push_to_queue_ok [OF assms, of ch x y] by (simp add: qframe_def)

theorem push_refines_screen_witness:
  "\<exists>c'. push_to_queue (sample_ctx 2 2) \<lparr>char_c = 65, char_fg = 0, char_bg = 0\<rparr> 1 1 = Some c' \<and>
     screen c' ! 3 = \<lparr>char_c = 65, char_fg = 0, char_bg = 0\<rparr>"
  using push_refines_screen [OF sample_ctx_wf(1) [of 2 2],
      of "\<lparr>char_c = 65, char_fg = 0, char_bg = 0\<rparr>" 1 1]
  by force

text \<open>
  C19: \<open>scroll\<close> moves the rows of the scroll region up by one, blanks the last row of the
  region with the current colours and leaves the rows outside the region alone.
\<close>

theorem scroll_refines:
  assumes "fb_wf c" "margins_wf c"
  shows "\<exists>c'. flanterm_fb_scroll c = Some c' \<and> fb_wf c' \<and> forget_queue c' = forget_queue c \<and>
     screen c' = take (scroll_top_margin c * cols c) (screen c)
       @ take ((scroll_bottom_margin c - Suc (scroll_top_margin c)) * cols c)
           (drop (Suc (scroll_top_margin c) * cols c) (screen c))
       @ replicate (cols c) (empty_char c)
       @ drop (scroll_bottom_margin c * cols c) (screen c)"
  using flanterm_fb_scroll_ok [of c] assms
  by (simp add: qframe_def margins_wf_def scroll_rows_def)

theorem scroll_refines_witness:
  "\<exists>c'. flanterm_fb_scroll (sample_ctx 2 2) = Some c' \<and> fb_wf c'"
  using scroll_refines [OF sample_ctx_wf, of 2 2] by auto

text \<open>
  \<open>revscroll\<close> moves the rows of the scroll region down by one and blanks its first row.
  It also works for the temporary top margin of the insert-line sequence, which may lie at or
  below the bottom margin: then only that row is blanked.
\<close>

theorem revscroll_refines:
  assumes "fb_wf c" "scroll_top_margin c < rows c"
    "0 < scroll_bottom_margin c" "scroll_bottom_margin c \<le> rows c"
  shows "\<exists>c'. flanterm_fb_revscroll c = Some c' \<and> fb_wf c' \<and> forget_queue c' = forget_queue c \<and>
     screen c' = take (scroll_top_margin c * cols c) (screen c)
       @ replicate (cols c) (empty_char c)
       @ take ((scroll_bottom_margin c - Suc (scroll_top_margin c)) * cols c)
           (drop (scroll_top_margin c * cols c) (screen c))
       @ drop (max (Suc (scroll_top_margin c)) (scroll_bottom_margin c) * cols c) (screen c)"
  using flanterm_fb_revscroll_ok [OF assms] by (simp add: qframe_def revscroll_rows_def)

theorem revscroll_refines_witness:
  "\<exists>c'. flanterm_fb_revscroll (sample_ctx 2 2) = Some c' \<and> fb_wf c'"
  using revscroll_refines [OF sample_ctx_wf(1), of 2 2] by auto

lemma raw_putchar_no_wrap:
  assumes wf: "fb_wf c" and x: "cursor_x c < cols c" and y: "cursor_y c < rows c"
  shows "\<exists>c'. flanterm_fb_raw_putchar c b = Some c' \<and> fb_wf c' \<and> cframe c c' \<and>
     screen c' = (screen c)[cursor_y c * cols c + cursor_x c := glyph_cell c b] \<and>
     cursor_x c' = Suc (cursor_x c) \<and> cursor_y c' = cursor_y c"
proof -
  have "cols c < 2 ^ 31" using wf geom_dims(4) [of c] by (simp add: fb_wf_def)
  then have "sz_add (cursor_x c) (Suc 0) = Suc (cursor_x c)"
    using x by (simp add: sz_simps SZ_def)
  then show ?thesis
    using put_and_advance [OF wf, of "sz_add (cursor_x c) 1" "glyph_cell c b"] x y
    by (auto simp: flanterm_fb_raw_putchar_def glyph_cell_def)
qed

text \<open>
  Inside a line \<open>raw_putchar\<close> writes the character with the current colours at the cursor
  and moves the cursor one column to the right; no other cell changes.
\<close>

theorem raw_putchar_in_line:
  assumes "fb_wf c" "cursor_x c < cols c" "cursor_y c < rows c"
  shows "\<exists>c'. flanterm_fb_raw_putchar c b = Some c' \<and> fb_wf c' \<and>
     screen c' = (screen c)[cursor_y c * cols c + cursor_x c :=
                    \<lparr>char_c = ucast b, char_fg = text_fg c, char_bg = text_bg c\<rparr>] \<and>
     cursor_x c' = Suc (cursor_x c) \<and> cursor_y c' = cursor_y c"
  using raw_putchar_no_wrap [OF assms, of b] by (auto simp: glyph_cell_def)

theorem raw_putchar_in_line_witness:
  "\<exists>c'. flanterm_fb_raw_putchar (sample_ctx 2 2) 65 = Some c' \<and> cursor_x c' = 1 \<and>
     screen c' ! 0 = \<lparr>char_c = 65, char_fg = 0xaaaaaa, char_bg = 0xffffffff\<rparr>"
  using raw_putchar_in_line [OF sample_ctx_wf(1) [of 2 2], of 65] by force

lemma raw_putchar_wrap:
  assumes wf: "fb_wf c" and m: "margins_wf c" and x: "cols c \<le> cursor_x c"
    and y: "cursor_y c < scroll_bottom_margin c"
    and sc: "cursor_y c < sz_sub (scroll_bottom_margin c) 1 \<or> scroll_enabled c"
  shows "\<exists>c' y'. flanterm_fb_raw_putchar c b = Some c' \<and>
     y' = (let r = if Suc (cursor_y c) = scroll_bottom_margin c then cursor_y c
                   else Suc (cursor_y c)
           in if cols c \<le> r then cols c - 1 else r) \<and>
     screen c' = (if Suc (cursor_y c) = scroll_bottom_margin c
        then scroll_rows (cols c) (scroll_top_margin c) (scroll_bottom_margin c)
               (empty_char c) (screen c)
        else screen c)[y' * cols c := glyph_cell c b] \<and>
     fb_wf c' \<and> cursor_x c' = 1 \<and> cursor_y c' = y'"
proof -
  have g: "geom_wf c" using wf by (simp add: fb_wf_def)
  have r: "rows c < 2 ^ 31" "0 < cols c" "Suc (cursor_y c) \<le> rows c"
    using geom_dims [OF g] y m by (simp_all add: margins_wf_def)
  then have s: "sz_add (cursor_y c) 1 = Suc (cursor_y c)" by (simp add: sz_simps SZ_def)
  obtain c1 where c1: "wrap_line c = Some c1" "fb_wf c1" "cframe c c1" "cursor_x c1 = 0"
    "cursor_y c1 = (let y' = if Suc (cursor_y c) = scroll_bottom_margin c then cursor_y c
                             else Suc (cursor_y c)
                    in if cols c \<le> y' then cols c - 1 else y')"
    "screen c1 = (if Suc (cursor_y c) = scroll_bottom_margin c
                  then scroll_rows (cols c) (scroll_top_margin c) (scroll_bottom_margin c)
                         (empty_char c) (screen c)
                  else screen c)"
    using wrap_line_ok [OF wf m] unfolding s diff_Suc_1 by blast
  have yb: "cursor_y c1 < rows c1"
    using c1(5) y m r by (auto simp: cframe_geom [OF c1(3)] Let_def margins_wf_def)
  have "cols c1 = cols c" by (rule cframe_geom [OF c1(3)])
  then have "cursor_x c1 < cols c1" using c1(4) r by simp
  from raw_putchar_no_wrap [OF c1(2) this yb, of b] this
  have "\<exists>c'. flanterm_fb_raw_putchar c1 b = Some c' \<and> fb_wf c' \<and>
     screen c' = (screen c1)[cursor_y c1 * cols c := glyph_cell c1 b] \<and>
     cursor_x c' = 1 \<and> cursor_y c' = cursor_y c1"
    using c1(4) \<open>cols c1 = cols c\<close> by auto
  moreover have "flanterm_fb_raw_putchar c b = flanterm_fb_raw_putchar c1 b"
    using x sc c1(1) \<open>cursor_x c1 < cols c1\<close> by (simp add: flanterm_fb_raw_putchar_def)
  moreover have "glyph_cell c1 b = glyph_cell c b"
    by (simp add: glyph_cell_def cframe_geom [OF c1(3)])
  ultimately show ?thesis using c1(5,6) by auto
qed

text \<open>
  Past the end of a line, on a terminal with no more rows than columns, \<open>raw_putchar\<close>
  continues in the first column of the next row, scrolling the region when the cursor is on
  its last row.
\<close>

theorem raw_putchar_wraps:
  assumes "fb_wf c" "margins_wf c" "cols c \<le> cursor_x c" "scroll_enabled c"
    and "cursor_y c < scroll_bottom_margin c" "rows c \<le> cols c"
  shows "\<exists>c'. flanterm_fb_raw_putchar c b = Some c' \<and> fb_wf c' \<and> cursor_x c' = 1 \<and>
     (if Suc (cursor_y c) = scroll_bottom_margin c
      then cursor_y c' = cursor_y c \<and>
           screen c' = (scroll_rows (cols c) (scroll_top_margin c) (scroll_bottom_margin c)
                          (empty_char c) (screen c))[cursor_y c * cols c := glyph_cell c b]
      else cursor_y c' = Suc (cursor_y c) \<and>
           screen c' = (screen c)[Suc (cursor_y c) * cols c := glyph_cell c b])"
proof -
  have "scroll_bottom_margin c \<le> rows c" using assms(2) by (simp add: margins_wf_def)
  then have "\<not> cols c \<le> cursor_y c"
    "Suc (cursor_y c) \<noteq> scroll_bottom_margin c \<Longrightarrow> \<not> cols c \<le> Suc (cursor_y c)"
    using assms(5,6) by linarith+
  then show ?thesis
    using raw_putchar_wrap [OF assms(1,2,3,5) disjI2 [OF assms(4)], of b] by (auto simp: Let_def)
qed

theorem raw_putchar_wraps_witness:
  "\<exists>c'. flanterm_fb_raw_putchar ((sample_ctx 2 2)\<lparr>cursor_x := 2\<rparr>) 65 = Some c' \<and> cursor_x c' = 1"
  using raw_putchar_wraps [of "(sample_ctx 2 2)\<lparr>cursor_x := 2\<rparr>" 65] sample_ctx_wf [of 2 2]
  by (force simp: margins_wf_def)

text \<open>
  On a terminal with more rows than columns the line wrap goes wrong: the correction after
  the wrap compares \<open>cursor_y\<close> with \<open>cols\<close>, so below row \<open>cols\<close> the text continues
  in row \<open>cols - 1\<close>, overwriting it, instead of the next row.
\<close>

theorem raw_putchar_wrong_row:
  assumes "fb_wf c" "margins_wf c" "cols c \<le> cursor_x c" "scroll_enabled c"
    and "Suc (cursor_y c) < scroll_bottom_margin c" "cols c \<le> Suc (cursor_y c)"
  shows "\<exists>c'. flanterm_fb_raw_putchar c b = Some c' \<and> cursor_y c' = cols c - 1 \<and>
     screen c' = (screen c)[(cols c - 1) * cols c := glyph_cell c b]"
  using raw_putchar_wrap [OF assms(1,2,3) _ disjI2 [OF assms(4)], of b] assms(5,6) by (auto simp: Let_def)

theorem raw_putchar_wrong_row_witness:
  "\<exists>c'. flanterm_fb_raw_putchar ((sample_ctx 5 2)\<lparr>cursor_x := 2, cursor_y := 3\<rparr>) 65 = Some c' \<and>
     cursor_y c' = 1"
  using raw_putchar_wrong_row [of "(sample_ctx 5 2)\<lparr>cursor_x := 2, cursor_y := 3\<rparr>" 65]
    sample_ctx_wf [of 2 5]
  by (force simp: margins_wf_def)

end
