(* ===== verification/FB_Draw.thy ===== *)
theory FB_Draw
  imports FB_Scroll
begin

text \<open>
  Drawing: the part of \<open>kernel/flanterm/backends/fb.c\<close> that brings the queued characters to
  the frame buffer. \<open>plot_char\<close> draws a glyph pixel by pixel, \<open>plot_char_fast\<close> only the
  pixels in which two glyphs differ, and \<open>flanterm_fb_double_buffer_flush\<close> empties the
  queue. The lemmas show that every access stays inside the frame buffer, the canvas and the
  font, that the fast routine computes what the slow one computes, and that after a flush the
  pixels of the frame buffer are those of the logical screen.
\<close>

section \<open>Operations\<close>

text \<open>The colour of a pixel: \<open>0xffffffff\<close> stands for the canvas.\<close>

definition pick_colour :: "ctx \<Rightarrow> u32 \<Rightarrow> nat \<Rightarrow> u32 option" where
  "pick_colour ctx v i = (if v = 0xffffffff then aget (canvas ctx) i else Some v)"

definition glyph_base :: "ctx \<Rightarrow> flanterm_fb_char \<Rightarrow> nat" where
  "glyph_base ctx ch = sz_mul (sz_mul (unat (char_c ch)) (font_height ctx)) (font_width ctx)"

text \<open>The innermost loop of both routines: the \<open>font_scale_x\<close> pixels of one font column.\<close>

definition plot_column ::
    "ctx \<Rightarrow> flanterm_fb_char \<Rightarrow> bool \<Rightarrow> nat \<Rightarrow> nat \<Rightarrow> nat \<Rightarrow> ctx \<Rightarrow> ctx option" where
  "plot_column ctx ch draw fb_line canvas_line fx s =
     ofold (\<lambda>i s. do {
         let gx = sz_add (sz_mul (font_scale_x ctx) fx) i;
         bg \<leftarrow> pick_colour ctx (char_bg ch) (sz_add canvas_line gx);
         fg \<leftarrow> pick_colour ctx (char_fg ch) (sz_add canvas_line gx);
         f \<leftarrow> aset (framebuffer s) (sz_add fb_line gx) (if draw then fg else bg);
         Some (s\<lparr>framebuffer := f\<rparr>)
       }) [0..<font_scale_x ctx] s"

definition plot_char :: "ctx \<Rightarrow> flanterm_fb_char \<Rightarrow> nat \<Rightarrow> nat \<Rightarrow> ctx option" where
  "plot_char ctx ch x y =
     (if cols ctx \<le> x \<or> rows ctx \<le> y then Some ctx
      else do {
        let x = sz_add (offset_x ctx) (sz_mul x (glyph_width ctx));
        let y = sz_add (offset_y ctx) (sz_mul y (glyph_height ctx));
        let glyph = glyph_base ctx ch;
        ofold (\<lambda>gy s. do {
            let fy = (gy div font_scale_y ctx) mod 256;
            let fb_line = sz_add x (sz_mul (sz_add y gy) (fb_pitch ctx div 4));
            let canvas_line = sz_add x (sz_mul (sz_add y gy) (fb_width ctx));
            ofold (\<lambda>fx s. do {
                draw \<leftarrow> aget (font_bool ctx)
                  (sz_add glyph (sz_add (sz_mul fy (font_width ctx)) fx));
                plot_column ctx ch draw fb_line canvas_line fx s
              }) [0..<font_width ctx] s
          }) [0..<glyph_height ctx] ctx
      })"

definition plot_char_fast ::
    "ctx \<Rightarrow> flanterm_fb_char \<Rightarrow> flanterm_fb_char \<Rightarrow> nat \<Rightarrow> nat \<Rightarrow> ctx option" where
  "plot_char_fast ctx old ch x y =
     (if cols ctx \<le> x \<or> rows ctx \<le> y then Some ctx
      else do {
        let x = sz_add (offset_x ctx) (sz_mul x (glyph_width ctx));
        let y = sz_add (offset_y ctx) (sz_mul y (glyph_height ctx));
        let new_glyph = glyph_base ctx ch;
        let old_glyph = glyph_base ctx old;
        ofold (\<lambda>gy s. do {
            let fy = (gy div font_scale_y ctx) mod 256;
            let fb_line = sz_add x (sz_mul (sz_add y gy) (fb_pitch ctx div 4));
            let canvas_line = sz_add x (sz_mul (sz_add y gy) (fb_width ctx));
            ofold (\<lambda>fx s. do {
                old_draw \<leftarrow> aget (font_bool ctx)
                  (sz_add old_glyph (sz_add (sz_mul fy (font_width ctx)) fx));
                new_draw \<leftarrow> aget (font_bool ctx)
                  (sz_add new_glyph (sz_add (sz_mul fy (font_width ctx)) fx));
                if old_draw = new_draw then Some s
                else plot_column ctx ch new_draw fb_line canvas_line fx s
              }) [0..<font_width ctx] s
          }) [0..<glyph_height ctx] ctx
      })"

definition draw_cursor :: "ctx \<Rightarrow> ctx option" where
  "draw_cursor ctx =
     (if cols ctx \<le> cursor_x ctx \<or> rows ctx \<le> cursor_y ctx then Some ctx
      else do {
        let i = sz_add (cursor_x ctx) (sz_mul (cursor_y ctx) (cols ctx));
        c \<leftarrow> cell_ptr ctx i;
        let inv = c\<lparr>char_fg := char_bg c, char_bg := char_fg c\<rparr>;
        s \<leftarrow> plot_char ctx inv (cursor_x ctx) (cursor_y ctx);
        q \<leftarrow> aget (fb_map s) i;
        case q of
          None \<Rightarrow> Some s
        | Some k \<Rightarrow> do {
            item \<leftarrow> aget (queue s) k;
            g \<leftarrow> aset (grid s) i (q_c item);
            m \<leftarrow> aset (fb_map s) i None;
            Some (s\<lparr>grid := g, fb_map := m\<rparr>)
          }
      })"

definition flush_item :: "nat \<Rightarrow> ctx \<Rightarrow> ctx option" where
  "flush_item k s = do {
     q \<leftarrow> aget (queue s) k;
     let i = sz_add (sz_mul (q_y q) (cols s)) (q_x q);
     m \<leftarrow> aget (fb_map s) i;
     if m = None then Some s
     else do {
       old \<leftarrow> aget (grid s) i;
       s \<leftarrow> (if char_bg (q_c q) = char_bg old \<and> char_fg (q_c q) = char_fg old
            then plot_char_fast s old (q_c q) (q_x q) (q_y q)
            else plot_char s (q_c q) (q_x q) (q_y q));
       g \<leftarrow> aset (grid s) i (q_c q);
       m \<leftarrow> aset (fb_map s) i None;
       Some (s\<lparr>grid := g, fb_map := m\<rparr>)
     }
   }"

definition replot_old_cursor :: "ctx \<Rightarrow> ctx option" where
  "replot_old_cursor ctx =
     (if (old_cursor_x ctx \<noteq> cursor_x ctx \<or> old_cursor_y ctx \<noteq> cursor_y ctx)
         \<or> \<not> cursor_enabled ctx
      then if old_cursor_x ctx < cols ctx \<and> old_cursor_y ctx < rows ctx
        then do {
          g \<leftarrow> aget (grid ctx)
            (sz_add (old_cursor_x ctx) (sz_mul (old_cursor_y ctx) (cols ctx)));
          plot_char ctx g (old_cursor_x ctx) (old_cursor_y ctx)
        }
        else Some ctx
      else Some ctx)"

definition flanterm_fb_double_buffer_flush :: "ctx \<Rightarrow> ctx option" where
  "flanterm_fb_double_buffer_flush ctx = do {
     ctx \<leftarrow> (if cursor_enabled ctx then draw_cursor ctx else Some ctx);
     ctx \<leftarrow> ofold flush_item [0..<queue_i ctx] ctx;
     ctx \<leftarrow> replot_old_cursor ctx;
     Some (ctx\<lparr>old_cursor_x := cursor_x ctx, old_cursor_y := cursor_y ctx, queue_i := 0\<rparr>)
   }"

definition flanterm_fb_full_refresh :: "ctx \<Rightarrow> ctx option" where
  "flanterm_fb_full_refresh ctx = do {
     ctx \<leftarrow> ofold (\<lambda>y s. ofold (\<lambda>x s. do {
           v \<leftarrow> aget (canvas s) (sz_add (sz_mul y (fb_width ctx)) x);
           f \<leftarrow> aset (framebuffer s) (sz_add (sz_mul y (fb_pitch ctx div 4)) x) v;
           Some (s\<lparr>framebuffer := f\<rparr>)
         }) [0..<fb_width ctx] s) [0..<fb_height ctx] ctx;
     ctx \<leftarrow> ofold (\<lambda>i s. do {
           g \<leftarrow> aget (grid s) i;
           plot_char s g (i mod cols ctx) (i div cols ctx)
         }) [0..<sz_mul (rows ctx) (cols ctx)] ctx;
     (if cursor_enabled ctx then draw_cursor ctx else Some ctx)
   }"

section \<open>Geometry\<close>

text \<open>
  What \<open>flanterm_fb_init\<close> establishes: the glyphs of all cells lie inside the frame buffer,
  the canvas has one entry per pixel, and the font has 256 glyphs.
\<close>

definition draw_wf :: "ctx \<Rightarrow> bool" where
  "draw_wf c \<longleftrightarrow> 0 < font_scale_x c \<and> 0 < font_scale_y c \<and> 0 < font_width c \<and>
     font_height c \<le> 256 \<and>
     glyph_width c = font_width c * font_scale_x c \<and>
     glyph_height c = font_height c * font_scale_y c \<and>
     offset_x c + cols c * glyph_width c \<le> fb_width c \<and>
     offset_y c + rows c * glyph_height c \<le> fb_height c \<and>
     fb_width c \<le> fb_pitch c div 4 \<and>
     length (framebuffer c) = fb_height c * (fb_pitch c div 4) \<and>
     fb_height c * (fb_pitch c div 4) < 2 ^ 62 \<and>
     length (canvas c) = fb_width c * fb_height c \<and>
     length (font_bool c) = 256 * font_height c * font_width c \<and>
     256 * font_height c * font_width c < 2 ^ 62"

definition fb_index :: "ctx \<Rightarrow> nat \<Rightarrow> nat \<Rightarrow> nat \<Rightarrow> nat \<Rightarrow> nat" where
  "fb_index c x y gx gy = (offset_x c + x * glyph_width c + gx)
     + (offset_y c + y * glyph_height c + gy) * (fb_pitch c div 4)"

definition canvas_index :: "ctx \<Rightarrow> nat \<Rightarrow> nat \<Rightarrow> nat \<Rightarrow> nat \<Rightarrow> nat" where
  "canvas_index c x y gx gy = (offset_x c + x * glyph_width c + gx)
     + (offset_y c + y * glyph_height c + gy) * fb_width c"

definition glyph_bit :: "ctx \<Rightarrow> flanterm_fb_char \<Rightarrow> nat \<Rightarrow> nat \<Rightarrow> bool" where
  "glyph_bit c ch fx fy =
     font_bool c ! (unat (char_c ch) * font_height c * font_width c + fy * font_width c + fx)"

definition cell_pixel :: "ctx \<Rightarrow> flanterm_fb_char \<Rightarrow> nat \<Rightarrow> nat \<Rightarrow> nat \<Rightarrow> nat \<Rightarrow> u32" where
  "cell_pixel c ch x y gx gy =
     (let v = (if glyph_bit c ch (gx div font_scale_x c) (gy div font_scale_y c)
               then char_fg ch else char_bg ch)
      in if v = 0xffffffff then canvas c ! canvas_index c x y gx gy else v)"

text \<open>The frame buffer shows \<open>ch\<close> in cell \<open>(x, y)\<close>.\<close>

definition displays :: "ctx \<Rightarrow> flanterm_fb_char \<Rightarrow> nat \<Rightarrow> nat \<Rightarrow> bool" where
  "displays c ch x y \<longleftrightarrow> (\<forall>gx < glyph_width c. \<forall>gy < glyph_height c.
     framebuffer c ! fb_index c x y gx gy = cell_pixel c ch x y gx gy)"

definition glyph_ok :: "flanterm_fb_char \<Rightarrow> bool" where
  "glyph_ok ch \<longleftrightarrow> unat (char_c ch) < 256"

section \<open>Sequences of pixel writes\<close>

definition upds :: "(nat \<times> 'a) list \<Rightarrow> 'a list \<Rightarrow> 'a list" where
  "upds ps F = fold (\<lambda>(i, v) F. F[i := v]) ps F"

lemma upds_Nil [simp]: "upds [] F = F"
  and upds_Cons [simp]: "upds ((i, v) # ps) F = upds ps (F[i := v])"
  and upds_append: "upds (ps @ qs) F = upds qs (upds ps F)"
  by (simp_all add: upds_def)

lemma length_upds [simp]: "length (upds ps F) = length F"
  by (induction ps arbitrary: F) auto

lemma upds_other: "j \<notin> fst ` set ps \<Longrightarrow> upds ps F ! j = F ! j"
  by (induction ps arbitrary: F) auto

lemma upds_mem:
  assumes "j < length F" "(j, v) \<in> set ps" "\<And>v'. (j, v') \<in> set ps \<Longrightarrow> v' = v"
  shows "upds ps F ! j = v"
  using assms
proof (induction ps arbitrary: F)
  case (Cons p ps)
  obtain i w where p: "p = (i, w)" by (cases p)
  show ?case
  proof (cases "(j, v) \<in> set ps")
    case True
    then have "upds ps (F[i := w]) ! j = v" using Cons.prems by (intro Cons.IH) simp_all
    then show ?thesis by (simp add: p)
  next
    case False
    then have "j \<notin> fst ` set ps" using Cons.prems(3) by force
    moreover have "i = j" "w = v" using False Cons.prems(2) by (simp_all add: p)
    ultimately show ?thesis using Cons.prems(1) by (simp add: p upds_other)
  qed
qed simp

lemma ofold_writes:
  assumes "\<And>i F. i \<in> set is \<Longrightarrow> length F = length (framebuffer c) \<Longrightarrow>
     body i (c\<lparr>framebuffer := F\<rparr>) = Some (c\<lparr>framebuffer := upds (P i) F\<rparr>)"
    and "length F = length (framebuffer (c :: ctx))"
  shows "ofold body is (c\<lparr>framebuffer := F\<rparr>)
         = Some (c\<lparr>framebuffer := upds (concat (map P is)) F\<rparr>)"
  using assms by (induction "is" arbitrary: F) (auto simp: upds_append)

section \<open>Every pixel access is inside its array\<close>

lemma draw_wfD:
  assumes "draw_wf c"
  shows "0 < font_scale_x c" "0 < font_scale_y c" "0 < font_width c" "font_height c \<le> 256"
    "glyph_width c = font_width c * font_scale_x c"
    "glyph_height c = font_height c * font_scale_y c"
    "offset_x c + cols c * glyph_width c \<le> fb_width c"
    "offset_y c + rows c * glyph_height c \<le> fb_height c"
    "fb_width c \<le> fb_pitch c div 4"
    "length (framebuffer c) = fb_height c * (fb_pitch c div 4)"
    "fb_height c * (fb_pitch c div 4) < 2 ^ 62"
    "length (canvas c) = fb_width c * fb_height c"
    "length (font_bool c) = 256 * font_height c * font_width c"
    "256 * font_height c * font_width c < 2 ^ 62"
  using assms unfolding draw_wf_def by blast+

lemma grid_pos_less: "(k :: nat) < n \<Longrightarrow> g < w \<Longrightarrow> k * w + g < n * w"
proof -
  assume "k < n" "g < w"
  then have "k * w + g < Suc k * w" by simp
  also have "\<dots> \<le> n * w" using \<open>k < n\<close> by (intro mult_le_mono1) simp
  finally show ?thesis .
qed

lemma cell_bounds:
  assumes "draw_wf c"
  shows "x < cols c \<Longrightarrow> gx < glyph_width c \<Longrightarrow> offset_x c + x * glyph_width c + gx < fb_width c"
    and "y < rows c \<Longrightarrow> gy < glyph_height c \<Longrightarrow> offset_y c + y * glyph_height c + gy < fb_height c"
proof -
  note le = draw_wfD(7,8) [OF assms]
  show "x < cols c \<Longrightarrow> gx < glyph_width c \<Longrightarrow> offset_x c + x * glyph_width c + gx < fb_width c"
    using grid_pos_less [of x "cols c" gx "glyph_width c"] le by linarith
  show "y < rows c \<Longrightarrow> gy < glyph_height c \<Longrightarrow> offset_y c + y * glyph_height c + gy < fb_height c"
    using grid_pos_less [of y "rows c" gy "glyph_height c"] le by linarith
qed

lemma pixel_bounds:
  assumes wf: "draw_wf c" and cell: "x < cols c" "y < rows c"
    and g: "gx < glyph_width c" "gy < glyph_height c"
  shows "fb_index c x y gx gy < length (framebuffer c)"
    and "canvas_index c x y gx gy < length (canvas c)"
    and "length (framebuffer c) < 2 ^ 62" "length (canvas c) < 2 ^ 62"
proof -
  let ?X = "offset_x c + x * glyph_width c + gx" and ?Y = "offset_y c + y * glyph_height c + gy"
  let ?P = "fb_pitch c div 4"
  have b: "?X < fb_width c" "?Y < fb_height c" "fb_width c \<le> ?P"
    using cell_bounds [OF wf] cell g draw_wfD(9) [OF wf] by simp_all
  have len: "length (framebuffer c) = fb_height c * ?P"
    "length (canvas c) = fb_height c * fb_width c" "fb_height c * ?P < 2 ^ 62"
    using draw_wfD(10-12) [OF wf] by (simp_all add: mult.commute)
  show "fb_index c x y gx gy < length (framebuffer c)"
    using grid_pos_less [OF b(2), of ?X ?P] b len by (simp add: fb_index_def add.commute)
  show "canvas_index c x y gx gy < length (canvas c)"
    using grid_pos_less [OF b(2,1)] len by (simp add: canvas_index_def add.commute)
  show "length (framebuffer c) < 2 ^ 62" using len by simp
  have "fb_height c * fb_width c \<le> fb_height c * ?P" using b(3) by (rule mult_le_mono2)
  then show "length (canvas c) < 2 ^ 62" using len(3) unfolding len(2) by (rule le_less_trans)
qed

definition pixel_colour :: "ctx \<Rightarrow> u32 \<Rightarrow> nat \<Rightarrow> u32" where
  "pixel_colour c v i = (if v = 0xffffffff then canvas c ! i else v)"

lemma pick_colour_in: "i < length (canvas c) \<Longrightarrow> pick_colour c v i = Some (pixel_colour c v i)"
  by (simp add: pick_colour_def pixel_colour_def)

text \<open>The writes of one font column, one row of pixels, one glyph.\<close>

definition column_writes ::
    "ctx \<Rightarrow> flanterm_fb_char \<Rightarrow> bool \<Rightarrow> nat \<Rightarrow> nat \<Rightarrow> nat \<Rightarrow> nat \<Rightarrow> (nat \<times> u32) list" where
  "column_writes c ch draw x y gy fx = map (\<lambda>i. let gx = font_scale_x c * fx + i in
     (fb_index c x y gx gy,
      pixel_colour c (if draw then char_fg ch else char_bg ch) (canvas_index c x y gx gy)))
     [0..<font_scale_x c]"

lemma column_gx:
  "draw_wf c \<Longrightarrow> fx < font_width c \<Longrightarrow> i < font_scale_x c \<Longrightarrow>
   font_scale_x c * fx + i < glyph_width c"
  using grid_pos_less [of fx "font_width c" i "font_scale_x c"]
  by (simp add: draw_wf_def mult.commute)

lemma line_sz:
  assumes wf: "draw_wf c" and cell: "x < cols c" "y < rows c"
    and g: "gx < glyph_width c" "gy < glyph_height c"
  shows "sz_add (sz_add (sz_add (offset_x c) (sz_mul x (glyph_width c)))
           (sz_mul (sz_add (sz_add (offset_y c) (sz_mul y (glyph_height c))) gy)
              (fb_pitch c div 4))) gx = fb_index c x y gx gy"
    and "sz_add (sz_add (sz_add (offset_x c) (sz_mul x (glyph_width c)))
           (sz_mul (sz_add (sz_add (offset_y c) (sz_mul y (glyph_height c))) gy)
              (fb_width c))) gx = canvas_index c x y gx gy"
proof -
  let ?P = "fb_pitch c div 4"
  note pb = pixel_bounds [OF assms]
  let ?Y = "offset_y c + y * glyph_height c + gy"
  have H: "?Y < fb_height c" by (rule cell_bounds(2) [OF wf cell(2) g(2)])
  have "0 < ?P" using cell_bounds(1) [OF wf cell(1) g(1)] draw_wfD(9) [OF wf] by linarith
  then have "fb_height c \<le> fb_height c * ?P" by simp
  then have Y: "?Y < 2 ^ 62" using H draw_wfD(11) [OF wf] by linarith
  have "fb_index c x y gx gy < 2 ^ 62" "canvas_index c x y gx gy < 2 ^ 62"
    using pb by simp_all
  then show "sz_add (sz_add (sz_add (offset_x c) (sz_mul x (glyph_width c)))
           (sz_mul (sz_add (sz_add (offset_y c) (sz_mul y (glyph_height c))) gy)
              ?P)) gx = fb_index c x y gx gy"
    and "sz_add (sz_add (sz_add (offset_x c) (sz_mul x (glyph_width c)))
           (sz_mul (sz_add (sz_add (offset_y c) (sz_mul y (glyph_height c))) gy)
              (fb_width c))) gx = canvas_index c x y gx gy"
    using Y by (simp_all add: fb_index_def canvas_index_def sz_simps SZ_def)
qed

lemma plot_column_writes:
  assumes wf: "draw_wf c" and cell: "x < cols c" "y < rows c"
    and fx: "fx < font_width c" and gy: "gy < glyph_height c"
    and F: "length F = length (framebuffer c)"
  defines "X \<equiv> sz_add (offset_x c) (sz_mul x (glyph_width c))"
    and "Y \<equiv> sz_add (offset_y c) (sz_mul y (glyph_height c))"
  shows "plot_column c ch draw (sz_add X (sz_mul (sz_add Y gy) (fb_pitch c div 4)))
           (sz_add X (sz_mul (sz_add Y gy) (fb_width c))) fx (c\<lparr>framebuffer := F\<rparr>)
         = Some (c\<lparr>framebuffer := upds (column_writes c ch draw x y gy fx) F\<rparr>)"
proof -
  let ?P = "\<lambda>i. [let gx = font_scale_x c * fx + i in (fb_index c x y gx gy,
      pixel_colour c (if draw then char_fg ch else char_bg ch) (canvas_index c x y gx gy))]"
  have "concat (map ?P [0..<font_scale_x c]) = column_writes c ch draw x y gy fx"
    by (simp add: column_writes_def concat_map_singleton)
  moreover have "plot_column c ch draw (sz_add X (sz_mul (sz_add Y gy) (fb_pitch c div 4)))
           (sz_add X (sz_mul (sz_add Y gy) (fb_width c))) fx (c\<lparr>framebuffer := F\<rparr>)
         = Some (c\<lparr>framebuffer := upds (concat (map ?P [0..<font_scale_x c])) F\<rparr>)"
    unfolding plot_column_def
  proof (rule ofold_writes [OF _ F])
    fix i and F' :: "u32 list"
    assume "i \<in> set [0..<font_scale_x c]" and F': "length F' = length (framebuffer c)"
    then have i: "i < font_scale_x c" by simp
    let ?gx = "font_scale_x c * fx + i"
    have g: "?gx < glyph_width c" by (rule column_gx [OF wf fx i])
    note pb = pixel_bounds [OF wf cell g gy]
    have "?gx < fb_width c" using cell_bounds(1) [OF wf cell(1) g] by linarith
    moreover have "fb_width c \<le> canvas_index c x y ?gx gy + fb_width c" by simp
    moreover have "?gx \<le> fb_index c x y ?gx gy" by (simp add: fb_index_def)
    ultimately have "?gx < 2 ^ 62" using pb(1,3) by linarith
    then have sz: "sz_add (sz_mul (font_scale_x c) fx) i = ?gx"
      by (simp add: sz_simps SZ_def)
    show "(let gx = sz_add (sz_mul (font_scale_x c) fx) i in do {
         bg \<leftarrow> pick_colour c (char_bg ch) (sz_add (sz_add X (sz_mul (sz_add Y gy) (fb_width c))) gx);
         fg \<leftarrow> pick_colour c (char_fg ch) (sz_add (sz_add X (sz_mul (sz_add Y gy) (fb_width c))) gx);
         f \<leftarrow> aset (framebuffer (c\<lparr>framebuffer := F'\<rparr>))
           (sz_add (sz_add X (sz_mul (sz_add Y gy) (fb_pitch c div 4))) gx) (if draw then fg else bg);
         Some (c\<lparr>framebuffer := F'\<rparr>\<lparr>framebuffer := f\<rparr>)
       }) = Some (c\<lparr>framebuffer := upds (?P i) F'\<rparr>)"
      unfolding sz Let_def X_def Y_def line_sz [OF wf cell g gy]
      using pb F' by (simp add: pick_colour_in pixel_colour_def)
  qed
  ultimately show ?thesis by simp
qed

section \<open>The pixels of one glyph\<close>

definition row_writes ::
    "ctx \<Rightarrow> flanterm_fb_char \<Rightarrow> (nat \<Rightarrow> nat \<Rightarrow> bool) \<Rightarrow> nat \<Rightarrow> nat \<Rightarrow> nat \<Rightarrow> (nat \<times> u32) list" where
  "row_writes c ch sel x y gy = concat (map (\<lambda>fx.
     if sel fx (gy div font_scale_y c)
     then column_writes c ch (glyph_bit c ch fx (gy div font_scale_y c)) x y gy fx else [])
     [0..<font_width c])"

definition glyph_writes ::
    "ctx \<Rightarrow> flanterm_fb_char \<Rightarrow> (nat \<Rightarrow> nat \<Rightarrow> bool) \<Rightarrow> nat \<Rightarrow> nat \<Rightarrow> (nat \<times> u32) list" where
  "glyph_writes c ch sel x y = concat (map (row_writes c ch sel x y) [0..<glyph_height c])"

lemma font_row:
  assumes "draw_wf c" "gy < glyph_height c"
  shows "gy div font_scale_y c < font_height c" "gy div font_scale_y c mod 256 = gy div font_scale_y c"
proof -
  show *: "gy div font_scale_y c < font_height c"
    using assms draw_wfD(2,6) [OF assms(1)] by (simp add: less_mult_imp_div_less)
  show "gy div font_scale_y c mod 256 = gy div font_scale_y c"
    using * draw_wfD(4) [OF assms(1)] by simp
qed

lemma font_access:
  assumes wf: "draw_wf c" and ch: "glyph_ok ch" and fx: "fx < font_width c"
    and fy: "fy < font_height c"
  shows "aget (font_bool c) (sz_add (glyph_base c ch) (sz_add (sz_mul fy (font_width c)) fx))
         = Some (glyph_bit c ch fx fy)"
proof -
  let ?u = "unat (char_c ch)" and ?h = "font_height c" and ?w = "font_width c"
  have 1: "fy * ?w + fx < ?h * ?w" by (rule grid_pos_less [OF fy fx])
  have 2: "?u * (?h * ?w) + (fy * ?w + fx) < 256 * (?h * ?w)"
    by (rule grid_pos_less [OF _ 1]) (use ch in \<open>simp add: glyph_ok_def\<close>)
  have L: "256 * ?h * ?w = length (font_bool c)" "256 * ?h * ?w < 2 ^ 62"
    using draw_wfD(13,14) [OF wf] by simp_all
  from 2 have 2: "?u * ?h * ?w + (fy * ?w + fx) < 256 * ?h * ?w" by (simp only: mult.assoc)
  have "?u * ?h \<le> ?u * ?h * ?w" using draw_wfD(3) [OF wf] by simp
  then have 3: "?u * ?h < 2 ^ 62" using 2 L(2) by linarith
  have 4: "?u * ?h * ?w < 2 ^ 62" "fy * ?w + fx < 2 ^ 62" "fy * ?w < 2 ^ 62"
    "?u * ?h * ?w + (fy * ?w + fx) < 2 ^ 62"
    using 2 L(2) by linarith+
  have "sz_add (glyph_base c ch) (sz_add (sz_mul fy ?w) fx) = ?u * ?h * ?w + (fy * ?w + fx)"
    using 3 4 unfolding glyph_base_def by (simp add: sz_simps SZ_def)
  moreover have "?u * ?h * ?w + (fy * ?w + fx) < length (font_bool c)"
    using 2 L(1) by simp
  ultimately show ?thesis by (simp add: glyph_bit_def add.assoc)
qed

lemma framebuffer_self: "c\<lparr>framebuffer := framebuffer c\<rparr> = (c :: ctx)"
  by simp

lemma plot_char_writes:
  assumes wf: "draw_wf c" and ch: "glyph_ok ch" and x: "x < cols c" and y: "y < rows c"
  shows "plot_char c ch x y
         = Some (c\<lparr>framebuffer := upds (glyph_writes c ch (\<lambda>_ _. True) x y) (framebuffer c)\<rparr>)"
proof -
  let ?X = "sz_add (offset_x c) (sz_mul x (glyph_width c))"
  let ?Y = "sz_add (offset_y c) (sz_mul y (glyph_height c))"
  have "plot_char c ch x y = ofold (\<lambda>gy s. ofold (\<lambda>fx s. do {
                draw \<leftarrow> aget (font_bool c) (sz_add (glyph_base c ch)
                  (sz_add (sz_mul ((gy div font_scale_y c) mod 256) (font_width c)) fx));
                plot_column c ch draw (sz_add ?X (sz_mul (sz_add ?Y gy) (fb_pitch c div 4)))
                  (sz_add ?X (sz_mul (sz_add ?Y gy) (fb_width c))) fx s
              }) [0..<font_width c] s) [0..<glyph_height c] (c\<lparr>framebuffer := framebuffer c\<rparr>)"
    using x y unfolding framebuffer_self by (simp add: plot_char_def Let_def)
  also have "\<dots> = Some (c\<lparr>framebuffer := upds (glyph_writes c ch (\<lambda>_ _. True) x y) (framebuffer c)\<rparr>)"
    unfolding glyph_writes_def
  proof (rule ofold_writes [OF _ refl], unfold row_writes_def, rule ofold_writes)
    fix gy fx and F :: "u32 list"
    assume gy: "gy \<in> set [0..<glyph_height c]" and fx: "fx \<in> set [0..<font_width c]"
      and F: "length F = length (framebuffer c)"
    then show "(do {
                draw \<leftarrow> aget (font_bool c) (sz_add (glyph_base c ch)
                  (sz_add (sz_mul ((gy div font_scale_y c) mod 256) (font_width c)) fx));
                plot_column c ch draw (sz_add ?X (sz_mul (sz_add ?Y gy) (fb_pitch c div 4)))
                  (sz_add ?X (sz_mul (sz_add ?Y gy) (fb_width c))) fx (c\<lparr>framebuffer := F\<rparr>)
              }) = Some (c\<lparr>framebuffer := upds (if True then column_writes c ch
                  (glyph_bit c ch fx (gy div font_scale_y c)) x y gy fx else []) F\<rparr>)"
      using font_row [OF wf] font_access [OF wf ch] plot_column_writes [OF wf x y _ _ F] by simp
  qed
  finally show ?thesis .
qed

lemma plot_char_fast_writes:
  assumes wf: "draw_wf c" and ch: "glyph_ok ch" "glyph_ok old" and x: "x < cols c" and y: "y < rows c"
  shows "plot_char_fast c old ch x y = Some (c\<lparr>framebuffer :=
           upds (glyph_writes c ch (\<lambda>fx fy. glyph_bit c old fx fy \<noteq> glyph_bit c ch fx fy) x y)
             (framebuffer c)\<rparr>)"
proof -
  let ?X = "sz_add (offset_x c) (sz_mul x (glyph_width c))"
  let ?Y = "sz_add (offset_y c) (sz_mul y (glyph_height c))"
  let ?body = "\<lambda>gy fx s. do {
                old_draw \<leftarrow> aget (font_bool c) (sz_add (glyph_base c old)
                  (sz_add (sz_mul ((gy div font_scale_y c) mod 256) (font_width c)) fx));
                new_draw \<leftarrow> aget (font_bool c) (sz_add (glyph_base c ch)
                  (sz_add (sz_mul ((gy div font_scale_y c) mod 256) (font_width c)) fx));
                if old_draw = new_draw then Some s else
                plot_column c ch new_draw (sz_add ?X (sz_mul (sz_add ?Y gy) (fb_pitch c div 4)))
                  (sz_add ?X (sz_mul (sz_add ?Y gy) (fb_width c))) fx s
              }"
  have "plot_char_fast c old ch x y = ofold (\<lambda>gy s. ofold (?body gy) [0..<font_width c] s)
          [0..<glyph_height c] (c\<lparr>framebuffer := framebuffer c\<rparr>)"
    using x y unfolding framebuffer_self by (simp add: plot_char_fast_def Let_def)
  also have "\<dots> = Some (c\<lparr>framebuffer :=
           upds (glyph_writes c ch (\<lambda>fx fy. glyph_bit c old fx fy \<noteq> glyph_bit c ch fx fy) x y)
             (framebuffer c)\<rparr>)"
    unfolding glyph_writes_def
  proof (rule ofold_writes [OF _ refl], unfold row_writes_def, rule ofold_writes)
    fix gy fx and F :: "u32 list"
    assume gy: "gy \<in> set [0..<glyph_height c]" and fx: "fx \<in> set [0..<font_width c]"
      and F: "length F = length (framebuffer c)"
    let ?fy = "gy div font_scale_y c"
    from gy fx show "?body gy fx (c\<lparr>framebuffer := F\<rparr>)
        = Some (c\<lparr>framebuffer := upds (if glyph_bit c old fx ?fy \<noteq> glyph_bit c ch fx ?fy
             then column_writes c ch (glyph_bit c ch fx ?fy) x y gy fx else []) F\<rparr>)"
      using font_row [OF wf] font_access [OF wf ch(1)] font_access [OF wf ch(2)]
        plot_column_writes [OF wf x y _ _ F] by simp
  qed
  finally show ?thesis .
qed

lemma set_glyph_writes:
  assumes wf: "draw_wf c"
  shows "(j, v) \<in> set (glyph_writes c ch sel x y) \<longleftrightarrow>
    (\<exists>gx < glyph_width c. \<exists>gy < glyph_height c. sel (gx div font_scale_x c) (gy div font_scale_y c) \<and>
       j = fb_index c x y gx gy \<and> v = cell_pixel c ch x y gx gy)"
    (is "?L \<longleftrightarrow> ?R")
proof
  let ?fx = "font_scale_x c"
  have pix: "pixel_colour c (if b then char_fg ch else char_bg ch) (canvas_index c x y (?fx * fx + i) gy)
      = cell_pixel c ch x y (?fx * fx + i) gy"
    if "i < ?fx" "b = glyph_bit c ch fx (gy div font_scale_y c)" for b fx i gy
    using that by (simp add: cell_pixel_def pixel_colour_def Let_def)
  {
    assume ?L
    then obtain gy fx i where "gy < glyph_height c" "fx < font_width c" "i < ?fx"
      "sel fx (gy div font_scale_y c)" "j = fb_index c x y (?fx * fx + i) gy"
      "v = cell_pixel c ch x y (?fx * fx + i) gy"
      by (auto simp: glyph_writes_def row_writes_def column_writes_def Let_def pix split: if_splits)
    then show ?R
      using column_gx [OF wf]
      by (intro exI [of _ "?fx * fx + i"] conjI exI [of _ gy]) simp_all
  }
  assume ?R
  then obtain gx gy where g: "gx < glyph_width c" "gy < glyph_height c"
    "sel (gx div ?fx) (gy div font_scale_y c)" "j = fb_index c x y gx gy"
    "v = cell_pixel c ch x y gx gy" by blast
  have "gx div ?fx < font_width c" "gx mod ?fx < ?fx"
    using g(1) draw_wfD(1,5) [OF wf] by (simp_all add: less_mult_imp_div_less)
  moreover have "?fx * (gx div ?fx) + gx mod ?fx = gx" by simp
  ultimately have "(j, v) \<in> set (column_writes c ch
      (glyph_bit c ch (gx div ?fx) (gy div font_scale_y c)) x y gy (gx div ?fx))"
    using g pix [of "gx mod ?fx" _ "gx div ?fx" gy]
    by (auto simp: column_writes_def Let_def intro!: image_eqI [of _ _ "gx mod ?fx"])
  with g(3) \<open>gx div ?fx < font_width c\<close> have "(j, v) \<in> set (row_writes c ch sel x y gy)"
    by (auto simp: row_writes_def intro!: bexI [of _ "gx div ?fx"])
  with g(2) show ?L by (auto simp: glyph_writes_def)
qed

lemma fb_index_inj:
  assumes wf: "draw_wf c" and "x < cols c" "x' < cols c"
    and "gx < glyph_width c" "gx' < glyph_width c" "gy < glyph_height c" "gy' < glyph_height c"
    and eq: "fb_index c x y gx gy = fb_index c x' y' gx' gy'"
  shows "x = x' \<and> y = y' \<and> gx = gx' \<and> gy = gy'"
proof -
  have "offset_x c + x * glyph_width c + gx < fb_pitch c div 4"
    "offset_x c + x' * glyph_width c + gx' < fb_pitch c div 4"
    using cell_bounds(1) [OF wf] draw_wfD(9) [OF wf] assms(2-5) by (meson less_le_trans)+
  from cell_index_inj [OF this, of "offset_y c + y * glyph_height c + gy"
      "offset_y c + y' * glyph_height c + gy'"]
  have "x * glyph_width c + gx = x' * glyph_width c + gx'"
    "y * glyph_height c + gy = y' * glyph_height c + gy'"
    using eq by (simp_all add: fb_index_def add.commute)
  from cell_index_inj [OF assms(4,5) this(1)] cell_index_inj [OF assms(6,7) this(2)]
  show ?thesis by simp
qed

lemma upds_glyph:
  assumes wf: "draw_wf c" and "x < cols c" "y < rows c" "x' < cols c" "y' < rows c"
    and g: "gx < glyph_width c" "gy < glyph_height c"
  shows "upds (glyph_writes c ch sel x y) (framebuffer c) ! fb_index c x' y' gx gy
    = (if x' = x \<and> y' = y \<and> sel (gx div font_scale_x c) (gy div font_scale_y c)
       then cell_pixel c ch x y gx gy else framebuffer c ! fb_index c x' y' gx gy)"
proof (cases "x' = x \<and> y' = y \<and> sel (gx div font_scale_x c) (gy div font_scale_y c)")
  case True
  have "upds (glyph_writes c ch sel x y) (framebuffer c) ! fb_index c x y gx gy
      = cell_pixel c ch x y gx gy"
  proof (rule upds_mem)
    show "fb_index c x y gx gy < length (framebuffer c)"
      using pixel_bounds(1) [OF wf] assms by blast
    show "(fb_index c x y gx gy, cell_pixel c ch x y gx gy) \<in> set (glyph_writes c ch sel x y)"
      using True g by (auto simp: set_glyph_writes [OF wf])
    show "v' = cell_pixel c ch x y gx gy"
      if "(fb_index c x y gx gy, v') \<in> set (glyph_writes c ch sel x y)" for v'
      using that fb_index_inj [OF wf assms(2,2) g(1) _ g(2)] by (auto simp: set_glyph_writes [OF wf])
  qed
  then show ?thesis using True by simp
next
  case False
  have "fb_index c x' y' gx gy \<notin> fst ` set (glyph_writes c ch sel x y)"
  proof
    assume "fb_index c x' y' gx gy \<in> fst ` set (glyph_writes c ch sel x y)"
    then obtain gx' gy' where *: "gx' < glyph_width c" "gy' < glyph_height c"
      "sel (gx' div font_scale_x c) (gy' div font_scale_y c)"
      "fb_index c x' y' gx gy = fb_index c x y gx' gy'"
      by (auto simp: set_glyph_writes [OF wf])
    with fb_index_inj [OF wf assms(4,2) g(1) *(1) g(2) *(2,4)] False show False by simp
  qed
  then show ?thesis unfolding if_not_P [OF False] by (rule upds_other)
qed

lemma cell_pixel_upd [simp]:
  "fb_index (c\<lparr>framebuffer := F\<rparr>) = fb_index c"
  "cell_pixel (c\<lparr>framebuffer := F\<rparr>) = cell_pixel c"
  "glyph_bit (c\<lparr>framebuffer := F\<rparr>) = glyph_bit c"
  by (simp_all add: fun_eq_iff fb_index_def cell_pixel_def glyph_bit_def canvas_index_def Let_def)

lemma displays_other_cell:
  assumes wf: "draw_wf c" and x: "x < cols c" and y: "y < rows c"
    and x': "x' < cols c" and y': "y' < rows c" and ne: "x' \<noteq> x \<or> y' \<noteq> y"
  shows "displays (c\<lparr>framebuffer := upds (glyph_writes c ch sel x y) (framebuffer c)\<rparr>) ch' x' y'
         \<longleftrightarrow> displays c ch' x' y'"
proof -
  have no: "\<not> (x' = x \<and> y' = y \<and> b)" for b using ne by blast
  have "upds (glyph_writes c ch sel x y) (framebuffer c) ! fb_index c x' y' gx gy
      = framebuffer c ! fb_index c x' y' gx gy"
    if "gx < glyph_width c" "gy < glyph_height c" for gx gy
    using upds_glyph [OF wf x y x' y' that, of ch sel] unfolding if_not_P [OF no] .
  then show ?thesis by (auto simp: displays_def)
qed

lemma plot_char_fast_same:
  assumes wf: "draw_wf c" and ch: "glyph_ok ch" "glyph_ok old" and x: "x < cols c" and y: "y < rows c"
    and eq: "char_fg ch = char_fg old" "char_bg ch = char_bg old"
    and shown: "displays c old x y"
  shows "plot_char_fast c old ch x y = plot_char c ch x y"
proof -
  let ?all = "glyph_writes c ch (\<lambda>_ _. True) x y"
  let ?sel = "\<lambda>fx fy. glyph_bit c old fx fy \<noteq> glyph_bit c ch fx fy"
  have "upds (glyph_writes c ch ?sel x y) (framebuffer c) ! j = upds ?all (framebuffer c) ! j" for j
  proof (cases "\<exists>gx < glyph_width c. \<exists>gy < glyph_height c. j = fb_index c x y gx gy")
    case False
    then have "j \<notin> fst ` set ?all" "j \<notin> fst ` set (glyph_writes c ch ?sel x y)"
      by (auto simp: set_glyph_writes [OF wf]) (blast+)
    then show ?thesis by (simp add: upds_other)
  next
    case True
    then obtain gx gy where g: "gx < glyph_width c" "gy < glyph_height c"
      and j: "j = fb_index c x y gx gy" by blast
    have "framebuffer c ! j = cell_pixel c old x y gx gy"
      using shown g by (simp add: displays_def j)
    then show ?thesis
      using upds_glyph [OF wf x y x y g, of ch] eq by (simp add: j cell_pixel_def)
  qed
  then have "upds (glyph_writes c ch ?sel x y) (framebuffer c) = upds ?all (framebuffer c)"
    by (intro nth_equalityI) simp_all
  then show ?thesis
    by (simp add: plot_char_writes [OF wf ch(1) x y] plot_char_fast_writes [OF wf ch x y])
qed

text \<open>Both routines write a cell and leave the others alone; \<open>plot_char\<close> always leaves it displayed.\<close>

lemma plot_char_ok:
  assumes wf: "draw_wf c" and ch: "glyph_ok ch" and x: "x < cols c" and y: "y < rows c"
  shows "\<exists>F. plot_char c ch x y = Some (c\<lparr>framebuffer := F\<rparr>) \<and> length F = length (framebuffer c) \<and>
    displays (c\<lparr>framebuffer := F\<rparr>) ch x y \<and>
    (\<forall>x' < cols c. \<forall>y' < rows c. x' \<noteq> x \<or> y' \<noteq> y \<longrightarrow>
       (\<forall>ch'. displays (c\<lparr>framebuffer := F\<rparr>) ch' x' y' = displays c ch' x' y'))"
proof -
  let ?F = "upds (glyph_writes c ch (\<lambda>_ _. True) x y) (framebuffer c)"
  have "displays (c\<lparr>framebuffer := ?F\<rparr>) ch x y"
    using upds_glyph [OF wf x y x y] by (simp add: displays_def)
  then show ?thesis
    using plot_char_writes [OF wf ch x y] displays_other_cell [OF wf x y] by auto
qed

lemma plot_char_fast_ok:
  assumes wf: "draw_wf c" and ch: "glyph_ok ch" "glyph_ok old" and x: "x < cols c" and y: "y < rows c"
    and eq: "char_fg ch = char_fg old" "char_bg ch = char_bg old"
  shows "\<exists>F. plot_char_fast c old ch x y = Some (c\<lparr>framebuffer := F\<rparr>) \<and>
    length F = length (framebuffer c) \<and>
    (displays c old x y \<longrightarrow> displays (c\<lparr>framebuffer := F\<rparr>) ch x y) \<and>
    (\<forall>x' < cols c. \<forall>y' < rows c. x' \<noteq> x \<or> y' \<noteq> y \<longrightarrow>
       (\<forall>ch'. displays (c\<lparr>framebuffer := F\<rparr>) ch' x' y' = displays c ch' x' y'))"
proof -
  let ?sel = "\<lambda>fx fy. glyph_bit c old fx fy \<noteq> glyph_bit c ch fx fy"
  let ?F = "upds (glyph_writes c ch ?sel x y) (framebuffer c)"
  have "displays (c\<lparr>framebuffer := ?F\<rparr>) ch x y" if "displays c old x y"
    using upds_glyph [OF wf x y x y] that eq by (simp add: displays_def cell_pixel_def)
  then show ?thesis
    using plot_char_fast_writes [OF wf ch x y] displays_other_cell [OF wf x y] by auto
qed

section \<open>Settling a cell\<close>

text \<open>
  \<open>grid[i] = q->c; map[i] = NULL\<close>, which both \<open>draw_cursor\<close> and the flush loop do: the
  character of the cell moves from the queue to the grid, and the screen stays as it is.
  While the queue is emptied an item may already be settled: \<open>pending_wf\<close> is the weaker
  form of \<open>queue_wf\<close> that holds then.
\<close>

definition settle :: "ctx \<Rightarrow> nat \<Rightarrow> ctx" where
  "settle c i = c\<lparr>grid := (grid c)[i := cell_at c i], fb_map := (fb_map c)[i := None]\<rparr>"

definition pending_wf :: "ctx \<Rightarrow> bool" where
  "pending_wf c \<longleftrightarrow> geom_wf c \<and> queue_i c \<le> rows c * cols c \<and>
     (\<forall>k < queue_i c. q_x (queue c ! k) < cols c \<and> q_y (queue c ! k) < rows c \<and>
        (fb_map c ! q_off c k = None \<or> fb_map c ! q_off c k = Some k)) \<and>
     (\<forall>i < rows c * cols c. \<forall>k. fb_map c ! i = Some k \<longrightarrow> k < queue_i c \<and> q_off c k = i)"

lemma pending_wf_queue: "fb_wf c \<Longrightarrow> pending_wf c"
  by (auto simp: fb_wf_def queue_wf_def pending_wf_def)

lemma pending_wf_cell:
  "pending_wf c \<Longrightarrow> i < rows c * cols c \<Longrightarrow> cell_ptr c i = Some (cell_at c i)"
  by (auto simp: pending_wf_def geom_wf_def cell_ptr_def cell_at_def split: option.split)

definition glyphs_ok :: "ctx \<Rightarrow> bool" where
  "glyphs_ok c \<longleftrightarrow> (\<forall>i < rows c * cols c. glyph_ok (grid c ! i)) \<and>
     (\<forall>k < queue_i c. glyph_ok (q_c (queue c ! k)))"

lemma glyphs_ok_cell: "pending_wf c \<Longrightarrow> glyphs_ok c \<Longrightarrow> i < rows c * cols c \<Longrightarrow> glyph_ok (cell_at c i)"
  by (auto simp: cell_at_def glyphs_ok_def pending_wf_def split: option.split)

lemma settle_sel [simp]:
  "rows (settle c i) = rows c" "cols (settle c i) = cols c" "queue (settle c i) = queue c"
  "queue_i (settle c i) = queue_i c" "cursor_x (settle c i) = cursor_x c"
  "cursor_y (settle c i) = cursor_y c" "old_cursor_x (settle c i) = old_cursor_x c"
  "old_cursor_y (settle c i) = old_cursor_y c" "cursor_enabled (settle c i) = cursor_enabled c"
  "framebuffer (settle c i) = framebuffer c" "fb_map (settle c i) = (fb_map c)[i := None]"
  "grid (settle c i) = (grid c)[i := cell_at c i]" "q_off (settle c i) = q_off c"
  by (simp_all add: settle_def q_off_def fun_eq_iff)

lemma settle_draw [simp]: "draw_wf (settle c i) = draw_wf c" "displays (settle c i) = displays c"
  "fb_index (settle c i) = fb_index c" "cell_pixel (settle c i) = cell_pixel c"
  by (simp_all add: draw_wf_def settle_def displays_def fb_index_def cell_pixel_def glyph_bit_def
      canvas_index_def fun_eq_iff Let_def)

lemma settle_cell:
  assumes "pending_wf c" "i < rows c * cols c" "j < rows c * cols c"
  shows "cell_at (settle c i) j = cell_at c j"
proof (cases "i = j")
  case True
  then show ?thesis using assms unfolding cell_at_def [of "settle c i"]
    by (simp add: pending_wf_def geom_wf_def)
next
  case False
  then show ?thesis using assms by (simp add: cell_at_def cong: option.case_cong)
qed

lemma settle_ok:
  assumes wf: "pending_wf c" and i: "i < rows c * cols c"
  shows "pending_wf (settle c i)" "screen (settle c i) = screen c"
    "glyphs_ok c \<Longrightarrow> glyphs_ok (settle c i)"
proof -
  show "screen (settle c i) = screen c"
    using settle_cell [OF wf i] by (intro nth_equalityI) simp_all
  show "pending_wf (settle c i)"
    using wf i by (auto simp: pending_wf_def geom_wf_def nth_list_update)
  show "glyphs_ok c \<Longrightarrow> glyphs_ok (settle c i)"
    using glyphs_ok_cell [OF wf _ i] wf i unfolding glyphs_ok_def
    by (auto simp: pending_wf_def geom_wf_def nth_list_update)
qed

lemma settle_None: "i < length (fb_map c) \<Longrightarrow> fb_map c ! i = None \<Longrightarrow> settle c i = c"
  by (simp add: settle_def cell_at_def list_update_same_conv)

lemma framebuffer_upd [simp]:
  "cell_at (c\<lparr>framebuffer := F\<rparr>) = cell_at c" "screen (c\<lparr>framebuffer := F\<rparr>) = screen c"
  "pending_wf (c\<lparr>framebuffer := F\<rparr>) = pending_wf c" "glyphs_ok (c\<lparr>framebuffer := F\<rparr>) = glyphs_ok c"
  by (simp_all add: cell_at_def screen_def fun_eq_iff pending_wf_def geom_wf_def q_off_def
      glyphs_ok_def cong: option.case_cong)

lemma draw_wf_upd [simp]:
  "length F = length (framebuffer c) \<Longrightarrow> draw_wf (c\<lparr>framebuffer := F\<rparr>) = draw_wf c"
  by (simp add: draw_wf_def)

section \<open>Flushing\<close>

text \<open>All cells but the one that may show the cursor display their entry of the grid.\<close>

definition shown_except :: "ctx \<Rightarrow> (nat \<times> nat) set \<Rightarrow> bool" where
  "shown_except c X \<longleftrightarrow> (\<forall>x < cols c. \<forall>y < rows c. (x, y) \<notin> X \<longrightarrow>
     displays c (grid c ! (y * cols c + x)) x y)"

definition draw_ok :: "ctx \<Rightarrow> bool" where
  "draw_ok c \<longleftrightarrow> draw_wf c \<and> pending_wf c \<and> glyphs_ok c"

definition invert :: "flanterm_fb_char \<Rightarrow> flanterm_fb_char" where
  "invert ch = ch\<lparr>char_fg := char_bg ch, char_bg := char_fg ch\<rparr>"

lemma glyph_ok_invert [simp]: "glyph_ok (invert ch) = glyph_ok ch"
  by (simp add: glyph_ok_def invert_def)

text \<open>What a flush may change.\<close>

definition forget_draw :: "ctx \<Rightarrow> ctx" where
  "forget_draw c = c\<lparr>framebuffer := replicate (length (framebuffer c)) 0, grid := [], queue := [],
     queue_i := 0, fb_map := [], old_cursor_x := 0, old_cursor_y := 0\<rparr>"

definition dframe :: "ctx \<Rightarrow> ctx \<Rightarrow> bool" where
  "dframe c c' \<longleftrightarrow> forget_draw c' = forget_draw c"

lemma dframe_refl [simp]: "dframe c c"
  by (simp add: dframe_def)

lemma dframe_trans [trans]: "dframe c c' \<Longrightarrow> dframe c' c'' \<Longrightarrow> dframe c c''"
  by (simp add: dframe_def)

lemma dframe_settle [simp]: "dframe c (settle c i)"
  by (simp add: dframe_def forget_draw_def settle_def)

lemma dframe_framebuffer [simp]: "length F = length (framebuffer c) \<Longrightarrow> dframe c (c\<lparr>framebuffer := F\<rparr>)"
  by (simp add: dframe_def forget_draw_def)

lemma dframe_sel:
  assumes "dframe c c'" and "\<And>d. f (forget_draw d) = f d"
  shows "f c' = f c"
  using assms unfolding dframe_def by metis

lemma dframe_geom:
  assumes "dframe c c'"
  shows "rows c' = rows c" "cols c' = cols c" "cursor_x c' = cursor_x c" "cursor_y c' = cursor_y c"
    "cursor_enabled c' = cursor_enabled c"
  by (rule dframe_sel [OF assms], simp add: forget_draw_def)+

lemma draw_ok_settle: "draw_ok c \<Longrightarrow> i < rows c * cols c \<Longrightarrow> draw_ok (settle c i)"
  by (simp add: draw_ok_def settle_ok)

lemma draw_ok_framebuffer [simp]:
  "length F = length (framebuffer c) \<Longrightarrow> draw_ok (c\<lparr>framebuffer := F\<rparr>) = draw_ok c"
  by (simp add: draw_ok_def)

text \<open>Painting one cell \<open>(x, y)\<close> and settling it.\<close>

lemma paint_settle:
  assumes ok: "draw_ok c" and x: "x < cols c" and y: "y < rows c"
    and others: "\<forall>x' < cols c. \<forall>y' < rows c. x' \<noteq> x \<or> y' \<noteq> y \<longrightarrow>
       (\<forall>ch'. displays (c\<lparr>framebuffer := F\<rparr>) ch' x' y' = displays c ch' x' y')"
    and shown: "shown_except c X" and len: "length F = length (framebuffer c)"
    and i: "i = y * cols c + x"
  shows "draw_ok (settle (c\<lparr>framebuffer := F\<rparr>) i)"
    "screen (settle (c\<lparr>framebuffer := F\<rparr>) i) = screen c"
    "dframe c (settle (c\<lparr>framebuffer := F\<rparr>) i)"
    "shown_except (settle (c\<lparr>framebuffer := F\<rparr>) i) (insert (x, y) X)"
    "displays (c\<lparr>framebuffer := F\<rparr>) (cell_at c i) x y \<Longrightarrow>
       shown_except (settle (c\<lparr>framebuffer := F\<rparr>) i) (X - {(x, y)})"
proof -
  let ?c = "c\<lparr>framebuffer := F\<rparr>"
  have i_less: "i < rows c * cols c" using x y by (simp add: i cell_index)
  then have p: "pending_wf ?c" "i < rows ?c * cols ?c" using ok by (simp_all add: draw_ok_def)
  show "draw_ok (settle ?c i)" using ok len i_less by (intro draw_ok_settle) simp_all
  show "screen (settle ?c i) = screen c" using settle_ok(2) [OF p] by simp
  show "dframe c (settle ?c i)" using dframe_trans [OF dframe_framebuffer [OF len] dframe_settle] .
  have gl: "length (grid c) = rows c * cols c" using p(1) by (simp add: pending_wf_def geom_wf_def)
  have same: "grid (settle ?c i) ! (y' * cols c + x') = grid c ! (y' * cols c + x')"
    if "x' < cols c" "y' < rows c" "x' \<noteq> x \<or> y' \<noteq> y" for x' y'
  proof -
    have "i \<noteq> y' * cols c + x'"
      using cell_index_inj [OF x that(1), of y y'] that(3) unfolding i by blast
    then show ?thesis by simp
  qed
  show "shown_except (settle ?c i) (insert (x, y) X)"
    using shown others same unfolding shown_except_def by simp
  show "shown_except (settle ?c i) (X - {(x, y)})" if d: "displays ?c (cell_at c i) x y"
    unfolding shown_except_def
  proof (intro allI impI)
    fix x' y'
    assume a: "x' < cols (settle ?c i)" "y' < rows (settle ?c i)" "(x', y') \<notin> X - {(x, y)}"
    show "displays (settle ?c i) (grid (settle ?c i) ! (y' * cols (settle ?c i) + x')) x' y'"
    proof (cases "x' = x \<and> y' = y")
      case True
      then show ?thesis using d gl i_less by (simp add: i)
    next
      case False
      then show ?thesis using a others shown same unfolding shown_except_def by simp
    qed
  qed
qed

lemma shown_except_mono: "shown_except c X \<Longrightarrow> X \<subseteq> Y \<Longrightarrow> shown_except c Y"
  by (auto simp: shown_except_def)

lemma draw_ok_sz: "draw_ok c \<Longrightarrow> x < cols c \<Longrightarrow> y < rows c \<Longrightarrow>
    sz_add (sz_mul y (cols c)) x = y * cols c + x"
  by (simp add: draw_ok_def pending_wf_def cell_index_sz)

lemma sz_add_commute: "sz_add a b = sz_add b a"
  by (simp add: sz_add_def add.commute)

lemma draw_cursor_ok:
  assumes ok: "draw_ok c" and shown: "shown_except c X"
  defines "P \<equiv> (cursor_x c, cursor_y c)" and "i \<equiv> cursor_y c * cols c + cursor_x c"
  shows "\<exists>c'. draw_cursor c = Some c' \<and> draw_ok c' \<and> screen c' = screen c \<and> dframe c c' \<and>
    shown_except c' (insert P X) \<and> queue c' = queue c \<and> queue_i c' = queue_i c \<and>
    old_cursor_x c' = old_cursor_x c \<and> old_cursor_y c' = old_cursor_y c \<and>
    (cursor_x c < cols c \<longrightarrow> cursor_y c < rows c \<longrightarrow>
       displays c' (invert (screen c ! i)) (cursor_x c) (cursor_y c) \<and> fb_map c' ! i = None)"
proof (cases "cursor_x c < cols c \<and> cursor_y c < rows c")
  case False
  then show ?thesis
    using ok shown by (auto simp: draw_cursor_def intro: shown_except_mono)
next
  case True
  then have x: "cursor_x c < cols c" and y: "cursor_y c < rows c" by simp_all
  have i: "i < rows c * cols c" using x y by (simp add: i_def cell_index)
  have wf: "draw_wf c" "pending_wf c" "glyphs_ok c" using ok by (simp_all add: draw_ok_def)
  have len: "i < length (fb_map c)" "i < length (grid c)"
    "\<And>k. fb_map c ! i = Some k \<Longrightarrow> k < length (queue c)"
    using wf(2) i by (auto simp: pending_wf_def geom_wf_def)
  let ?ch = "cell_at c i"
  obtain F where F: "plot_char c (invert ?ch) (cursor_x c) (cursor_y c) = Some (c\<lparr>framebuffer := F\<rparr>)"
    and lF: "length F = length (framebuffer c)"
    and disp: "displays (c\<lparr>framebuffer := F\<rparr>) (invert ?ch) (cursor_x c) (cursor_y c)"
    and others: "\<forall>x' < cols c. \<forall>y' < rows c. x' \<noteq> cursor_x c \<or> y' \<noteq> cursor_y c \<longrightarrow>
       (\<forall>ch'. displays (c\<lparr>framebuffer := F\<rparr>) ch' x' y' = displays c ch' x' y')"
    using plot_char_ok [OF wf(1) _ x y, of "invert ?ch"] glyphs_ok_cell [OF wf(2,3) i] by auto
  let ?c = "settle (c\<lparr>framebuffer := F\<rparr>) i"
  note ps = paint_settle [OF ok x y others shown lF meta_eq_to_obj_eq [OF i_def]]
  have sz: "sz_add (cursor_x c) (sz_mul (cursor_y c) (cols c)) = i"
    using draw_ok_sz [OF ok x y] by (simp add: sz_add_commute i_def)
  have "draw_cursor c = Some ?c"
  proof (cases "fb_map c ! i")
    case None
    have id: "settle (c\<lparr>framebuffer := F\<rparr>) i = c\<lparr>framebuffer := F\<rparr>"
      by (rule settle_None) (use None len in simp_all)
    show ?thesis
      using None x y F len unfolding id
      by (simp add: draw_cursor_def sz pending_wf_cell [OF wf(2) i] invert_def [symmetric])
  next
    case (Some k)
    then show ?thesis
      using x y F len
      by (simp add: draw_cursor_def sz pending_wf_cell [OF wf(2) i] invert_def [symmetric] settle_def)
         (simp add: cell_at_def)
  qed
  moreover have "screen c ! i = ?ch" using i by simp
  ultimately show ?thesis using ps disp len by (simp add: P_def)
qed

definition later :: "nat \<Rightarrow> ctx \<Rightarrow> bool" where
  "later k c \<longleftrightarrow> (\<forall>i < rows c * cols c. \<forall>j. fb_map c ! i = Some j \<longrightarrow> k \<le> j)"

text \<open>A cell whose colours change is drawn as a whole.\<close>

definition recoloured :: "ctx \<Rightarrow> nat \<Rightarrow> bool" where
  "recoloured s i \<longleftrightarrow> char_bg (screen s ! i) \<noteq> char_bg (grid s ! i) \<or> char_fg (screen s ! i) \<noteq> char_fg (grid s ! i)"

text \<open> What one step of the loop keeps, and what it does to the cells that are settled already. \<close>

definition flush_step :: "ctx \<Rightarrow> ctx \<Rightarrow> bool" where
  "flush_step s s' \<longleftrightarrow> draw_ok s' \<and> screen s' = screen s \<and> dframe s s' \<and>
     queue s' = queue s \<and> queue_i s' = queue_i s \<and>
     old_cursor_x s' = old_cursor_x s \<and> old_cursor_y s' = old_cursor_y s \<and>
     (\<forall>x < cols s. \<forall>y < rows s. fb_map s ! (y * cols s + x) = None \<longrightarrow>
        fb_map s' ! (y * cols s + x) = None \<and> (\<forall>ch. displays s' ch x y = displays s ch x y))"

lemma flush_step_refl: "draw_ok s \<Longrightarrow> flush_step s s"
  by (simp add: flush_step_def)

lemma flush_step_trans:
  assumes "flush_step s s'" "flush_step s' s''"
  shows "flush_step s s''"
proof -
  have "rows s' = rows s" "cols s' = cols s"
    using assms(1) dframe_geom by (auto simp: flush_step_def)
  then show ?thesis using assms dframe_trans unfolding flush_step_def by auto
qed

lemma flush_item_ok:
  assumes ok: "draw_ok s" and k: "k < queue_i s" and later: "later k s"
    and shown: "shown_except s X"
  shows "\<exists>s'. flush_item k s = Some s' \<and> flush_step s s' \<and> later (Suc k) s' \<and> shown_except s' X \<and>
    (\<forall>i < rows s * cols s. fb_map s ! i \<noteq> Some k \<longrightarrow> fb_map s' ! i = fb_map s ! i \<and> grid s' ! i = grid s ! i) \<and>
    (\<forall>x < cols s. \<forall>y < rows s. fb_map s ! (y * cols s + x) = Some k \<longrightarrow> recoloured s (y * cols s + x) \<longrightarrow>
       fb_map s' ! (y * cols s + x) = None \<and> displays s' (screen s ! (y * cols s + x)) x y)"
proof -
  define x y i ch where "x = q_x (queue s ! k)" and "y = q_y (queue s ! k)" and "i = q_off s k"
    and "ch = q_c (queue s ! k)"
  have wf: "draw_wf s" "pending_wf s" "glyphs_ok s" using ok by (simp_all add: draw_ok_def)
  have x: "x < cols s" and y: "y < rows s" and m: "fb_map s ! i = None \<or> fb_map s ! i = Some k"
    using wf(2) k by (simp_all add: pending_wf_def x_def y_def i_def)
  have i_eq: "i = y * cols s + x" by (simp add: i_def q_off_def x_def y_def)
  have i: "i < rows s * cols s" using x y by (simp add: i_eq cell_index)
  have len: "length (fb_map s) = rows s * cols s" "length (grid s) = rows s * cols s"
    "k < length (queue s)" using wf(2) k by (auto simp: pending_wf_def geom_wf_def)
  have sz: "sz_add (sz_mul y (cols s)) x = i" using draw_ok_sz [OF ok x y] by (simp add: i_eq)
  have own: "j = i" if "j < rows s * cols s" "fb_map s ! j = Some k" for j
    using wf(2) that by (auto simp: pending_wf_def i_def)
  have last: "later (Suc k) s'" if "rows s' = rows s" "cols s' = cols s" "fb_map s' ! i = None"
    "\<And>j. j \<noteq> i \<Longrightarrow> fb_map s' ! j = fb_map s ! j" for s'
    unfolding later_def
  proof (intro allI impI)
    fix l j assume l: "l < rows s' * cols s'" and j: "fb_map s' ! l = Some j"
    then have "l \<noteq> i" using that(3) by auto
    then have j': "fb_map s ! l = Some j" using that(4) j by simp
    have l': "l < rows s * cols s" using l that(1,2) by simp
    have "j \<noteq> k" using wf(2) l' j' \<open>l \<noteq> i\<close> by (auto simp: pending_wf_def i_def)
    moreover have "k \<le> j" using later l' j' by (auto simp: later_def)
    ultimately show "Suc k \<le> j" by simp
  qed
  show ?thesis
  proof (cases "fb_map s ! i")
    case None
    then have "flush_item k s = Some s"
      using len i k by (simp add: flush_item_def Let_def sz x_def [symmetric] y_def [symmetric])
    moreover have "fb_map s ! (y' * cols s + x') \<noteq> Some k" if "x' < cols s" "y' < rows s" for x' y'
      using own [of "y' * cols s + x'"] None that by (auto simp: cell_index)
    ultimately show ?thesis using None ok shown last [of s] flush_step_refl by auto
  next
    case (Some k')
    then have Some: "fb_map s ! i = Some k" using m by simp
    have cell: "cell_at s i = ch" by (simp add: cell_at_def Some ch_def)
    let ?old = "grid s ! i"
    have gok: "glyph_ok ch" "glyph_ok ?old"
      using wf(3) k i by (simp_all add: glyphs_ok_def ch_def)
    let ?fast = "char_bg ch = char_bg ?old \<and> char_fg ch = char_fg ?old"
    let ?plot = "if ?fast then plot_char_fast s ?old ch x y else plot_char s ch x y"
    obtain F where F: "?plot = Some (s\<lparr>framebuffer := F\<rparr>)"
      and lF: "length F = length (framebuffer s)"
      and disp: "\<not> ?fast \<or> displays s ?old x y \<longrightarrow> displays (s\<lparr>framebuffer := F\<rparr>) ch x y"
      and others: "\<forall>x' < cols s. \<forall>y' < rows s. x' \<noteq> x \<or> y' \<noteq> y \<longrightarrow>
         (\<forall>ch'. displays (s\<lparr>framebuffer := F\<rparr>) ch' x' y' = displays s ch' x' y')"
      using plot_char_ok [OF wf(1) gok(1) x y] plot_char_fast_ok [OF wf(1) gok x y]
      by (cases ?fast) auto
    let ?s = "settle (s\<lparr>framebuffer := F\<rparr>) i"
    note ps = paint_settle [OF ok x y others shown lF i_eq]
    have "flush_item k s = Some ?s"
      using len i k Some F
      by (auto simp: flush_item_def Let_def sz x_def [symmetric] y_def [symmetric]
            ch_def [symmetric] settle_def cell split: if_splits)
    moreover have "flush_step s ?s"
      unfolding flush_step_def
    proof (intro conjI allI impI)
      fix x' y' c'
      assume xy: "x' < cols s" "y' < rows s" and none: "fb_map s ! (y' * cols s + x') = None"
      then have ne: "x' \<noteq> x \<or> y' \<noteq> y" using Some by (auto simp: i_eq)
      show "displays ?s c' x' y' = displays s c' x' y'" using others xy ne by simp
      have "i \<noteq> y' * cols s + x'" using none Some by auto
      then show "fb_map ?s ! (y' * cols s + x') = None" using none by simp
    qed (use ps in simp_all)
    moreover have "fb_map ?s ! j = fb_map s ! j \<and> grid ?s ! j = grid s ! j" if "fb_map s ! j \<noteq> Some k" for j
      using Some that by (cases "j = i") simp_all
    moreover have "later (Suc k) ?s" using len i by (intro last) simp_all
    moreover have "shown_except ?s X"
    proof (cases "(x, y) \<in> X")
      case True
      then show ?thesis using ps(4) by (simp add: insert_absorb)
    next
      case False
      then have "displays s ?old x y" using shown x y by (auto simp: shown_except_def i_eq)
      then have "displays (s\<lparr>framebuffer := F\<rparr>) (cell_at s i) x y" using disp cell by simp
      then show ?thesis using ps(5) False by simp
    qed
    moreover have "fb_map ?s ! (y' * cols s + x') = None \<and> displays ?s (screen s ! (y' * cols s + x')) x' y'"
      if "x' < cols s" "y' < rows s" "fb_map s ! (y' * cols s + x') = Some k" "recoloured s (y' * cols s + x')" for x' y'
    proof -
      have "y' * cols s + x' < rows s * cols s" using that(1,2) by (simp add: cell_index)
      then have "y' * cols s + x' = i" using that(3) by (rule own)
      moreover from this have "x' = x \<and> y' = y" using cell_index_inj [OF that(1) x, of y' y] by (simp add: i_eq)
      moreover have "screen s ! i = ch" using i cell by simp
      ultimately show ?thesis using disp that(4) len i by (auto simp: recoloured_def)
    qed
    ultimately show ?thesis by blast
  qed
qed

lemma flush_loop_ok:
  assumes "draw_ok s" "later k s" "shown_except s X" "k \<le> queue_i s"
  shows "\<exists>s'. ofold flush_item [k..<queue_i s] s = Some s' \<and> flush_step s s' \<and>
     later (queue_i s) s' \<and> shown_except s' X \<and>
     (\<forall>x < cols s. \<forall>y < rows s. fb_map s ! (y * cols s + x) \<noteq> None \<longrightarrow> recoloured s (y * cols s + x) \<longrightarrow>
        displays s' (screen s ! (y * cols s + x)) x y)"
  using assms
proof (induction "queue_i s - k" arbitrary: k s)
  case 0
  have "fb_map s ! (y * cols s + x) = None" if "x < cols s" "y < rows s" for x y
  proof (cases "fb_map s ! (y * cols s + x)")
    case (Some j)
    have "y * cols s + x < rows s * cols s" using that by (simp add: cell_index)
    then have "k \<le> j" "j < queue_i s" using 0 Some by (auto simp: later_def draw_ok_def pending_wf_def)
    then show ?thesis using 0 by simp
  qed
  then show ?case using 0 flush_step_refl by auto
next
  case (Suc n)
  then have k: "k < queue_i s" by simp
  from flush_item_ok [OF Suc.prems(1) k Suc.prems(2,3)] obtain t where
    t: "flush_item k s = Some t" "flush_step s t" "later (Suc k) t" "shown_except t X"
    and rest: "\<And>i. i < rows s * cols s \<Longrightarrow> fb_map s ! i \<noteq> Some k \<Longrightarrow> fb_map t ! i = fb_map s ! i \<and> grid t ! i = grid s ! i"
    and item: "\<And>x y. x < cols s \<Longrightarrow> y < rows s \<Longrightarrow> fb_map s ! (y * cols s + x) = Some k \<Longrightarrow>
      recoloured s (y * cols s + x) \<Longrightarrow>
      fb_map t ! (y * cols s + x) = None \<and> displays t (screen s ! (y * cols s + x)) x y" by blast
  then have q: "queue_i t = queue_i s" "draw_ok t" "screen t = screen s" by (simp_all add: flush_step_def)
  have geo: "rows t = rows s" "cols t = cols s" using t(2) dframe_geom by (auto simp: flush_step_def)
  have "n = queue_i t - Suc k" using Suc.hyps(2) q by simp
  from Suc.hyps(1) [OF this q(2) t(3,4)] q k obtain s' where s':
    "ofold flush_item [Suc k..<queue_i t] t = Some s'" "flush_step t s'"
    "later (queue_i t) s'" "shown_except s' X"
    and items: "\<And>x y. x < cols t \<Longrightarrow> y < rows t \<Longrightarrow> fb_map t ! (y * cols t + x) \<noteq> None \<Longrightarrow>
      recoloured t (y * cols t + x) \<Longrightarrow> displays s' (screen t ! (y * cols t + x)) x y" by auto
  have "displays s' (screen s ! (y * cols s + x)) x y"
    if xy: "x < cols s" "y < rows s" and m: "fb_map s ! (y * cols s + x) \<noteq> None" and r: "recoloured s (y * cols s + x)" for x y
  proof (cases "fb_map s ! (y * cols s + x) = Some k")
    case True
    with item [OF xy _ r] s'(2) xy geo show ?thesis by (auto simp: flush_step_def)
  next
    case False
    have "y * cols s + x < rows s * cols s" using xy by (simp add: cell_index)
    from rest [OF this False] have "recoloured t (y * cols s + x)" "fb_map t ! (y * cols s + x) \<noteq> None"
      using r q(3) m by (simp_all add: recoloured_def)
    then show ?thesis using items [of x y] xy geo q(3) by simp
  qed
  then show ?case
    using t q k s' flush_step_trans by (auto simp: upt_conv_Cons)
qed

lemma plot_settled:
  assumes ok: "draw_ok s" and x: "x < cols s" and y: "y < rows s" and i: "i = y * cols s + x"
    and none: "fb_map s ! i = None" and shown: "shown_except s X"
  shows "\<exists>s'. plot_char s (grid s ! i) x y = Some s' \<and> draw_ok s' \<and> screen s' = screen s \<and>
    dframe s s' \<and> fb_map s' = fb_map s \<and> grid s' = grid s \<and> queue s' = queue s \<and>
    old_cursor_x s' = old_cursor_x s \<and> old_cursor_y s' = old_cursor_y s \<and>
    shown_except s' (X - {(x, y)}) \<and>
    (\<forall>x' < cols s. \<forall>y' < rows s. x' \<noteq> x \<or> y' \<noteq> y \<longrightarrow>
       (\<forall>ch'. displays s' ch' x' y' = displays s ch' x' y'))"
proof -
  have i_less: "i < rows s * cols s" using x y by (simp add: i cell_index)
  have wf: "draw_wf s" "pending_wf s" "glyphs_ok s" using ok by (simp_all add: draw_ok_def)
  have cell: "cell_at s i = grid s ! i" by (simp add: cell_at_def none)
  have len: "i < length (fb_map s)" using wf(2) i_less by (simp add: pending_wf_def geom_wf_def)
  have gok: "glyph_ok (grid s ! i)" using wf(3) i_less by (simp add: glyphs_ok_def)
  obtain F where F: "plot_char s (grid s ! i) x y = Some (s\<lparr>framebuffer := F\<rparr>)"
    and lF: "length F = length (framebuffer s)"
    and disp: "displays (s\<lparr>framebuffer := F\<rparr>) (cell_at s i) x y"
    and others: "\<forall>x' < cols s. \<forall>y' < rows s. x' \<noteq> x \<or> y' \<noteq> y \<longrightarrow>
       (\<forall>ch'. displays (s\<lparr>framebuffer := F\<rparr>) ch' x' y' = displays s ch' x' y')"
    using plot_char_ok [OF wf(1) gok x y] unfolding cell by blast
  have id: "settle (s\<lparr>framebuffer := F\<rparr>) i = s\<lparr>framebuffer := F\<rparr>"
    by (rule settle_None) (use len none in simp_all)
  show ?thesis using paint_settle [OF ok x y others shown lF i] disp others F unfolding id by simp
qed

lemma replot_old_cursor_ok:
  assumes ok: "draw_ok s" and none: "\<forall>i < rows s * cols s. fb_map s ! i = None"
    and shown: "shown_except s X"
  defines "P \<equiv> (cursor_x s, cursor_y s)" and "Old \<equiv> (old_cursor_x s, old_cursor_y s)"
  shows "\<exists>s'. replot_old_cursor s = Some s' \<and> draw_ok s' \<and> screen s' = screen s \<and> dframe s s' \<and>
    fb_map s' = fb_map s \<and> grid s' = grid s \<and> queue s' = queue s \<and>
    shown_except s' (if Old = P \<and> cursor_enabled s then X else X - {Old}) \<and>
    (cursor_enabled s \<longrightarrow> cursor_x s < cols s \<longrightarrow> cursor_y s < rows s \<longrightarrow>
      (\<forall>ch. displays s' ch (cursor_x s) (cursor_y s) = displays s ch (cursor_x s) (cursor_y s)))"
proof (cases "(Old \<noteq> P \<or> \<not> cursor_enabled s) \<and> old_cursor_x s < cols s \<and> old_cursor_y s < rows s")
  case False
  then have "replot_old_cursor s = Some s" by (auto simp: replot_old_cursor_def Old_def P_def)
  moreover have "shown_except s (if Old = P \<and> cursor_enabled s then X else X - {Old})"
    using False shown by (auto simp: shown_except_def Old_def)
  ultimately show ?thesis using ok by simp
next
  case True
  then have x: "old_cursor_x s < cols s" and y: "old_cursor_y s < rows s" by simp_all
  let ?i = "old_cursor_y s * cols s + old_cursor_x s"
  have i: "?i < rows s * cols s" using x y by (rule cell_index)
  have sz: "sz_add (old_cursor_x s) (sz_mul (old_cursor_y s) (cols s)) = ?i"
    using draw_ok_sz [OF ok x y] by (simp add: sz_add_commute)
  have len: "?i < length (grid s)" using ok i by (simp add: draw_ok_def pending_wf_def geom_wf_def)
  obtain s' where s': "plot_char s (grid s ! ?i) (old_cursor_x s) (old_cursor_y s) = Some s'"
    "draw_ok s'" "screen s' = screen s" "dframe s s'" "fb_map s' = fb_map s" "grid s' = grid s"
    "queue s' = queue s" "shown_except s' (X - {Old})"
    "\<forall>x' < cols s. \<forall>y' < rows s. x' \<noteq> old_cursor_x s \<or> y' \<noteq> old_cursor_y s \<longrightarrow>
       (\<forall>ch'. displays s' ch' x' y' = displays s ch' x' y')"
    using plot_settled [OF ok x y refl _ shown] none i by (auto simp: Old_def)
  have "replot_old_cursor s = Some s'"
    using True s'(1) len x y by (auto simp: replot_old_cursor_def Old_def P_def sz)
  moreover have "cursor_enabled s \<Longrightarrow> cursor_x s \<noteq> old_cursor_x s \<or> cursor_y s \<noteq> old_cursor_y s"
    using True by (auto simp: Old_def P_def)
  ultimately show ?thesis using s' True by auto
qed

text \<open>The invariant of the drawing half, which \<open>flanterm_fb_init\<close> establishes.\<close>

definition drawn :: "ctx \<Rightarrow> bool" where
  "drawn c \<longleftrightarrow> fb_wf c \<and> draw_wf c \<and> glyphs_ok c \<and>
     shown_except c {(old_cursor_x c, old_cursor_y c)}"

text \<open>Between two writes nothing is queued and the cursor is where it was last drawn.\<close>

definition flushed :: "ctx \<Rightarrow> bool" where
  "flushed c \<longleftrightarrow> queue_i c = 0 \<and> old_cursor_x c = cursor_x c \<and> old_cursor_y c = cursor_y c"

definition cell_shown :: "ctx \<Rightarrow> nat \<Rightarrow> nat \<Rightarrow> flanterm_fb_char" where
  "cell_shown c x y = (let ch = screen c ! (y * cols c + x)
     in if cursor_enabled c \<and> x = cursor_x c \<and> y = cursor_y c then invert ch else ch)"

lemma later_none:
  assumes "draw_ok s" "later (queue_i s) s" "i < rows s * cols s"
  shows "fb_map s ! i = None"
proof (cases "fb_map s ! i")
  case (Some j)
  then have "j < queue_i s" using assms(1,3) by (simp add: draw_ok_def pending_wf_def)
  moreover have "queue_i s \<le> j" using assms(2,3) Some by (simp add: later_def)
  ultimately show ?thesis by simp
qed

text \<open>The end of the flush, once the queue is empty.\<close>

lemma flush_end:
  assumes ok: "draw_ok t" and none: "\<forall>i < rows t * cols t. fb_map t ! i = None"
  defines "c' \<equiv> t\<lparr>old_cursor_x := cursor_x t, old_cursor_y := cursor_y t, queue_i := 0\<rparr>"
  shows "fb_wf c'" "draw_wf c'" "glyphs_ok c'" "screen c' = screen t" "grid c' = screen t"
    "displays c' = displays t" "dframe t c'" "rows c' = rows t" "cols c' = cols t" "fb_map c' = fb_map t"
proof -
  have tw: "draw_wf t" "pending_wf t" "glyphs_ok t" using ok by (simp_all add: draw_ok_def)
  have cell: "cell_at c' i = grid t ! i" "cell_at t i = grid t ! i" if "i < rows t * cols t" for i
    using none that by (simp_all add: cell_at_def c'_def)
  show "screen c' = screen t" using cell by (intro nth_equalityI) (simp_all add: c'_def)
  have "length (grid t) = rows t * cols t" using tw(2) by (simp add: pending_wf_def geom_wf_def)
  then show "grid c' = screen t" using cell by (intro nth_equalityI) (simp_all add: c'_def)
  show "fb_wf c'" using tw(2) none by (auto simp: c'_def fb_wf_def queue_wf_def pending_wf_def geom_wf_def)
  have "draw_wf c' = draw_wf t" by (simp add: draw_wf_def c'_def)
  then show "draw_wf c'" using tw(1) by simp
  show "glyphs_ok c'" using tw(3) by (simp add: glyphs_ok_def c'_def)
  show "displays c' = displays t"
    by (simp add: c'_def fun_eq_iff displays_def fb_index_def cell_pixel_def glyph_bit_def canvas_index_def Let_def)
  show "dframe t c'" by (simp add: dframe_def forget_draw_def c'_def)
qed (simp_all add: c'_def)

lemma flush_ok:
  assumes "drawn c"
  shows "\<exists>c'. flanterm_fb_double_buffer_flush c = Some c' \<and> drawn c' \<and> screen c' = screen c \<and>
    grid c' = screen c \<and> queue_i c' = 0 \<and> (\<forall>i < rows c * cols c. fb_map c' ! i = None) \<and>
    dframe c c' \<and> old_cursor_x c' = cursor_x c \<and> old_cursor_y c' = cursor_y c \<and>
    (\<forall>x < cols c. \<forall>y < rows c. displays c' (cell_shown c x y) x y)"
proof -
  let ?Old = "(old_cursor_x c, old_cursor_y c)" and ?P = "(cursor_x c, cursor_y c)"
  let ?en = "cursor_enabled c" and ?i = "cursor_y c * cols c + cursor_x c"
  let ?in = "?en \<and> cursor_x c < cols c \<and> cursor_y c < rows c"
  let ?X = "if ?en then {?P, ?Old} else {?Old}"
  have ok: "draw_ok c" and Old: "shown_except c {?Old}"
    using assms by (simp_all add: drawn_def draw_ok_def pending_wf_queue)
  obtain c1 where c1: "(if ?en then draw_cursor c else Some c) = Some c1" "draw_ok c1"
    "screen c1 = screen c" "dframe c c1" "queue c1 = queue c" "queue_i c1 = queue_i c"
    "old_cursor_x c1 = old_cursor_x c" "old_cursor_y c1 = old_cursor_y c" "shown_except c1 ?X"
    and inv1: "?in \<Longrightarrow> displays c1 (invert (screen c ! ?i)) (cursor_x c) (cursor_y c)
      \<and> fb_map c1 ! ?i = None"
    using draw_cursor_ok [OF ok Old] ok Old by (cases ?en) auto
  have geo1: "rows c1 = rows c" "cols c1 = cols c" using dframe_geom [OF c1(4)] by simp_all
  obtain s where s: "ofold flush_item [0..<queue_i c1] c1 = Some s" "flush_step c1 s"
    "later (queue_i c1) s" "shown_except s ?X"
    using flush_loop_ok [OF c1(2) _ c1(9), of 0] by (auto simp: later_def)
  have s': "draw_ok s" "screen s = screen c" "dframe c s" "queue_i s = queue_i c1"
    "old_cursor_x s = old_cursor_x c" "old_cursor_y s = old_cursor_y c"
    using s(2) c1 dframe_trans by (auto simp: flush_step_def)
  note geo = dframe_geom [OF s'(3)]
  have inv2: "displays s (invert (screen c ! ?i)) (cursor_x c) (cursor_y c)" if ?in
    using inv1 [OF that] s(2) that geo1 by (auto simp: flush_step_def)
  have none: "\<forall>i < rows s * cols s. fb_map s ! i = None"
    using later_none [OF s'(1)] s(3) s'(4) by simp
  obtain t where t: "replot_old_cursor s = Some t" "draw_ok t" "screen t = screen s" "dframe s t"
    "fb_map t = fb_map s" "grid t = grid s" "queue t = queue s"
    and shown_t: "shown_except t (if ?Old = ?P \<and> ?en then ?X else ?X - {?Old})"
    and cur_t: "?in \<Longrightarrow> displays t ch (cursor_x c) (cursor_y c) = displays s ch (cursor_x c) (cursor_y c)"
    for ch
    using replot_old_cursor_ok [OF s'(1) none s(4)] unfolding geo s'(5,6) by blast
  note geo_t = dframe_geom [OF dframe_trans [OF s'(3) t(4)]]
  have shown: "shown_except t (if ?en then {?P} else {})"
    by (rule shown_except_mono [OF shown_t]) auto
  let ?c = "t\<lparr>old_cursor_x := cursor_x t, old_cursor_y := cursor_y t, queue_i := 0\<rparr>"
  have flush: "flanterm_fb_double_buffer_flush c = Some ?c"
    using c1(1) s(1) t(1) by (simp add: flanterm_fb_double_buffer_flush_def del: bind_eq_Some_conv)
  have none_t: "\<forall>i < rows t * cols t. fb_map t ! i = None" using none t(5) geo geo_t by simp
  note e = flush_end [OF t(2) none_t]
  have grid: "grid t = screen c" using e(5) t(3) s'(2) by simp
  have "displays ?c (cell_shown c x y) x y" if xy: "x < cols c" "y < rows c" for x y
  proof (cases "?en \<and> (x, y) = ?P")
    case True
    then have "displays t (invert (screen c ! ?i)) (cursor_x c) (cursor_y c)"
      using inv2 cur_t xy by simp
    then show ?thesis using True by (simp add: e(6) cell_shown_def)
  next
    case False
    then have "displays t (screen c ! (y * cols c + x)) x y"
      using shown xy geo_t grid by (auto simp: shown_except_def split: if_splits)
    then show ?thesis using False by (auto simp: e(6) cell_shown_def Let_def)
  qed
  moreover have "shown_except ?c {(old_cursor_x ?c, old_cursor_y ?c)}"
    using shown geo_t unfolding shown_except_def e(6) by (auto split: if_splits)
  moreover have "dframe c ?c" using dframe_trans [OF dframe_trans [OF s'(3) t(4)] e(7)] .
  moreover have "cursor_x t = cursor_x c" "cursor_y t = cursor_y c" by (rule geo_t)+
  ultimately show ?thesis using flush e(1-5) grid none_t geo_t t(3) s'(2) by (simp add: drawn_def)
qed

text \<open>
  A flush without a cursor on a frame buffer that others have painted over: a queued cell whose
  colours change is drawn, and so is the cell of the old cursor; a cell that is not queued keeps
  its pixels.
\<close>

lemma flush_repaint:
  assumes wf: "fb_wf c" "draw_wf c" "glyphs_ok c" and en: "\<not> cursor_enabled c"
  shows "\<exists>c'. flanterm_fb_double_buffer_flush c = Some c' \<and> fb_wf c' \<and> draw_wf c' \<and> glyphs_ok c' \<and>
    screen c' = screen c \<and> grid c' = screen c \<and> (\<forall>i < rows c * cols c. fb_map c' ! i = None) \<and>
    dframe c c' \<and> old_cursor_x c' = cursor_x c \<and> old_cursor_y c' = cursor_y c \<and>
    (\<forall>x < cols c. \<forall>y < rows c. let i = y * cols c + x in
       if (x, y) = (old_cursor_x c, old_cursor_y c) then displays c' (screen c ! i) x y
       else if fb_map c ! i = None then (\<forall>ch. displays c' ch x y = displays c ch x y)
       else recoloured c i \<longrightarrow> displays c' (screen c ! i) x y)"
proof -
  let ?All = "UNIV :: (nat \<times> nat) set"
  let ?Old = "(old_cursor_x c, old_cursor_y c)"
  have ok: "draw_ok c" using wf by (simp add: draw_ok_def pending_wf_queue)
  obtain s where s: "ofold flush_item [0..<queue_i c] c = Some s" "flush_step c s" "later (queue_i c) s"
    and drawn: "\<And>x y. x < cols c \<Longrightarrow> y < rows c \<Longrightarrow> fb_map c ! (y * cols c + x) \<noteq> None \<Longrightarrow>
      recoloured c (y * cols c + x) \<Longrightarrow> displays s (screen c ! (y * cols c + x)) x y"
    using flush_loop_ok [OF ok, of 0 ?All] by (auto simp: later_def shown_except_def)
  have s': "draw_ok s" "screen s = screen c" "dframe c s" "queue_i s = queue_i c"
    "old_cursor_x s = old_cursor_x c" "old_cursor_y s = old_cursor_y c"
    using s(2) by (simp_all add: flush_step_def)
  note geo = dframe_geom [OF s'(3)]
  have none: "\<forall>i < rows s * cols s. fb_map s ! i = None"
    using later_none [OF s'(1)] s(3) s'(4) by simp
  have "\<exists>t. replot_old_cursor s = Some t \<and> draw_ok t \<and> screen t = screen s \<and> dframe s t \<and>
      fb_map t = fb_map s \<and>
      (\<forall>x < cols s. \<forall>y < rows s. if (x, y) = ?Old then displays t (screen s ! (y * cols s + x)) x y
         else (\<forall>ch. displays t ch x y = displays s ch x y))"
  proof (cases "old_cursor_x c < cols c \<and> old_cursor_y c < rows c")
    case False
    then show ?thesis using s'(1,5,6) geo by (auto simp: replot_old_cursor_def)
  next
    case True
    then have x: "old_cursor_x s < cols s" and y: "old_cursor_y s < rows s" using s'(5,6) geo by simp_all
    let ?i = "old_cursor_y s * cols s + old_cursor_x s"
    have i: "?i < rows s * cols s" using x y by (rule cell_index)
    have sz: "sz_add (old_cursor_x s) (sz_mul (old_cursor_y s) (cols s)) = ?i"
      using draw_ok_sz [OF s'(1) x y] by (simp add: sz_add_commute)
    have len: "?i < length (grid s)" using s'(1) i by (simp add: draw_ok_def pending_wf_def geom_wf_def)
    have cell: "grid s ! ?i = screen s ! ?i" using none i by (simp add: cell_at_def)
    obtain t where t: "plot_char s (grid s ! ?i) (old_cursor_x s) (old_cursor_y s) = Some t"
      "draw_ok t" "screen t = screen s" "dframe s t" "fb_map t = fb_map s"
      "shown_except t (- {(old_cursor_x s, old_cursor_y s)})" "grid t = grid s"
      "\<forall>x' < cols s. \<forall>y' < rows s. x' \<noteq> old_cursor_x s \<or> y' \<noteq> old_cursor_y s \<longrightarrow>
         (\<forall>ch'. displays t ch' x' y' = displays s ch' x' y')"
      using plot_settled [OF s'(1) x y refl, of ?All] none i by (auto simp: shown_except_def Compl_eq_Diff_UNIV)
    have "replot_old_cursor s = Some t"
      using t(1) len x y en geo(5) by (simp add: replot_old_cursor_def sz)
    moreover have "displays t (screen s ! ?i) (old_cursor_x s) (old_cursor_y s)"
      using t(6,7) x y dframe_geom [OF t(4)] cell by (auto simp: shown_except_def)
    ultimately show ?thesis using t s'(5,6) by (intro exI [of _ t]) auto
  qed
  then obtain t where t: "replot_old_cursor s = Some t" "draw_ok t" "screen t = screen s" "dframe s t"
    "fb_map t = fb_map s"
    and disp: "\<And>x y. x < cols s \<Longrightarrow> y < rows s \<Longrightarrow> if (x, y) = ?Old then displays t (screen s ! (y * cols s + x)) x y
         else (\<forall>ch. displays t ch x y = displays s ch x y)" by blast
  note geo_t = dframe_geom [OF dframe_trans [OF s'(3) t(4)]]
  let ?c = "t\<lparr>old_cursor_x := cursor_x t, old_cursor_y := cursor_y t, queue_i := 0\<rparr>"
  have flush: "flanterm_fb_double_buffer_flush c = Some ?c"
    using en s(1) t(1) by (simp add: flanterm_fb_double_buffer_flush_def del: bind_eq_Some_conv)
  have none_t: "\<forall>i < rows t * cols t. fb_map t ! i = None" using none t(5) geo geo_t by simp
  note e = flush_end [OF t(2) none_t]
  have repaint: "let i = y * cols c + x in
       if (x, y) = ?Old then displays ?c (screen c ! i) x y
       else if fb_map c ! i = None then (\<forall>ch. displays ?c ch x y = displays c ch x y)
       else recoloured c i \<longrightarrow> displays ?c (screen c ! i) x y" if xy: "x < cols c" "y < rows c" for x y
    using disp [of x y] xy geo drawn [OF xy] s(2) s'(2) by (auto simp: e(6) flush_step_def Let_def)
  have "dframe c ?c" using dframe_trans [OF dframe_trans [OF s'(3) t(4)] e(7)] .
  moreover have "old_cursor_x ?c = cursor_x c" "old_cursor_y ?c = cursor_y c" using geo_t by simp_all
  moreover have "\<forall>i < rows c * cols c. fb_map ?c ! i = None" "screen ?c = screen c" "grid ?c = screen c"
    using none_t geo_t e(4,5) t(3) s'(2) by simp_all
  ultimately show ?thesis using flush e(1-3) repaint by (intro exI [of _ ?c] conjI) blast+
qed

section \<open>A full refresh\<close>

lemma plot_grid:
  assumes ok: "draw_ok s" and x: "x < cols s" and y: "y < rows s"
    and shown: "shown_except s X"
  shows "\<exists>F. plot_char s (grid s ! (y * cols s + x)) x y = Some (s\<lparr>framebuffer := F\<rparr>) \<and>
    length F = length (framebuffer s) \<and> shown_except (s\<lparr>framebuffer := F\<rparr>) (X - {(x, y)})"
proof -
  have gok: "glyph_ok (grid s ! (y * cols s + x))"
    using ok cell_index [OF x y] by (simp add: draw_ok_def glyphs_ok_def)
  have wf: "draw_wf s" using ok by (simp add: draw_ok_def)
  from plot_char_ok [OF wf gok x y] obtain F where
    F: "plot_char s (grid s ! (y * cols s + x)) x y = Some (s\<lparr>framebuffer := F\<rparr>)"
      "length F = length (framebuffer s)"
      "displays (s\<lparr>framebuffer := F\<rparr>) (grid s ! (y * cols s + x)) x y"
    and others: "\<forall>x' < cols s. \<forall>y' < rows s. x' \<noteq> x \<or> y' \<noteq> y \<longrightarrow>
       (\<forall>ch'. displays (s\<lparr>framebuffer := F\<rparr>) ch' x' y' = displays s ch' x' y')"
    by blast
  have "shown_except (s\<lparr>framebuffer := F\<rparr>) (X - {(x, y)})"
    unfolding shown_except_def
  proof (intro allI impI)
    fix x' y'
    assume a: "x' < cols (s\<lparr>framebuffer := F\<rparr>)" "y' < rows (s\<lparr>framebuffer := F\<rparr>)"
      "(x', y') \<notin> X - {(x, y)}"
    show "displays (s\<lparr>framebuffer := F\<rparr>)
        (grid (s\<lparr>framebuffer := F\<rparr>) ! (y' * cols (s\<lparr>framebuffer := F\<rparr>) + x')) x' y'"
      using a F(3) others shown by (cases "x' = x \<and> y' = y") (auto simp: shown_except_def)
  qed
  with F show ?thesis by blast
qed

lemma refresh_grid_loop:
  assumes "draw_ok s" "shown_except s {(x, y). k \<le> y * cols s + x}" "k \<le> rows s * cols s"
    and "w = cols s"
  shows "\<exists>F. ofold (\<lambda>i s. do { g \<leftarrow> aget (grid s) i; plot_char s g (i mod w) (i div w) })
      [k..<rows s * cols s] s = Some (s\<lparr>framebuffer := F\<rparr>) \<and>
    length F = length (framebuffer s) \<and> shown_except (s\<lparr>framebuffer := F\<rparr>) {}"
  using assms
proof (induction "rows s * cols s - k" arbitrary: k s)
  case 0
  have "shown_except s {}"
    unfolding shown_except_def
  proof (intro allI impI)
    fix x y assume "x < cols s" "y < rows s"
    then have "(x, y) \<notin> {(x, y). k \<le> y * cols s + x}" using 0 cell_index [of x s y] by auto
    then show "displays s (grid s ! (y * cols s + x)) x y"
      using 0 \<open>x < cols s\<close> \<open>y < rows s\<close> by (auto simp: shown_except_def)
  qed
  with 0 show ?case by (intro exI [of _ "framebuffer s"]) simp
next
  case (Suc n)
  then have k: "k < rows s * cols s" by simp
  let ?x = "k mod cols s" and ?y = "k div cols s"
  have c: "0 < cols s" using Suc.prems(1) by (simp add: draw_ok_def pending_wf_def geom_wf_def)
  have xy: "?x < cols s" "?y < rows s" using k c by (simp_all add: less_mult_imp_div_less)
  have k_eq: "?y * cols s + ?x = k" by simp
  from plot_grid [OF Suc.prems(1) xy Suc.prems(2)] obtain F where
    F: "plot_char s (grid s ! k) ?x ?y = Some (s\<lparr>framebuffer := F\<rparr>)"
      "length F = length (framebuffer s)"
      "shown_except (s\<lparr>framebuffer := F\<rparr>) ({(x, y). k \<le> y * cols s + x} - {(?x, ?y)})"
    unfolding k_eq by blast
  let ?s = "s\<lparr>framebuffer := F\<rparr>"
  have sh: "shown_except ?s {(x, y). Suc k \<le> y * cols ?s + x}"
    unfolding shown_except_def
  proof (intro allI impI)
    fix x y assume a: "x < cols ?s" "y < rows ?s" "(x, y) \<notin> {(x, y). Suc k \<le> y * cols ?s + x}"
    have "(x, y) = (?x, ?y)" if "k \<le> y * cols s + x"
    proof -
      have "k = y * cols s + x" using a(3) that by simp
      then show ?thesis using a(1) by simp
    qed
    then have "(x, y) \<notin> {(x, y). k \<le> y * cols s + x} - {(?x, ?y)}" by auto
    then show "displays ?s (grid ?s ! (y * cols ?s + x)) x y"
      using F(3) a by (simp add: shown_except_def)
  qed
  have "draw_ok ?s" using Suc.prems(1) F(2) by simp
  have "n = rows ?s * cols ?s - Suc k" using Suc.hyps(2) by simp
  from Suc.hyps(1) [OF this \<open>draw_ok ?s\<close> sh] k Suc.prems(4) obtain F' where
    F': "ofold (\<lambda>i s. do { g \<leftarrow> aget (grid s) i; plot_char s g (i mod w) (i div w) })
      [Suc k..<rows s * cols s] ?s = Some (?s\<lparr>framebuffer := F'\<rparr>)"
    "length F' = length F" "shown_except (?s\<lparr>framebuffer := F'\<rparr>) {}" by auto
  have "length (grid s) = rows s * cols s"
    using Suc.prems(1) by (simp add: draw_ok_def pending_wf_def geom_wf_def)
  then have "ofold (\<lambda>i s. do { g \<leftarrow> aget (grid s) i; plot_char s g (i mod w) (i div w) })
      [k..<rows s * cols s] s = Some (s\<lparr>framebuffer := F'\<rparr>)"
    using F(1) F'(1) k Suc.prems(4) by (simp add: upt_conv_Cons)
  then show ?case using F' F(2) by (intro exI [of _ F']) simp
qed

lemma refresh_canvas_loop:
  assumes wf: "draw_wf c"
  shows "\<exists>F. ofold (\<lambda>y s. ofold (\<lambda>x s. do {
           v \<leftarrow> aget (canvas s) (sz_add (sz_mul y (fb_width c)) x);
           f \<leftarrow> aset (framebuffer s) (sz_add (sz_mul y (fb_pitch c div 4)) x) v;
           Some (s\<lparr>framebuffer := f\<rparr>)
         }) [0..<fb_width c] s) [0..<fb_height c] c = Some (c\<lparr>framebuffer := F\<rparr>) \<and>
    length F = length (framebuffer c)"
proof -
  let ?P = "fb_pitch c div 4"
  let ?w = "\<lambda>y x. [(y * ?P + x, canvas c ! (y * fb_width c + x))]"
  have "ofold (\<lambda>y s. ofold (\<lambda>x s. do {
           v \<leftarrow> aget (canvas s) (sz_add (sz_mul y (fb_width c)) x);
           f \<leftarrow> aset (framebuffer s) (sz_add (sz_mul y ?P) x) v;
           Some (s\<lparr>framebuffer := f\<rparr>)
         }) [0..<fb_width c] s) [0..<fb_height c] (c\<lparr>framebuffer := framebuffer c\<rparr>)
      = Some (c\<lparr>framebuffer := upds (concat (map (\<lambda>y. concat (map (?w y) [0..<fb_width c]))
           [0..<fb_height c])) (framebuffer c)\<rparr>)"
  proof (rule ofold_writes [OF _ refl], rule ofold_writes)
    fix y x and F :: "u32 list"
    assume "y \<in> set [0..<fb_height c]" "x \<in> set [0..<fb_width c]"
      and F: "length F = length (framebuffer c)"
    then have yx: "y < fb_height c" "x < fb_width c" by simp_all
    have le: "fb_height c * fb_width c \<le> fb_height c * ?P"
      using draw_wfD(9) [OF wf] by (rule mult_le_mono2)
    have b: "y * fb_width c + x < fb_height c * fb_width c" "y * ?P + x < fb_height c * ?P"
      using grid_pos_less [OF yx] grid_pos_less [OF yx(1), of x ?P] yx draw_wfD(9) [OF wf] by simp_all
    have sz: "sz_add (sz_mul y (fb_width c)) x = y * fb_width c + x"
      "sz_add (sz_mul y ?P) x = y * ?P + x"
    proof -
      have "y * fb_width c + x < 2 ^ 62" "y * ?P + x < 2 ^ 62"
        using b le draw_wfD(11) [OF wf] by linarith+
      then show "sz_add (sz_mul y (fb_width c)) x = y * fb_width c + x"
        "sz_add (sz_mul y ?P) x = y * ?P + x" by (simp_all add: sz_simps SZ_def)
    qed
    show "do {
           v \<leftarrow> aget (canvas (c\<lparr>framebuffer := F\<rparr>)) (sz_add (sz_mul y (fb_width c)) x);
           f \<leftarrow> aset (framebuffer (c\<lparr>framebuffer := F\<rparr>)) (sz_add (sz_mul y ?P) x) v;
           Some (c\<lparr>framebuffer := F\<rparr>\<lparr>framebuffer := f\<rparr>)
         } = Some (c\<lparr>framebuffer := upds (?w y x) F\<rparr>)"
      unfolding sz using b F draw_wfD(10,12) [OF wf] by (simp add: mult.commute)
  qed
  then show ?thesis unfolding framebuffer_self
    by (intro exI conjI) (assumption, simp)
qed

lemma full_refresh_ok:
  assumes ok: "draw_ok c"
  shows "\<exists>c'. flanterm_fb_full_refresh c = Some c' \<and> draw_ok c' \<and> screen c' = screen c \<and>
    dframe c c' \<and> queue c' = queue c \<and> queue_i c' = queue_i c \<and>
    old_cursor_x c' = old_cursor_x c \<and> old_cursor_y c' = old_cursor_y c \<and>
    shown_except c' (if cursor_enabled c then {(cursor_x c, cursor_y c)} else {}) \<and>
    (cursor_enabled c \<longrightarrow> cursor_x c < cols c \<longrightarrow> cursor_y c < rows c \<longrightarrow>
       displays c' (invert (screen c ! (cursor_y c * cols c + cursor_x c))) (cursor_x c) (cursor_y c)) \<and>
    (\<not> cursor_enabled c \<or> cols c \<le> cursor_x c \<or> rows c \<le> cursor_y c \<longrightarrow> fb_map c' = fb_map c)"
proof -
  obtain F where F: "ofold (\<lambda>y s. ofold (\<lambda>x s. do {
           v \<leftarrow> aget (canvas s) (sz_add (sz_mul y (fb_width c)) x);
           f \<leftarrow> aset (framebuffer s) (sz_add (sz_mul y (fb_pitch c div 4)) x) v;
           Some (s\<lparr>framebuffer := f\<rparr>)
         }) [0..<fb_width c] s) [0..<fb_height c] c = Some (c\<lparr>framebuffer := F\<rparr>)"
    "length F = length (framebuffer c)"
    using refresh_canvas_loop [of c] ok by (auto simp: draw_ok_def)
  let ?s = "c\<lparr>framebuffer := F\<rparr>"
  have ok': "draw_ok ?s" using ok F(2) by simp
  have "shown_except ?s {(x, y). 0 \<le> y * cols ?s + x}" by (simp add: shown_except_def)
  note loop = refresh_grid_loop [OF ok' this le0, of "cols c", simplified]
  from loop obtain F' where
    F': "ofold (\<lambda>i s. do { g \<leftarrow> aget (grid s) i; plot_char s g (i mod cols c) (i div cols c) })
      [0..<rows c * cols c] ?s = Some (c\<lparr>framebuffer := F'\<rparr>)" "length F' = length F"
    "shown_except (c\<lparr>framebuffer := F'\<rparr>) {}" by blast
  have "rows c * cols c < 2 ^ 31" using ok by (simp add: draw_ok_def pending_wf_def geom_wf_def)
  then have sz: "sz_mul (rows c) (cols c) = rows c * cols c" by (simp add: sz_simps SZ_def)
  let ?t = "c\<lparr>framebuffer := F'\<rparr>"
  have ok'': "draw_ok ?t" "dframe c ?t" using ok F(2) F'(2) by simp_all
  have eq: "flanterm_fb_full_refresh c = (if cursor_enabled ?t then draw_cursor ?t else Some ?t)"
    using F(1) F'(1) by (simp add: flanterm_fb_full_refresh_def sz)
  show ?thesis
  proof (cases "cursor_enabled c")
    case False
    then show ?thesis using eq ok'' F'(3) by simp
  next
    case True
    from draw_cursor_ok [OF ok''(1) F'(3)] obtain c' where
      "draw_cursor ?t = Some c'" "draw_ok c'" "screen c' = screen ?t" "dframe ?t c'"
      "shown_except c' {(cursor_x c, cursor_y c)}" "queue c' = queue c" "queue_i c' = queue_i c"
      "old_cursor_x c' = old_cursor_x c" "old_cursor_y c' = old_cursor_y c"
      "cursor_x c < cols c \<longrightarrow> cursor_y c < rows c \<longrightarrow>
         displays c' (invert (screen c ! (cursor_y c * cols c + cursor_x c))) (cursor_x c) (cursor_y c)"
      by auto
    moreover have "draw_cursor ?t = Some ?t" if "cols c \<le> cursor_x c \<or> rows c \<le> cursor_y c"
      using that by (auto simp: draw_cursor_def)
    ultimately show ?thesis using eq True dframe_trans [OF ok''(2)] by auto
  qed
qed

section \<open>The other operations keep the drawing invariant\<close>

lemma drawn_cong:
  assumes "rows c' = rows c" "cols c' = cols c" "font_width c' = font_width c"
    "font_height c' = font_height c" "glyph_width c' = glyph_width c"
    "glyph_height c' = glyph_height c" "font_scale_x c' = font_scale_x c"
    "font_scale_y c' = font_scale_y c" "offset_x c' = offset_x c" "offset_y c' = offset_y c"
    "framebuffer c' = framebuffer c" "fb_pitch c' = fb_pitch c" "fb_width c' = fb_width c"
    "fb_height c' = fb_height c" "font_bool c' = font_bool c" "canvas c' = canvas c"
    "grid c' = grid c" "queue c' = queue c" "queue_i c' = queue_i c" "fb_map c' = fb_map c"
    "old_cursor_x c' = old_cursor_x c" "old_cursor_y c' = old_cursor_y c"
  shows "drawn c' = drawn c"
proof -
  have "draw_wf c' = draw_wf c" "glyphs_ok c' = glyphs_ok c" "displays c' = displays c"
    using assms by (simp_all add: draw_wf_def glyphs_ok_def fun_eq_iff displays_def fb_index_def
        cell_pixel_def glyph_bit_def canvas_index_def Let_def)
  then show ?thesis
    using assms fb_wf_cong(1) [of c' c] by (simp add: drawn_def shown_except_def)
qed

lemma glyphs_ok_screen:
  assumes wf: "fb_wf c" and grid: "\<forall>i < rows c * cols c. glyph_ok (grid c ! i)"
    and scr: "\<forall>ch \<in> set (screen c). glyph_ok ch"
  shows "glyphs_ok c"
  unfolding glyphs_ok_def
proof (intro conjI allI impI)
  fix k assume k: "k < queue_i c"
  have q: "queue_wf c" using wf by (simp add: fb_wf_def)
  have off: "q_off c k < rows c * cols c" by (rule q_off_less [OF q k])
  have "screen c ! q_off c k = q_c (queue c ! k)"
    using queue_wf_item(3) [OF q k] off by (simp add: cell_at_def)
  then show "glyph_ok (q_c (queue c ! k))" using scr off by (metis length_screen nth_mem)
qed (use grid in blast)

lemma drawn_frame:
  assumes "drawn c" "cframe c c'" "fb_wf c'" "\<forall>ch \<in> set (screen c'). glyph_ok ch"
  shows "drawn c'"
proof -
  have eqs: "rows c' = rows c" "cols c' = cols c" "font_width c' = font_width c"
    "font_height c' = font_height c" "glyph_width c' = glyph_width c"
    "glyph_height c' = glyph_height c" "font_scale_x c' = font_scale_x c"
    "font_scale_y c' = font_scale_y c" "offset_x c' = offset_x c" "offset_y c' = offset_y c"
    "framebuffer c' = framebuffer c" "fb_pitch c' = fb_pitch c" "fb_width c' = fb_width c"
    "fb_height c' = fb_height c" "font_bool c' = font_bool c" "canvas c' = canvas c"
    "grid c' = grid c" "old_cursor_x c' = old_cursor_x c" "old_cursor_y c' = old_cursor_y c"
    by (rule cframe_sel [OF assms(2)], simp add: forget_cursor_def forget_queue_def)+
  then have same: "draw_wf c' = draw_wf c" "displays c' = displays c"
    by (simp_all add: draw_wf_def fun_eq_iff displays_def fb_index_def
        cell_pixel_def glyph_bit_def canvas_index_def Let_def)
  have "glyphs_ok c'"
    using assms(1,4) eqs by (intro glyphs_ok_screen [OF assms(3)]) (simp_all add: drawn_def glyphs_ok_def)
  then show ?thesis using assms(1,3) same eqs by (simp add: drawn_def shown_except_def)
qed

lemma drawn_wf: "drawn c \<Longrightarrow> fb_wf c"
  by (simp add: drawn_def)

lemma drawn_glyphs:
  assumes "drawn c" "ch \<in> set (screen c)"
  shows "glyph_ok ch"
proof -
  from assms(2) obtain i where "i < rows c * cols c" "ch = cell_at c i"
    by (auto simp: screen_def)
  then show ?thesis
    using glyphs_ok_cell [of c i] assms(1) by (simp add: drawn_def pending_wf_queue)
qed

lemma drawn_cursor [simp]:
  "drawn (c\<lparr>cursor_x := x\<rparr>) = drawn c" "drawn (c\<lparr>cursor_y := y\<rparr>) = drawn c"
  "drawn (c\<lparr>text_fg := v\<rparr>) = drawn c" "drawn (c\<lparr>text_bg := v\<rparr>) = drawn c"
  by (rule drawn_cong; simp)+

lemma glyph_ok_u8 [simp]: "glyph_ok \<lparr>char_c = ucast (b :: u8), char_fg = f, char_bg = g\<rparr>"
proof -
  have "take_bit 32 (unat b) \<le> unat b" by (rule take_bit_nat_less_eq_self)
  moreover have "unat b < 256" using unsigned_less [of b, where ?'a = nat] by simp
  ultimately have "take_bit 32 (unat b) < 256" by (rule le_less_trans)
  then show ?thesis by (simp add: glyph_ok_def unsigned_ucast_eq)
qed

lemma glyph_ok_empty [simp]: "glyph_ok (empty_char c)"
  by (simp add: glyph_ok_def empty_char_def)

lemma set_scroll_rows: "set (scroll_rows w t b a cs) \<subseteq> insert a (set cs)"
  "set (revscroll_rows w t b a cs) \<subseteq> insert a (set cs)"
  by (auto simp: scroll_rows_def revscroll_rows_def dest: in_set_takeD in_set_dropD)

lemma drawn_frame_insert:
  assumes "drawn c" "cframe c c'" "fb_wf c'" "set (screen c') \<subseteq> insert a (set (screen c))" "glyph_ok a"
  shows "drawn c'"
  using drawn_frame [OF assms(1-3)] drawn_glyphs [OF assms(1)] assms(4,5) by blast

lemma drawn_push:
  assumes "drawn c" "glyph_ok ch"
  shows "\<exists>c'. push_to_queue c ch x y = Some c' \<and> drawn c' \<and> qframe c c'"
proof -
  obtain c' where c': "push_to_queue c ch x y = Some c'" "fb_wf c'" "qframe c c'"
    "screen c' = (if x < cols c \<and> y < rows c then (screen c)[y * cols c + x := ch] else screen c)"
    using push_to_queue_ok [OF drawn_wf [OF assms(1)], of ch x y] by blast
  have "set (screen c') \<subseteq> insert ch (set (screen c))"
    using c'(4) set_update_subset_insert by (auto split: if_splits) fastforce
  then show ?thesis
    using c' drawn_frame [OF assms(1) cframe_qframe [OF c'(3)] c'(2)] drawn_glyphs [OF assms(1)] assms(2)
    by blast
qed

lemma drawn_scroll:
  assumes "drawn c" "margins_wf c"
  shows "\<exists>c'. flanterm_fb_scroll c = Some c' \<and> drawn c' \<and> qframe c c'"
proof -
  obtain c' where c': "flanterm_fb_scroll c = Some c'" "fb_wf c'" "qframe c c'"
     "screen c' = scroll_rows (cols c) (scroll_top_margin c) (scroll_bottom_margin c)
                   (empty_char c) (screen c)"
    using flanterm_fb_scroll_ok [OF drawn_wf [OF assms(1)]] assms(2) by (auto simp: margins_wf_def)
  have "set (screen c') \<subseteq> insert (empty_char c) (set (screen c))"
    unfolding c'(4) by (rule set_scroll_rows)
  then have "drawn c'"
    using drawn_frame_insert [OF assms(1) cframe_qframe [OF c'(3)] c'(2)] by simp
  then show ?thesis using c' by blast
qed

lemma drawn_revscroll:
  assumes "drawn c" "scroll_top_margin c < rows c"
    "0 < scroll_bottom_margin c" "scroll_bottom_margin c \<le> rows c"
  shows "\<exists>c'. flanterm_fb_revscroll c = Some c' \<and> drawn c' \<and> qframe c c'"
proof -
  obtain c' where c': "flanterm_fb_revscroll c = Some c'" "fb_wf c'" "qframe c c'"
     "screen c' = revscroll_rows (cols c) (scroll_top_margin c) (scroll_bottom_margin c)
                   (empty_char c) (screen c)"
    using flanterm_fb_revscroll_ok [OF drawn_wf [OF assms(1)]] assms(2-4) by auto
  have "set (screen c') \<subseteq> insert (empty_char c) (set (screen c))"
    unfolding c'(4) by (rule set_scroll_rows)
  then have "drawn c'"
    using drawn_frame_insert [OF assms(1) cframe_qframe [OF c'(3)] c'(2)] by simp
  then show ?thesis using c' by blast
qed

lemma drawn_clear:
  assumes "drawn c"
  shows "\<exists>c'. flanterm_fb_clear c move = Some c' \<and> drawn c' \<and> cframe c c' \<and>
     (if move then cursor_x c' = 0 \<and> cursor_y c' = 0 else qframe c c') \<and>
     screen c' = replicate (rows c * cols c) (empty_char c)"
proof -
  obtain c' where c': "flanterm_fb_clear c move = Some c'" "fb_wf c'" "cframe c c'"
     "if move then cursor_x c' = 0 \<and> cursor_y c' = 0 else qframe c c'"
     "screen c' = replicate (rows c * cols c) (empty_char c)"
    using flanterm_fb_clear_ok [OF drawn_wf [OF assms(1)], of move] by blast
  then show ?thesis using drawn_frame [OF assms c'(3,2)] by auto
qed

lemma drawn_move_character:
  assumes "drawn c"
  shows "\<exists>c'. flanterm_fb_move_character c nx ny ox oy = Some c' \<and> drawn c' \<and> qframe c c'"
proof -
  obtain c' where c': "flanterm_fb_move_character c nx ny ox oy = Some c'" "fb_wf c'" "qframe c c'"
    "screen c' = (if ox < cols c \<and> oy < rows c \<and> nx < cols c \<and> ny < rows c
                  then (screen c)[ny * cols c + nx := screen c ! (oy * cols c + ox)]
                  else screen c)"
    using flanterm_fb_move_character_ok [OF drawn_wf [OF assms(1)]] by blast
  have "screen c ! (oy * cols c + ox) \<in> set (screen c)" if "ox < cols c" "oy < rows c"
    using cell_index [OF that] by (intro nth_mem) simp
  then have "set (screen c') \<subseteq> set (screen c)"
    using c'(4) by (auto split: if_splits dest!: set_update_subset_insert [THEN subsetD])
  then show ?thesis
    using c' drawn_frame [OF assms(1) cframe_qframe [OF c'(3)] c'(2)] drawn_glyphs [OF assms(1)]
    by blast
qed

lemma drawn_raw_putchar:
  assumes "drawn c" "margins_wf c"
  shows "\<exists>c'. flanterm_fb_raw_putchar c b = Some c' \<and> drawn c' \<and> cframe c c'"
proof -
  have wrap: "\<exists>c1. wrap_line c = Some c1 \<and> drawn c1 \<and> cframe c c1"
  proof -
    obtain c1 where c1: "wrap_line c = Some c1" "fb_wf c1" "cframe c c1"
      "screen c1 = (if sz_add (cursor_y c) 1 = scroll_bottom_margin c
                  then scroll_rows (cols c) (scroll_top_margin c) (scroll_bottom_margin c)
                         (empty_char c) (screen c)
                  else screen c)"
      using wrap_line_ok [OF drawn_wf [OF assms(1)] assms(2)] by blast
    have "set (screen c1) \<subseteq> insert (empty_char c) (set (screen c))"
      using c1(4) set_scroll_rows(1) [of "cols c" _ _ "empty_char c" "screen c"]
      by (auto split: if_splits)
    then show ?thesis
      using c1 drawn_frame_insert [OF assms(1) c1(3,2)] by simp
  qed
  then obtain c1 where c1: "(if cols c \<le> cursor_x c \<and>
               (cursor_y c < sz_sub (scroll_bottom_margin c) 1 \<or> scroll_enabled c)
            then wrap_line c else Some c) = Some c1" "drawn c1" "cframe c c1"
    using assms(1) by (cases "cols c \<le> cursor_x c \<and>
               (cursor_y c < sz_sub (scroll_bottom_margin c) 1 \<or> scroll_enabled c)") auto
  let ?ch = "\<lparr>char_c = ucast b, char_fg = text_fg c1, char_bg = text_bg c1\<rparr>"
  let ?c = "c1\<lparr>cursor_x := sz_add (cursor_x c1) 1\<rparr>"
  have "drawn ?c" using c1(2) by simp
  from drawn_push [OF this glyph_ok_u8] obtain c2 where
    c2: "push_to_queue ?c ?ch (cursor_x c1) (cursor_y c1) = Some c2" "drawn c2" "qframe ?c c2"
    by blast
  have "flanterm_fb_raw_putchar c b = Some c2"
    using c1(1) c2(1) by (simp add: flanterm_fb_raw_putchar_def Let_def del: bind_eq_Some_conv)
  moreover have "cframe c c2"
    using c1(3) cframe_qframe [OF c2(3)] by (auto intro: cframe_trans)
  ultimately show ?thesis using c2(2) by blast
qed

section \<open>Properties\<close>

lemma drawn_sample: "drawn (sample_ctx 2 2)"
proof -
  have two: "(x :: nat) < 2 \<longleftrightarrow> x = 0 \<or> x = 1" for x by auto
  have geo: "font_width (sample_ctx 2 2) = 1" "font_height (sample_ctx 2 2) = 1"
    "glyph_width (sample_ctx 2 2) = 1" "glyph_height (sample_ctx 2 2) = 1"
    "font_scale_x (sample_ctx 2 2) = 1" "font_scale_y (sample_ctx 2 2) = 1"
    "offset_x (sample_ctx 2 2) = 0" "offset_y (sample_ctx 2 2) = 0"
    "framebuffer (sample_ctx 2 2) = replicate 4 0" "fb_pitch (sample_ctx 2 2) = 8"
    "fb_width (sample_ctx 2 2) = 2" "fb_height (sample_ctx 2 2) = 2"
    "canvas (sample_ctx 2 2) = replicate 4 0"
    "font_bool (sample_ctx 2 2) = map (\<lambda>i. i \<noteq> 32) [0..<256]"
    by (simp_all add: sample_ctx_def)
  have blank: "\<not> glyph_bit (sample_ctx 2 2) \<lparr>char_c = 32, char_fg = f, char_bg = g\<rparr> 0 0" for f g
    by (simp add: glyph_bit_def geo)
  have shown: "displays (sample_ctx 2 2) \<lparr>char_c = 32, char_fg = 0xaaaaaa, char_bg = 0xffffffff\<rparr> x y"
    if "x < 2" "y < 2" for x y
    using that by (auto simp: two displays_def geo fb_index_def cell_pixel_def canvas_index_def blank)
  have grid: "grid (sample_ctx 2 2) ! (y * 2 + x)
      = \<lparr>char_c = 32, char_fg = 0xaaaaaa, char_bg = 0xffffffff\<rparr>" if "x < 2" "y < 2" for x y
  proof -
    have "y * 2 + x < 4" using that by simp
    then show ?thesis by simp
  qed
  have "draw_wf (sample_ctx 2 2)" by (simp add: draw_wf_def geo)
  moreover have "glyphs_ok (sample_ctx 2 2)" by (simp add: glyphs_ok_def glyph_ok_def)
  ultimately show ?thesis
    using sample_ctx_wf(1) [of 2 2] shown grid
    by (simp add: drawn_def shown_except_def)
qed

text \<open>
  C20: \<open>plot_char_fast\<close>, which only writes the pixels in which the old and the new glyph
  differ, computes the same frame buffer as \<open>plot_char\<close> whenever the cell shows the old
  character and the colours are equal.
\<close>

theorem plot_char_fast_equiv:
  assumes "draw_wf c" "glyph_ok ch" "glyph_ok old" "x < cols c" "y < rows c"
    and "char_fg ch = char_fg old" "char_bg ch = char_bg old" "displays c old x y"
  shows "plot_char_fast c old ch x y = plot_char c ch x y"
  using assms by (rule plot_char_fast_same)

theorem plot_char_fast_equiv_witness:
  "plot_char_fast (sample_ctx 2 2) \<lparr>char_c = 32, char_fg = 0xaaaaaa, char_bg = 0xffffffff\<rparr>
      \<lparr>char_c = 65, char_fg = 0xaaaaaa, char_bg = 0xffffffff\<rparr> 1 1
   = plot_char (sample_ctx 2 2) \<lparr>char_c = 65, char_fg = 0xaaaaaa, char_bg = 0xffffffff\<rparr> 1 1"
proof (rule plot_char_fast_equiv)
  have d: "draw_wf (sample_ctx 2 2)" "shown_except (sample_ctx 2 2) {(0, 0)}"
    using drawn_sample by (simp_all add: drawn_def sample_ctx_def)
  then show "draw_wf (sample_ctx 2 2)" by blast
  have "displays (sample_ctx 2 2) (grid (sample_ctx 2 2) ! 3) 1 1"
    using d(2) unfolding shown_except_def
    by (elim allE [of _ 1]) simp
  then show "displays (sample_ctx 2 2) \<lparr>char_c = 32, char_fg = 0xaaaaaa, char_bg = 0xffffffff\<rparr> 1 1"
    by simp
qed (simp_all add: glyph_ok_def)

text \<open>
  Drawing one character stays inside the frame buffer, the canvas and the font, leaves
  every pixel of the cell as the glyph bitmap and the two colours (the canvas, for the
  transparent colour) say, and changes no pixel outside the cell.
\<close>

theorem plot_char_pixels:
  assumes "draw_wf c" "glyph_ok ch" "x < cols c" "y < rows c"
  shows "\<exists>F. plot_char c ch x y = Some (c\<lparr>framebuffer := F\<rparr>) \<and>
     length F = length (framebuffer c) \<and>
     (\<forall>gx < glyph_width c. \<forall>gy < glyph_height c. F ! fb_index c x y gx gy = cell_pixel c ch x y gx gy) \<and>
     (\<forall>j. (\<forall>gx < glyph_width c. \<forall>gy < glyph_height c. j \<noteq> fb_index c x y gx gy) \<longrightarrow>
        F ! j = framebuffer c ! j)"
proof -
  let ?F = "upds (glyph_writes c ch (\<lambda>_ _. True) x y) (framebuffer c)"
  have "?F ! j = framebuffer c ! j"
    if "\<forall>gx < glyph_width c. \<forall>gy < glyph_height c. j \<noteq> fb_index c x y gx gy" for j
    by (rule upds_other) (use that in \<open>auto simp: set_glyph_writes [OF assms(1)]\<close>, blast)
  then show ?thesis
    using plot_char_writes [OF assms] upds_glyph [OF assms(1,3,4,3,4)] by auto
qed

theorem plot_char_pixels_witness:
  "\<exists>F. plot_char (sample_ctx 2 2) \<lparr>char_c = 65, char_fg = 7, char_bg = 9\<rparr> 1 1
     = Some ((sample_ctx 2 2)\<lparr>framebuffer := F\<rparr>) \<and> length F = 4"
  using plot_char_pixels [of "sample_ctx 2 2" "\<lparr>char_c = 65, char_fg = 7, char_bg = 9\<rparr>" 1 1]
    drawn_sample
  by (auto simp: drawn_def glyph_ok_def sample_ctx_def)

text \<open>
  C10: \<open>flanterm_fb_double_buffer_flush\<close> brings the logical screen to the display. It never
  leaves an array, empties the queue, makes the grid the screen without changing the screen,
  changes nothing else of the context, and afterwards every cell of the frame buffer shows
  its character, pixel by pixel, with swapped colours in the cell of an enabled cursor.
\<close>

theorem flush_renders:
  assumes "drawn c"
  shows "\<exists>c'. flanterm_fb_double_buffer_flush c = Some c' \<and> drawn c' \<and>
     screen c' = screen c \<and> grid c' = screen c \<and> queue_i c' = 0 \<and>
     (\<forall>i < rows c * cols c. fb_map c' ! i = None) \<and> forget_draw c' = forget_draw c \<and>
     (\<forall>x < cols c. \<forall>y < rows c. displays c' (cell_shown c x y) x y)"
  using flush_ok [OF assms] by (auto simp: dframe_def)

theorem flush_renders_witness:
  "\<exists>c c'. push_to_queue (sample_ctx 2 2) \<lparr>char_c = 65, char_fg = 7, char_bg = 9\<rparr> 1 1 = Some c \<and>
     flanterm_fb_double_buffer_flush c = Some c' \<and>
     grid c' ! 3 = \<lparr>char_c = 65, char_fg = 7, char_bg = 9\<rparr>"
proof -
  let ?ch = "\<lparr>char_c = 65, char_fg = 7, char_bg = 9\<rparr> :: flanterm_fb_char"
  obtain c where c: "push_to_queue (sample_ctx 2 2) ?ch 1 1 = Some c" "drawn c"
    using drawn_push [OF drawn_sample, of ?ch 1 1] by (auto simp: glyph_ok_def)
  have "screen c ! 3 = ?ch"
    using push_to_queue_ok [OF drawn_wf [OF drawn_sample], of ?ch 1 1] c(1) by auto
  with flush_renders [OF c(2)] c(1) show ?thesis by metis
qed

text \<open>
  C33: \<open>flanterm_fb_full_refresh\<close> repaints every cell from the grid: whatever the frame
  buffer held, afterwards each cell shows its character, the cursor cell inverted, and the
  logical screen has not changed. The geometry is that of a built terminal and the characters are
  glyphs of the font; the pixels beside the cells are not part of the statement.
\<close>

theorem full_refresh_repaints:
  assumes "draw_wf c" "fb_wf c" "glyphs_ok c"
  shows "\<exists>c'. flanterm_fb_full_refresh c = Some c' \<and> screen c' = screen c \<and>
     (\<forall>x < cols c. \<forall>y < rows c. \<not> (cursor_enabled c \<and> x = cursor_x c \<and> y = cursor_y c) \<longrightarrow>
        displays c' (grid c' ! (y * cols c + x)) x y) \<and>
     (cursor_enabled c \<and> cursor_x c < cols c \<and> cursor_y c < rows c \<longrightarrow>
        displays c' (invert (screen c ! (cursor_y c * cols c + cursor_x c))) (cursor_x c) (cursor_y c))"
proof -
  have ok: "draw_ok c" using assms by (simp add: draw_ok_def pending_wf_queue)
  from full_refresh_ok [OF ok] obtain c' where c': "flanterm_fb_full_refresh c = Some c'"
    "screen c' = screen c" "dframe c c'"
    "shown_except c' (if cursor_enabled c then {(cursor_x c, cursor_y c)} else {})"
    "cursor_enabled c \<longrightarrow> cursor_x c < cols c \<longrightarrow> cursor_y c < rows c \<longrightarrow>
       displays c' (invert (screen c ! (cursor_y c * cols c + cursor_x c))) (cursor_x c) (cursor_y c)"
    by blast
  then show ?thesis
    using dframe_geom [OF c'(3)] by (intro exI [of _ c']) (auto simp: shown_except_def split: if_splits)
qed

theorem full_refresh_repaints_witness:
  "\<exists>c'. flanterm_fb_full_refresh (sample_ctx 2 2) = Some c' \<and> screen c' = screen (sample_ctx 2 2)"
  using full_refresh_repaints [of "sample_ctx 2 2"] drawn_sample by (auto simp: drawn_def)

end
