(* ===== verification/Flanterm_Tables.thy ===== *)
theory Flanterm_Tables
  imports Flanterm_State
begin

text \<open>
  The tables of \<open>kernel/flanterm/flanterm.c\<close> and the functions that search them: the 256-colour
  palette, the DEC special graphics, the display width of a code point with its binary search,
  and the translation of code points to the glyph numbers of the font. The locale
  \<open>interval_table\<close> states what the binary search needs of a table.
\<close>

section \<open>Tables\<close>

definition col256 :: "u32 list" where
  "col256 = [
    0x000000, 0x00005f, 0x000087, 0x0000af, 0x0000d7, 0x0000ff, 0x005f00, 0x005f5f,
    0x005f87, 0x005faf, 0x005fd7, 0x005fff, 0x008700, 0x00875f, 0x008787, 0x0087af,
    0x0087d7, 0x0087ff, 0x00af00, 0x00af5f, 0x00af87, 0x00afaf, 0x00afd7, 0x00afff,
    0x00d700, 0x00d75f, 0x00d787, 0x00d7af, 0x00d7d7, 0x00d7ff, 0x00ff00, 0x00ff5f,
    0x00ff87, 0x00ffaf, 0x00ffd7, 0x00ffff, 0x5f0000, 0x5f005f, 0x5f0087, 0x5f00af,
    0x5f00d7, 0x5f00ff, 0x5f5f00, 0x5f5f5f, 0x5f5f87, 0x5f5faf, 0x5f5fd7, 0x5f5fff,
    0x5f8700, 0x5f875f, 0x5f8787, 0x5f87af, 0x5f87d7, 0x5f87ff, 0x5faf00, 0x5faf5f,
    0x5faf87, 0x5fafaf, 0x5fafd7, 0x5fafff, 0x5fd700, 0x5fd75f, 0x5fd787, 0x5fd7af,
    0x5fd7d7, 0x5fd7ff, 0x5fff00, 0x5fff5f, 0x5fff87, 0x5fffaf, 0x5fffd7, 0x5fffff,
    0x870000, 0x87005f, 0x870087, 0x8700af, 0x8700d7, 0x8700ff, 0x875f00, 0x875f5f,
    0x875f87, 0x875faf, 0x875fd7, 0x875fff, 0x878700, 0x87875f, 0x878787, 0x8787af,
    0x8787d7, 0x8787ff, 0x87af00, 0x87af5f, 0x87af87, 0x87afaf, 0x87afd7, 0x87afff,
    0x87d700, 0x87d75f, 0x87d787, 0x87d7af, 0x87d7d7, 0x87d7ff, 0x87ff00, 0x87ff5f,
    0x87ff87, 0x87ffaf, 0x87ffd7, 0x87ffff, 0xaf0000, 0xaf005f, 0xaf0087, 0xaf00af,
    0xaf00d7, 0xaf00ff, 0xaf5f00, 0xaf5f5f, 0xaf5f87, 0xaf5faf, 0xaf5fd7, 0xaf5fff,
    0xaf8700, 0xaf875f, 0xaf8787, 0xaf87af, 0xaf87d7, 0xaf87ff, 0xafaf00, 0xafaf5f,
    0xafaf87, 0xafafaf, 0xafafd7, 0xafafff, 0xafd700, 0xafd75f, 0xafd787, 0xafd7af,
    0xafd7d7, 0xafd7ff, 0xafff00, 0xafff5f, 0xafff87, 0xafffaf, 0xafffd7, 0xafffff,
    0xd70000, 0xd7005f, 0xd70087, 0xd700af, 0xd700d7, 0xd700ff, 0xd75f00, 0xd75f5f,
    0xd75f87, 0xd75faf, 0xd75fd7, 0xd75fff, 0xd78700, 0xd7875f, 0xd78787, 0xd787af,
    0xd787d7, 0xd787ff, 0xd7af00, 0xd7af5f, 0xd7af87, 0xd7afaf, 0xd7afd7, 0xd7afff,
    0xd7d700, 0xd7d75f, 0xd7d787, 0xd7d7af, 0xd7d7d7, 0xd7d7ff, 0xd7ff00, 0xd7ff5f,
    0xd7ff87, 0xd7ffaf, 0xd7ffd7, 0xd7ffff, 0xff0000, 0xff005f, 0xff0087, 0xff00af,
    0xff00d7, 0xff00ff, 0xff5f00, 0xff5f5f, 0xff5f87, 0xff5faf, 0xff5fd7, 0xff5fff,
    0xff8700, 0xff875f, 0xff8787, 0xff87af, 0xff87d7, 0xff87ff, 0xffaf00, 0xffaf5f,
    0xffaf87, 0xffafaf, 0xffafd7, 0xffafff, 0xffd700, 0xffd75f, 0xffd787, 0xffd7af,
    0xffd7d7, 0xffd7ff, 0xffff00, 0xffff5f, 0xffff87, 0xffffaf, 0xffffd7, 0xffffff,
    0x080808, 0x121212, 0x1c1c1c, 0x262626, 0x303030, 0x3a3a3a, 0x444444, 0x4e4e4e,
    0x585858, 0x626262, 0x6c6c6c, 0x767676, 0x808080, 0x8a8a8a, 0x949494, 0x9e9e9e,
    0xa8a8a8, 0xb2b2b2, 0xbcbcbc, 0xc6c6c6, 0xd0d0d0, 0xdadada, 0xe4e4e4, 0xeeeeee
  ]"

definition combining :: "(u32 \<times> u32) list" where
  "combining = [
    (0x0300, 0x036F), (0x0483, 0x0486), (0x0488, 0x0489), (0x0591, 0x05BD),
    (0x05BF, 0x05BF), (0x05C1, 0x05C2), (0x05C4, 0x05C5), (0x05C7, 0x05C7),
    (0x0600, 0x0603), (0x0610, 0x0615), (0x064B, 0x065E), (0x0670, 0x0670),
    (0x06D6, 0x06E4), (0x06E7, 0x06E8), (0x06EA, 0x06ED), (0x070F, 0x070F),
    (0x0711, 0x0711), (0x0730, 0x074A), (0x07A6, 0x07B0), (0x07EB, 0x07F3),
    (0x0901, 0x0902), (0x093C, 0x093C), (0x0941, 0x0948), (0x094D, 0x094D),
    (0x0951, 0x0954), (0x0962, 0x0963), (0x0981, 0x0981), (0x09BC, 0x09BC),
    (0x09C1, 0x09C4), (0x09CD, 0x09CD), (0x09E2, 0x09E3), (0x0A01, 0x0A02),
    (0x0A3C, 0x0A3C), (0x0A41, 0x0A42), (0x0A47, 0x0A48), (0x0A4B, 0x0A4D),
    (0x0A70, 0x0A71), (0x0A81, 0x0A82), (0x0ABC, 0x0ABC), (0x0AC1, 0x0AC5),
    (0x0AC7, 0x0AC8), (0x0ACD, 0x0ACD), (0x0AE2, 0x0AE3), (0x0B01, 0x0B01),
    (0x0B3C, 0x0B3C), (0x0B3F, 0x0B3F), (0x0B41, 0x0B43), (0x0B4D, 0x0B4D),
    (0x0B56, 0x0B56), (0x0B82, 0x0B82), (0x0BC0, 0x0BC0), (0x0BCD, 0x0BCD),
    (0x0C3E, 0x0C40), (0x0C46, 0x0C48), (0x0C4A, 0x0C4D), (0x0C55, 0x0C56),
    (0x0CBC, 0x0CBC), (0x0CBF, 0x0CBF), (0x0CC6, 0x0CC6), (0x0CCC, 0x0CCD),
    (0x0CE2, 0x0CE3), (0x0D41, 0x0D43), (0x0D4D, 0x0D4D), (0x0DCA, 0x0DCA),
    (0x0DD2, 0x0DD4), (0x0DD6, 0x0DD6), (0x0E31, 0x0E31), (0x0E34, 0x0E3A),
    (0x0E47, 0x0E4E), (0x0EB1, 0x0EB1), (0x0EB4, 0x0EB9), (0x0EBB, 0x0EBC),
    (0x0EC8, 0x0ECD), (0x0F18, 0x0F19), (0x0F35, 0x0F35), (0x0F37, 0x0F37),
    (0x0F39, 0x0F39), (0x0F71, 0x0F7E), (0x0F80, 0x0F84), (0x0F86, 0x0F87),
    (0x0F90, 0x0F97), (0x0F99, 0x0FBC), (0x0FC6, 0x0FC6), (0x102D, 0x1030),
    (0x1032, 0x1032), (0x1036, 0x1037), (0x1039, 0x1039), (0x1058, 0x1059),
    (0x1160, 0x11FF), (0x135F, 0x135F), (0x1712, 0x1714), (0x1732, 0x1734),
    (0x1752, 0x1753), (0x1772, 0x1773), (0x17B4, 0x17B5), (0x17B7, 0x17BD),
    (0x17C6, 0x17C6), (0x17C9, 0x17D3), (0x17DD, 0x17DD), (0x180B, 0x180D),
    (0x18A9, 0x18A9), (0x1920, 0x1922), (0x1927, 0x1928), (0x1932, 0x1932),
    (0x1939, 0x193B), (0x1A17, 0x1A18), (0x1B00, 0x1B03), (0x1B34, 0x1B34),
    (0x1B36, 0x1B3A), (0x1B3C, 0x1B3C), (0x1B42, 0x1B42), (0x1B6B, 0x1B73),
    (0x1DC0, 0x1DCA), (0x1DFE, 0x1DFF), (0x200B, 0x200F), (0x202A, 0x202E),
    (0x2060, 0x2063), (0x206A, 0x206F), (0x20D0, 0x20EF), (0x302A, 0x302F),
    (0x3099, 0x309A), (0xA806, 0xA806), (0xA80B, 0xA80B), (0xA825, 0xA826),
    (0xFB1E, 0xFB1E), (0xFE00, 0xFE0F), (0xFE20, 0xFE23), (0xFEFF, 0xFEFF),
    (0xFFF9, 0xFFFB), (0x10A01, 0x10A03), (0x10A05, 0x10A06), (0x10A0C, 0x10A0F),
    (0x10A38, 0x10A3A), (0x10A3F, 0x10A3F), (0x1D167, 0x1D169), (0x1D173, 0x1D182),
    (0x1D185, 0x1D18B), (0x1D1AA, 0x1D1AD), (0x1D242, 0x1D244), (0xE0001, 0xE0001),
    (0xE0020, 0xE007F), (0xE0100, 0xE01EF)
  ]"

definition cp437_cases :: "(u64 \<times> int) list" where
  "cp437_cases = [
    (0x263a, 1), (0x263b, 2), (0x2665, 3), (0x2666, 4), (0x2663, 5), (0x2660, 6),
    (0x2022, 7), (0x25d8, 8), (0x25cb, 9), (0x25d9, 10), (0x2642, 11), (0x2640, 12),
    (0x266a, 13), (0x266b, 14), (0x263c, 15), (0x25ba, 16), (0x25c4, 17), (0x2195, 18),
    (0x203c, 19), (0x00b6, 20), (0x00a7, 21), (0x25ac, 22), (0x21a8, 23), (0x2191, 24),
    (0x2193, 25), (0x2192, 26), (0x2190, 27), (0x221f, 28), (0x2194, 29), (0x25b2, 30),
    (0x25bc, 31), (0x2302, 127), (0x00c7, 128), (0x00fc, 129), (0x00e9, 130), (0x00e2, 131),
    (0x00e4, 132), (0x00e0, 133), (0x00e5, 134), (0x00e7, 135), (0x00ea, 136), (0x00eb, 137),
    (0x00e8, 138), (0x00ef, 139), (0x00ee, 140), (0x00ec, 141), (0x00c4, 142), (0x00c5, 143),
    (0x00c9, 144), (0x00e6, 145), (0x00c6, 146), (0x00f4, 147), (0x00f6, 148), (0x00f2, 149),
    (0x00fb, 150), (0x00f9, 151), (0x00ff, 152), (0x00d6, 153), (0x00dc, 154), (0x00a2, 155),
    (0x00a3, 156), (0x00a5, 157), (0x20a7, 158), (0x0192, 159), (0x00e1, 160), (0x00ed, 161),
    (0x00f3, 162), (0x00fa, 163), (0x00f1, 164), (0x00d1, 165), (0x00aa, 166), (0x00ba, 167),
    (0x00bf, 168), (0x2310, 169), (0x00ac, 170), (0x00bd, 171), (0x00bc, 172), (0x00a1, 173),
    (0x00ab, 174), (0x00bb, 175), (0x2591, 176), (0x2592, 177), (0x2593, 178), (0x2502, 179),
    (0x2524, 180), (0x2561, 181), (0x2562, 182), (0x2556, 183), (0x2555, 184), (0x2563, 185),
    (0x2551, 186), (0x2557, 187), (0x255d, 188), (0x255c, 189), (0x255b, 190), (0x2510, 191),
    (0x2514, 192), (0x2534, 193), (0x252c, 194), (0x251c, 195), (0x2500, 196), (0x253c, 197),
    (0x255e, 198), (0x255f, 199), (0x255a, 200), (0x2554, 201), (0x2569, 202), (0x2566, 203),
    (0x2560, 204), (0x2550, 205), (0x256c, 206), (0x2567, 207), (0x2568, 208), (0x2564, 209),
    (0x2565, 210), (0x2559, 211), (0x2558, 212), (0x2552, 213), (0x2553, 214), (0x256b, 215),
    (0x256a, 216), (0x2518, 217), (0x250c, 218), (0x2588, 219), (0x2584, 220), (0x258c, 221),
    (0x2590, 222), (0x2580, 223), (0x03b1, 224), (0x00df, 225), (0x0393, 226), (0x03c0, 227),
    (0x03a3, 228), (0x03c3, 229), (0x00b5, 230), (0x03c4, 231), (0x03a6, 232), (0x0398, 233),
    (0x03a9, 234), (0x03b4, 235), (0x221e, 236), (0x03c6, 237), (0x03b5, 238), (0x2229, 239),
    (0x2261, 240), (0x00b1, 241), (0x2265, 242), (0x2264, 243), (0x2320, 244), (0x2321, 245),
    (0x00f7, 246), (0x2248, 247), (0x00b0, 248), (0x2219, 249), (0x00b7, 250), (0x221a, 251),
    (0x207f, 252), (0x00b2, 253), (0x25a0, 254)
  ]"

definition dec_special_cases :: "(u8 \<times> u8) list" where
  "dec_special_cases = [
    (0x60, 0x04), (0x30, 0xdb), (0x2d, 0x18), (0x2c, 0x1b), (0x2e, 0x19), (0x61, 0xb1),
    (0x66, 0xf8), (0x67, 0xf1), (0x68, 0xb0), (0x6a, 0xd9), (0x6b, 0xbf), (0x6c, 0xda),
    (0x6d, 0xc0), (0x6e, 0xc5), (0x71, 0xc4), (0x73, 0x5f), (0x74, 0xc3), (0x75, 0xb4),
    (0x76, 0xc1), (0x77, 0xc2), (0x78, 0xb3), (0x79, 0xf3), (0x7a, 0xf2), (0x7e, 0xfa),
    (0x5f, 0xff), (0x2b, 0x1a), (0x7b, 0xe3), (0x7d, 0x9c)
  ]"

section \<open>Binary search and display width\<close>

function bisearch_loop :: "u32 \<Rightarrow> (u32 \<times> u32) list \<Rightarrow> int \<Rightarrow> int \<Rightarrow> int option" where
  "bisearch_loop ucs tbl lo hi =
     (if lo \<le> hi then
        let mid = (lo + hi) div 2
        in case (if 0 \<le> mid then aget tbl (nat mid) else None) of
             None \<Rightarrow> None
           | Some iv \<Rightarrow>
               if snd iv < ucs then bisearch_loop ucs tbl (mid + 1) hi
               else if ucs < fst iv then bisearch_loop ucs tbl lo (mid - 1)
               else Some 1
      else Some 0)"
  by pat_completeness auto

termination
  by (relation "measure (\<lambda>(_, _, lo, hi). nat (hi - lo + 1))") auto

declare bisearch_loop.simps [simp del]

definition bisearch :: "u32 \<Rightarrow> (u32 \<times> u32) list \<Rightarrow> int \<Rightarrow> int option" where
  "bisearch ucs tbl hi = do {
     lowest \<leftarrow> aget tbl 0;
     highest \<leftarrow> (if 0 \<le> hi then aget tbl (nat hi) else None);
     if ucs < fst lowest \<or> snd highest < ucs then Some 0
     else bisearch_loop ucs tbl 0 hi
   }"

definition wide :: "u32 \<Rightarrow> bool" where
  "wide ucs \<longleftrightarrow> 0x1100 \<le> ucs \<and>
     (ucs \<le> 0x115f \<or> ucs = 0x2329 \<or> ucs = 0x232a \<or>
      (0x2e80 \<le> ucs \<and> ucs \<le> 0xa4cf \<and> ucs \<noteq> 0x303f) \<or>
      (0xac00 \<le> ucs \<and> ucs \<le> 0xd7a3) \<or>
      (0xf900 \<le> ucs \<and> ucs \<le> 0xfaff) \<or>
      (0xfe10 \<le> ucs \<and> ucs \<le> 0xfe19) \<or>
      (0xfe30 \<le> ucs \<and> ucs \<le> 0xfe6f) \<or>
      (0xff00 \<le> ucs \<and> ucs \<le> 0xff60) \<or>
      (0xffe0 \<le> ucs \<and> ucs \<le> 0xffe6) \<or>
      (0x20000 \<le> ucs \<and> ucs \<le> 0x2fffd) \<or>
      (0x30000 \<le> ucs \<and> ucs \<le> 0x3fffd))"

definition mk_wcwidth :: "u32 \<Rightarrow> int option" where
  "mk_wcwidth ucs =
     (if ucs = 0 then Some 0
      else if ucs < 32 \<or> (0x7f \<le> ucs \<and> ucs < 0xa0) then Some 1
      else do {
        found \<leftarrow> bisearch ucs combining (int (length combining) - 1);
        Some (if found \<noteq> 0 then 0 else 1 + (if wide ucs then 1 else 0))
      })"

definition unicode_to_cp437 :: "u64 \<Rightarrow> int" where
  "unicode_to_cp437 cp =
     (case map_of cp437_cases cp of Some v \<Rightarrow> v | None \<Rightarrow> - 1)"

section \<open>The binary search is correct\<close>

text \<open>Non-empty intervals in increasing order.\<close>

fun ordered_intervals :: "('a :: linorder \<times> 'a) list \<Rightarrow> bool" where
  "ordered_intervals [] = True"
| "ordered_intervals [(a, b)] = (a \<le> b)"
| "ordered_intervals ((a, b) # (c, d) # ivs) = (a \<le> b \<and> b < c \<and> ordered_intervals ((c, d) # ivs))"

definition in_intervals :: "('a :: linorder \<times> 'a) list \<Rightarrow> 'a \<Rightarrow> bool" where
  "in_intervals ivs v \<longleftrightarrow> (\<exists>(a, b) \<in> set ivs. a \<le> v \<and> v \<le> b)"

lemma ordered_intervals_tl: "ordered_intervals (iv # ivs) \<Longrightarrow> ordered_intervals ivs"
  by (cases ivs; cases iv) auto

lemma ordered_intervals_hd:
  "ordered_intervals (iv # ivs) \<Longrightarrow> fst iv \<le> snd iv \<and> (\<forall>iv' \<in> set ivs. snd iv < fst iv')"
proof (induction ivs arbitrary: iv)
  case Nil
  then show ?case by (cases iv) auto
next
  case (Cons jv ivs)
  obtain a b c d where eq: "iv = (a, b)" "jv = (c, d)" by (cases iv; cases jv)
  with Cons.prems have le: "a \<le> b" "b < c" "ordered_intervals (jv # ivs)" by auto
  from Cons.IH [OF le(3)] le eq show ?case by fastforce
qed

lemma ordered_intervals_nth:
  "ordered_intervals ivs \<Longrightarrow> i < length ivs \<Longrightarrow> fst (ivs ! i) \<le> snd (ivs ! i)"
  and ordered_intervals_less:
  "ordered_intervals ivs \<Longrightarrow> i < j \<Longrightarrow> j < length ivs \<Longrightarrow> snd (ivs ! i) < fst (ivs ! j)"
proof -
  show "ordered_intervals ivs \<Longrightarrow> i < length ivs \<Longrightarrow> fst (ivs ! i) \<le> snd (ivs ! i)"
    by (induction ivs arbitrary: i)
      (auto simp: nth_Cons dest: ordered_intervals_tl ordered_intervals_hd split: nat.split)
  show "ordered_intervals ivs \<Longrightarrow> i < j \<Longrightarrow> j < length ivs \<Longrightarrow> snd (ivs ! i) < fst (ivs ! j)"
  proof (induction ivs arbitrary: i j)
    case (Cons iv ivs)
    then obtain j' where "j = Suc j'" by (cases j) auto
    with Cons ordered_intervals_tl [OF Cons.prems(1)] ordered_intervals_hd [OF Cons.prems(1)]
    show ?case by (cases i) auto
  qed simp
qed

locale interval_table =
  fixes tbl :: "(u32 \<times> u32) list"
  assumes nonempty: "tbl \<noteq> []"
    and ordered: "ordered_intervals tbl"
begin

lemma bisearch_loop_finds:
  assumes "0 \<le> lo" "hi < int (length tbl)" "lo \<le> hi + 1"
    and below: "\<And>i. int i < lo \<Longrightarrow> snd (tbl ! i) < ucs"
    and above: "\<And>i. hi < int i \<Longrightarrow> i < length tbl \<Longrightarrow> ucs < fst (tbl ! i)"
  shows "bisearch_loop ucs tbl lo hi = Some (if in_intervals tbl ucs then 1 else 0)"
  using assms
proof (induction "nat (hi - lo + 1)" arbitrary: lo hi rule: less_induct)
  case less
  show ?case
  proof (cases "lo \<le> hi")
    case False
    have "\<not> in_intervals tbl ucs"
      unfolding in_intervals_def
    proof
      assume "\<exists>(a, b) \<in> set tbl. a \<le> ucs \<and> ucs \<le> b"
      then obtain i where i: "i < length tbl" "fst (tbl ! i) \<le> ucs" "ucs \<le> snd (tbl ! i)"
        by (auto simp: in_set_conv_nth)
      show False
        using less.prems(4) [of i] less.prems(5) [of i] i False by (cases "int i < lo") auto
    qed
    with False show ?thesis by (subst bisearch_loop.simps) simp
  next
    case True
    let ?mid = "(lo + hi) div 2"
    have mid: "0 \<le> ?mid" "lo \<le> ?mid" "?mid \<le> hi" "nat ?mid < length tbl"
      using True less.prems(1,2) by auto
    let ?iv = "tbl ! nat ?mid"
    consider "snd ?iv < ucs" | "\<not> snd ?iv < ucs" "ucs < fst ?iv" | "fst ?iv \<le> ucs" "ucs \<le> snd ?iv"
      by fastforce
    then show ?thesis
    proof cases
      case 1
      have "snd (tbl ! i) < ucs" if "int i < ?mid + 1" for i
      proof (cases "int i = ?mid")
        case False
        then have "i < nat ?mid" using that by auto
        from ordered_intervals_less [OF ordered this mid(4)] ordered_intervals_nth [OF ordered mid(4)] 1
        show ?thesis by order
      next
        case True
        then have "i = nat ?mid" by simp
        with 1 show ?thesis by simp
      qed
      then have "bisearch_loop ucs tbl (?mid + 1) hi = Some (if in_intervals tbl ucs then 1 else 0)"
        using less.prems mid by (intro less.hyps) auto
      with True 1 mid show ?thesis by (subst bisearch_loop.simps) (simp add: Let_def)
    next
      case 2
      have "ucs < fst (tbl ! i)" if "?mid - 1 < int i" "i < length tbl" for i
      proof (cases "int i = ?mid")
        case False
        then have "nat ?mid < i" using that mid by auto
        from ordered_intervals_less [OF ordered this that(2)] ordered_intervals_nth [OF ordered mid(4)] 2
        show ?thesis by order
      next
        case True
        then have "i = nat ?mid" by simp
        with 2 show ?thesis by simp
      qed
      then have "bisearch_loop ucs tbl lo (?mid - 1) = Some (if in_intervals tbl ucs then 1 else 0)"
        using less.prems mid by (intro less.hyps) auto
      with True 2 mid show ?thesis by (subst bisearch_loop.simps) (simp add: Let_def)
    next
      case 3
      then have "in_intervals tbl ucs"
        unfolding in_intervals_def using mid(4) nth_mem by fastforce
      moreover have "\<not> snd ?iv < ucs" "\<not> ucs < fst ?iv" using 3 by order+
      ultimately show ?thesis
        using True mid by (subst bisearch_loop.simps) (simp add: Let_def)
    qed
  qed
qed

lemma bisearch_finds:
  "bisearch ucs tbl (int (length tbl) - 1) = Some (if in_intervals tbl ucs then 1 else 0)"
proof -
  let ?n = "length tbl"
  have n: "0 < ?n" "nat (int ?n - 1) = ?n - 1" using nonempty by auto
  have out: "\<not> in_intervals tbl ucs" if "ucs < fst (tbl ! 0) \<or> snd (tbl ! (?n - 1)) < ucs"
  proof
    assume "in_intervals tbl ucs"
    then obtain i where i: "i < ?n" "fst (tbl ! i) \<le> ucs" "ucs \<le> snd (tbl ! i)"
      unfolding in_intervals_def by (auto simp: in_set_conv_nth)
    have "fst (tbl ! 0) \<le> fst (tbl ! i)"
      using ordered_intervals_less [OF ordered _ i(1), of 0] ordered_intervals_nth [OF ordered n(1)]
      by (cases "i = 0") auto
    moreover have "snd (tbl ! i) \<le> snd (tbl ! (?n - 1))"
    proof (cases "i = ?n - 1")
      case False
      then have "i < ?n - 1" "?n - 1 < ?n" using i(1) by linarith+
      from ordered_intervals_less [OF ordered this] ordered_intervals_nth [OF ordered this(2)]
      show ?thesis by order
    qed simp
    ultimately show False using that i by auto
  qed
  have "bisearch_loop ucs tbl 0 (int ?n - 1) = Some (if in_intervals tbl ucs then 1 else 0)"
    using n by (intro bisearch_loop_finds) auto
  then show ?thesis using n out by (auto simp: bisearch_def)
qed

end

interpretation combining_table: interval_table combining
  by unfold_locales (simp_all add: combining_def)

lemma mk_wcwidth_eq:
  "mk_wcwidth ucs = Some (if ucs = 0 then 0
     else if ucs < 32 \<or> (0x7f \<le> ucs \<and> ucs < 0xa0) then 1
     else if in_intervals combining ucs then 0 else if wide ucs then 2 else 1)"
  by (simp add: mk_wcwidth_def combining_table.bisearch_finds)

section \<open>The glyph table is a bijection\<close>

lemma cp437_glyphs: "map snd cp437_cases = [1..31] @ [127..254]"
  unfolding cp437_cases_def list.map snd_conv by (simp add: upto.simps)

lemma cp437_distinct: "distinct (map fst cp437_cases)"
proof -
  have "distinct (map uint (map fst cp437_cases))"
    unfolding cp437_cases_def list.map fst_conv by simp
  then show ?thesis by (rule distinct_map [THEN iffD1, THEN conjunct1])
qed

lemma cp437_map_of:
  "map_of cp437_cases cp = Some v \<longleftrightarrow> (cp, v) \<in> set cp437_cases"
  by (rule map_of_eq_Some_iff [OF cp437_distinct])

lemma cp437_range: "(cp, v) \<in> set cp437_cases \<Longrightarrow> v \<in> {1..31} \<union> {127..254}"
proof -
  assume "(cp, v) \<in> set cp437_cases"
  then have "v \<in> set (map snd cp437_cases)" by force
  then show ?thesis unfolding cp437_glyphs set_append set_upto .
qed

lemma cp437_key_unique:
  assumes "(a, v) \<in> set cp437_cases" "(b, v) \<in> set cp437_cases"
  shows "a = b"
proof -
  have "distinct (map snd cp437_cases)" unfolding cp437_glyphs by simp
  then have "inj_on snd (set cp437_cases)" by (simp add: distinct_map)
  from inj_onD [OF this, of "(a, v)" "(b, v)"] assms show ?thesis by simp
qed

lemma unicode_to_cp437_eq: "v \<noteq> - 1 \<Longrightarrow> unicode_to_cp437 cp = v \<longleftrightarrow> (cp, v) \<in> set cp437_cases"
  unfolding cp437_map_of [symmetric] unicode_to_cp437_def by (auto split: option.split)

lemma unicode_to_cp437_range: "unicode_to_cp437 cp = - 1 \<or> unicode_to_cp437 cp \<in> {1..31} \<union> {127..254}"
  using cp437_range unicode_to_cp437_eq by blast

section \<open>Properties\<close>

text \<open>
  C39: the binary search over the table of combining characters always ends, never reads outside
  the table, and finds exactly the code points of its 142 intervals; the display width of a code
  point is 0 for NUL and combining characters, 2 for the wide ranges and 1 otherwise.
\<close>

theorem mk_wcwidth_correct:
  "bisearch ucs combining (int (length combining) - 1)
     = Some (if \<exists>(first, last) \<in> set combining. first \<le> ucs \<and> ucs \<le> last then 1 else 0) \<and>
   mk_wcwidth ucs = Some (if ucs = 0 then 0
     else if ucs < 32 \<or> (0x7f \<le> ucs \<and> ucs < 0xa0) then 1
     else if \<exists>(first, last) \<in> set combining. first \<le> ucs \<and> ucs \<le> last then 0
     else if wide ucs then 2 else 1)"
  using combining_table.bisearch_finds mk_wcwidth_eq by (simp add: in_intervals_def)

text \<open>
  The translation to font glyphs is a bijection between the code points the switch lists
  and the glyphs 1 to 31 and 127 to 254: it never yields a printable ASCII glyph, no two code
  points share a glyph, and each of those glyphs has a code point. Every other code point
  gives -1.
\<close>

theorem unicode_to_cp437_bijection:
  "bij_betw unicode_to_cp437 {cp. unicode_to_cp437 cp \<noteq> - 1} ({1..31} \<union> {127..254})"
proof (rule bij_betwI')
  fix a b
  assume "a \<in> {cp. unicode_to_cp437 cp \<noteq> - 1}" "b \<in> {cp. unicode_to_cp437 cp \<noteq> - 1}"
  then have "(a, unicode_to_cp437 a) \<in> set cp437_cases" "(b, unicode_to_cp437 b) \<in> set cp437_cases"
    by (simp_all add: unicode_to_cp437_eq [symmetric])
  then show "(unicode_to_cp437 a = unicode_to_cp437 b) = (a = b)"
    using cp437_key_unique [of a "unicode_to_cp437 a" b] by auto
next
  fix a assume "a \<in> {cp. unicode_to_cp437 cp \<noteq> - 1}"
  then show "unicode_to_cp437 a \<in> {1..31} \<union> {127..254}" using unicode_to_cp437_range by blast
next
  fix v :: int assume v: "v \<in> {1..31} \<union> {127..254}"
  then have "v \<in> set (map snd cp437_cases)" unfolding cp437_glyphs set_append set_upto .
  then obtain a where "(a, v) \<in> set cp437_cases" unfolding set_map by force
  moreover have "v \<noteq> - 1" using v by auto
  ultimately have "unicode_to_cp437 a = v" "v \<noteq> - 1" using unicode_to_cp437_eq by blast+
  then show "\<exists>a \<in> {cp. unicode_to_cp437 cp \<noteq> - 1}. v = unicode_to_cp437 a" by blast
qed

end
