(* ===== verification/Flanterm_Term.thy ===== *)
theory Flanterm_Term
  imports FB_Draw Flanterm_Tables
begin

text \<open>
  The invariant of the whole terminal, which every operation of
  \<open>kernel/flanterm/flanterm.c\<close> keeps: the drawing invariant of the frame buffer, scroll
  margins that enclose at least one row, parser registers inside their arrays, and palette
  indices that are colours or \<open>(size_t)-1\<close>. The lemmas of this theory say which updates
  of the context touch which part of it. The locale \<open>terminal_backend\<close> is the interface the
  interpreter has to its backend, with the loops over its calls; it is interpreted on the functions
  of \<open>fb.c\<close>.
\<close>

section \<open>The drawing half ignores the terminal registers\<close>

lemma drawn_upd [simp]:
  "drawn (c\<lparr>tab_size := a1\<rparr>) = drawn c" "drawn (c\<lparr>autoflush := a2\<rparr>) = drawn c"
  "drawn (c\<lparr>cursor_enabled := a3\<rparr>) = drawn c" "drawn (c\<lparr>scroll_enabled := a4\<rparr>) = drawn c"
  "drawn (c\<lparr>control_sequence := a5\<rparr>) = drawn c" "drawn (c\<lparr>csi := a6\<rparr>) = drawn c"
  "drawn (c\<lparr>escape := a7\<rparr>) = drawn c" "drawn (c\<lparr>osc := a8\<rparr>) = drawn c"
  "drawn (c\<lparr>osc_escape := a9\<rparr>) = drawn c" "drawn (c\<lparr>rrr := a10\<rparr>) = drawn c"
  "drawn (c\<lparr>discard_next := a11\<rparr>) = drawn c" "drawn (c\<lparr>bold := a12\<rparr>) = drawn c"
  "drawn (c\<lparr>bg_bold := a13\<rparr>) = drawn c" "drawn (c\<lparr>reverse_video := a14\<rparr>) = drawn c"
  "drawn (c\<lparr>dec_private := a15\<rparr>) = drawn c" "drawn (c\<lparr>insert_mode := a16\<rparr>) = drawn c"
  "drawn (c\<lparr>code_point := a17\<rparr>) = drawn c" "drawn (c\<lparr>unicode_remaining := a18\<rparr>) = drawn c"
  "drawn (c\<lparr>g_select := a19\<rparr>) = drawn c" "drawn (c\<lparr>charsets := a20\<rparr>) = drawn c"
  "drawn (c\<lparr>current_charset := a21\<rparr>) = drawn c" "drawn (c\<lparr>escape_offset := a22\<rparr>) = drawn c"
  "drawn (c\<lparr>esc_values_i := a23\<rparr>) = drawn c" "drawn (c\<lparr>saved_cursor_x := a24\<rparr>) = drawn c"
  "drawn (c\<lparr>saved_cursor_y := a25\<rparr>) = drawn c" "drawn (c\<lparr>current_primary := a26\<rparr>) = drawn c"
  "drawn (c\<lparr>current_bg := a27\<rparr>) = drawn c" "drawn (c\<lparr>scroll_top_margin := a28\<rparr>) = drawn c"
  "drawn (c\<lparr>scroll_bottom_margin := a29\<rparr>) = drawn c" "drawn (c\<lparr>esc_values := a30\<rparr>) = drawn c"
  "drawn (c\<lparr>oob_output := a31\<rparr>) = drawn c" "drawn (c\<lparr>saved_state_bold := a32\<rparr>) = drawn c"
  "drawn (c\<lparr>saved_state_bg_bold := a33\<rparr>) = drawn c" "drawn (c\<lparr>saved_state_reverse_video := a34\<rparr>) = drawn c"
  "drawn (c\<lparr>saved_state_current_charset := a35\<rparr>) = drawn c" "drawn (c\<lparr>saved_state_current_primary := a36\<rparr>) = drawn c"
  "drawn (c\<lparr>saved_state_current_bg := a37\<rparr>) = drawn c" "drawn (c\<lparr>callback_log := a38\<rparr>) = drawn c"
  "drawn (c\<lparr>saved_state_text_fg := a39\<rparr>) = drawn c" "drawn (c\<lparr>saved_state_text_bg := a40\<rparr>) = drawn c"
  "drawn (c\<lparr>saved_state_cursor_x := a41\<rparr>) = drawn c" "drawn (c\<lparr>saved_state_cursor_y := a42\<rparr>) = drawn c"
  by (rule drawn_cong; simp)+

lemma fb_wf_upd [simp]:
  "fb_wf (c\<lparr>tab_size := a43\<rparr>) = fb_wf c" "screen (c\<lparr>tab_size := a44\<rparr>) = screen c"
  "fb_wf (c\<lparr>autoflush := a45\<rparr>) = fb_wf c" "screen (c\<lparr>autoflush := a46\<rparr>) = screen c"
  "fb_wf (c\<lparr>cursor_enabled := a47\<rparr>) = fb_wf c" "screen (c\<lparr>cursor_enabled := a48\<rparr>) = screen c"
  "fb_wf (c\<lparr>scroll_enabled := a49\<rparr>) = fb_wf c" "screen (c\<lparr>scroll_enabled := a50\<rparr>) = screen c"
  "fb_wf (c\<lparr>control_sequence := a51\<rparr>) = fb_wf c" "screen (c\<lparr>control_sequence := a52\<rparr>) = screen c"
  "fb_wf (c\<lparr>csi := a53\<rparr>) = fb_wf c" "screen (c\<lparr>csi := a54\<rparr>) = screen c"
  "fb_wf (c\<lparr>escape := a55\<rparr>) = fb_wf c" "screen (c\<lparr>escape := a56\<rparr>) = screen c"
  "fb_wf (c\<lparr>osc := a57\<rparr>) = fb_wf c" "screen (c\<lparr>osc := a58\<rparr>) = screen c"
  "fb_wf (c\<lparr>osc_escape := a59\<rparr>) = fb_wf c" "screen (c\<lparr>osc_escape := a60\<rparr>) = screen c"
  "fb_wf (c\<lparr>rrr := a61\<rparr>) = fb_wf c" "screen (c\<lparr>rrr := a62\<rparr>) = screen c"
  "fb_wf (c\<lparr>discard_next := a63\<rparr>) = fb_wf c" "screen (c\<lparr>discard_next := a64\<rparr>) = screen c"
  "fb_wf (c\<lparr>bold := a65\<rparr>) = fb_wf c" "screen (c\<lparr>bold := a66\<rparr>) = screen c"
  "fb_wf (c\<lparr>bg_bold := a67\<rparr>) = fb_wf c" "screen (c\<lparr>bg_bold := a68\<rparr>) = screen c"
  "fb_wf (c\<lparr>reverse_video := a69\<rparr>) = fb_wf c" "screen (c\<lparr>reverse_video := a70\<rparr>) = screen c"
  "fb_wf (c\<lparr>dec_private := a71\<rparr>) = fb_wf c" "screen (c\<lparr>dec_private := a72\<rparr>) = screen c"
  "fb_wf (c\<lparr>insert_mode := a73\<rparr>) = fb_wf c" "screen (c\<lparr>insert_mode := a74\<rparr>) = screen c"
  "fb_wf (c\<lparr>code_point := a75\<rparr>) = fb_wf c" "screen (c\<lparr>code_point := a76\<rparr>) = screen c"
  "fb_wf (c\<lparr>unicode_remaining := a77\<rparr>) = fb_wf c" "screen (c\<lparr>unicode_remaining := a78\<rparr>) = screen c"
  "fb_wf (c\<lparr>g_select := a79\<rparr>) = fb_wf c" "screen (c\<lparr>g_select := a80\<rparr>) = screen c"
  "fb_wf (c\<lparr>charsets := a81\<rparr>) = fb_wf c" "screen (c\<lparr>charsets := a82\<rparr>) = screen c"
  "fb_wf (c\<lparr>current_charset := a83\<rparr>) = fb_wf c" "screen (c\<lparr>current_charset := a84\<rparr>) = screen c"
  "fb_wf (c\<lparr>escape_offset := a85\<rparr>) = fb_wf c" "screen (c\<lparr>escape_offset := a86\<rparr>) = screen c"
  "fb_wf (c\<lparr>esc_values_i := a87\<rparr>) = fb_wf c" "screen (c\<lparr>esc_values_i := a88\<rparr>) = screen c"
  "fb_wf (c\<lparr>saved_cursor_x := a89\<rparr>) = fb_wf c" "screen (c\<lparr>saved_cursor_x := a90\<rparr>) = screen c"
  "fb_wf (c\<lparr>saved_cursor_y := a91\<rparr>) = fb_wf c" "screen (c\<lparr>saved_cursor_y := a92\<rparr>) = screen c"
  "fb_wf (c\<lparr>current_primary := a93\<rparr>) = fb_wf c" "screen (c\<lparr>current_primary := a94\<rparr>) = screen c"
  "fb_wf (c\<lparr>current_bg := a95\<rparr>) = fb_wf c" "screen (c\<lparr>current_bg := a96\<rparr>) = screen c"
  "fb_wf (c\<lparr>scroll_top_margin := a97\<rparr>) = fb_wf c" "screen (c\<lparr>scroll_top_margin := a98\<rparr>) = screen c"
  "fb_wf (c\<lparr>scroll_bottom_margin := a99\<rparr>) = fb_wf c" "screen (c\<lparr>scroll_bottom_margin := a100\<rparr>) = screen c"
  "fb_wf (c\<lparr>esc_values := a101\<rparr>) = fb_wf c" "screen (c\<lparr>esc_values := a102\<rparr>) = screen c"
  "fb_wf (c\<lparr>oob_output := a103\<rparr>) = fb_wf c" "screen (c\<lparr>oob_output := a104\<rparr>) = screen c"
  "fb_wf (c\<lparr>saved_state_bold := a105\<rparr>) = fb_wf c" "screen (c\<lparr>saved_state_bold := a106\<rparr>) = screen c"
  "fb_wf (c\<lparr>saved_state_bg_bold := a107\<rparr>) = fb_wf c" "screen (c\<lparr>saved_state_bg_bold := a108\<rparr>) = screen c"
  "fb_wf (c\<lparr>saved_state_reverse_video := a109\<rparr>) = fb_wf c" "screen (c\<lparr>saved_state_reverse_video := a110\<rparr>) = screen c"
  "fb_wf (c\<lparr>saved_state_current_charset := a111\<rparr>) = fb_wf c" "screen (c\<lparr>saved_state_current_charset := a112\<rparr>) = screen c"
  "fb_wf (c\<lparr>saved_state_current_primary := a113\<rparr>) = fb_wf c" "screen (c\<lparr>saved_state_current_primary := a114\<rparr>) = screen c"
  "fb_wf (c\<lparr>saved_state_current_bg := a115\<rparr>) = fb_wf c" "screen (c\<lparr>saved_state_current_bg := a116\<rparr>) = screen c"
  "fb_wf (c\<lparr>callback_log := a117\<rparr>) = fb_wf c" "screen (c\<lparr>callback_log := a118\<rparr>) = screen c"
  "fb_wf (c\<lparr>saved_state_text_fg := a119\<rparr>) = fb_wf c" "screen (c\<lparr>saved_state_text_fg := a120\<rparr>) = screen c"
  "fb_wf (c\<lparr>saved_state_text_bg := a121\<rparr>) = fb_wf c" "screen (c\<lparr>saved_state_text_bg := a122\<rparr>) = screen c"
  "fb_wf (c\<lparr>saved_state_cursor_x := a123\<rparr>) = fb_wf c" "screen (c\<lparr>saved_state_cursor_x := a124\<rparr>) = screen c"
  "fb_wf (c\<lparr>saved_state_cursor_y := a125\<rparr>) = fb_wf c" "screen (c\<lparr>saved_state_cursor_y := a126\<rparr>) = screen c"
  by (rule fb_wf_cong; simp)+

lemma fb_wf_text [simp]:
  "fb_wf (c\<lparr>text_fg := a127\<rparr>) = fb_wf c" "screen (c\<lparr>text_fg := a128\<rparr>) = screen c"
  "fb_wf (c\<lparr>text_bg := a129\<rparr>) = fb_wf c" "screen (c\<lparr>text_bg := a130\<rparr>) = screen c"
  by (rule fb_wf_cong; simp)+

section \<open>The invariant\<close>

definition palette_index :: "nat \<Rightarrow> bool" where
  "palette_index i \<longleftrightarrow> i < 8 \<or> i = SZ_MAX"

definition palette_wf :: "ctx \<Rightarrow> bool" where
  "palette_wf c \<longleftrightarrow> length (ansi_colours c) = 8 \<and> length (ansi_bright_colours c) = 8 \<and>
     palette_index (current_primary c) \<and> palette_index (current_bg c) \<and>
     palette_index (saved_state_current_primary c) \<and> palette_index (saved_state_current_bg c)"

definition parser_wf :: "ctx \<Rightarrow> bool" where
  "parser_wf c \<longleftrightarrow> length (esc_values c) = 16 \<and> esc_values_i c \<le> 16 \<and>
     (rrr c \<longrightarrow> esc_values_i c < 16) \<and> length (charsets c) = 2 \<and> current_charset c < 2 \<and>
     saved_state_current_charset c < 2 \<and> unat (g_select c) \<le> 2 \<and> tab_size c = 8 \<and>
     unicode_remaining c \<le> 3"

definition term_wf :: "ctx \<Rightarrow> bool" where
  "term_wf c \<longleftrightarrow> drawn c \<and> margins_wf c \<and> parser_wf c \<and> palette_wf c"

lemma term_wfD:
  assumes "term_wf c"
  shows "drawn c" "margins_wf c" "parser_wf c" "palette_wf c" "fb_wf c"
  using assms by (simp_all add: term_wf_def drawn_wf)

lemma term_wf_dims:
  assumes "term_wf c"
  shows "0 < rows c" "0 < cols c" "rows c < 2 ^ 31" "cols c < 2 ^ 31"
    "scroll_top_margin c < scroll_bottom_margin c" "scroll_bottom_margin c \<le> rows c"
  using term_wfD(2,5) [OF assms] geom_dims [of c] by (simp_all add: fb_wf_def margins_wf_def)

text \<open>The operations of the backend leave the terminal registers alone.\<close>

lemma cframe_regs:
  assumes "cframe c c'"
  shows "margins_wf c' = margins_wf c" "parser_wf c' = parser_wf c" "palette_wf c' = palette_wf c"
  by (rule cframe_sel [OF assms],
      simp add: margins_wf_def parser_wf_def palette_wf_def forget_cursor_def forget_queue_def)+

lemma term_wf_cframe: "term_wf c \<Longrightarrow> cframe c c' \<Longrightarrow> drawn c' \<Longrightarrow> term_wf c'"
  by (simp add: term_wf_def cframe_regs)

lemma term_wf_qframe: "term_wf c \<Longrightarrow> qframe c c' \<Longrightarrow> drawn c' \<Longrightarrow> term_wf c'"
  by (rule term_wf_cframe [OF _ cframe_qframe])

lemma term_wf_dframe:
  assumes "term_wf c" "dframe c c'" "drawn c'"
  shows "term_wf c'"
proof -
  have "margins_wf c' = margins_wf c" "parser_wf c' = parser_wf c" "palette_wf c' = palette_wf c"
    by (rule dframe_sel [OF assms(2)],
        simp add: margins_wf_def parser_wf_def palette_wf_def forget_draw_def)+
  then show ?thesis using assms(1,3) by (simp add: term_wf_def)
qed

text \<open>Updates of registers that the invariant does not restrict.\<close>

named_theorems free_regs

lemma term_wf_free [simp, free_regs]:
  "term_wf (c\<lparr>autoflush := a131\<rparr>) = term_wf c" "term_wf (c\<lparr>cursor_enabled := a132\<rparr>) = term_wf c"
  "term_wf (c\<lparr>scroll_enabled := a133\<rparr>) = term_wf c" "term_wf (c\<lparr>control_sequence := a134\<rparr>) = term_wf c"
  "term_wf (c\<lparr>csi := a135\<rparr>) = term_wf c" "term_wf (c\<lparr>escape := a136\<rparr>) = term_wf c"
  "term_wf (c\<lparr>osc := a137\<rparr>) = term_wf c" "term_wf (c\<lparr>osc_escape := a138\<rparr>) = term_wf c"
  "term_wf (c\<lparr>discard_next := a139\<rparr>) = term_wf c" "term_wf (c\<lparr>bold := a140\<rparr>) = term_wf c"
  "term_wf (c\<lparr>bg_bold := a141\<rparr>) = term_wf c" "term_wf (c\<lparr>reverse_video := a142\<rparr>) = term_wf c"
  "term_wf (c\<lparr>dec_private := a143\<rparr>) = term_wf c" "term_wf (c\<lparr>insert_mode := a144\<rparr>) = term_wf c"
  "term_wf (c\<lparr>code_point := a145\<rparr>) = term_wf c" "term_wf (c\<lparr>escape_offset := a146\<rparr>) = term_wf c"
  "term_wf (c\<lparr>saved_cursor_x := a147\<rparr>) = term_wf c" "term_wf (c\<lparr>saved_cursor_y := a148\<rparr>) = term_wf c"
  "term_wf (c\<lparr>oob_output := a149\<rparr>) = term_wf c" "term_wf (c\<lparr>saved_state_bold := a150\<rparr>) = term_wf c"
  "term_wf (c\<lparr>saved_state_bg_bold := a151\<rparr>) = term_wf c" "term_wf (c\<lparr>saved_state_reverse_video := a152\<rparr>) = term_wf c"
  "term_wf (c\<lparr>callback_log := a153\<rparr>) = term_wf c" "term_wf (c\<lparr>saved_state_text_fg := a154\<rparr>) = term_wf c"
  "term_wf (c\<lparr>saved_state_text_bg := a155\<rparr>) = term_wf c" "term_wf (c\<lparr>saved_state_cursor_x := a156\<rparr>) = term_wf c"
  "term_wf (c\<lparr>saved_state_cursor_y := a157\<rparr>) = term_wf c" "term_wf (c\<lparr>text_fg := a158\<rparr>) = term_wf c"
  "term_wf (c\<lparr>text_bg := a159\<rparr>) = term_wf c" "term_wf (c\<lparr>cursor_x := a160\<rparr>) = term_wf c"
  "term_wf (c\<lparr>cursor_y := a161\<rparr>) = term_wf c"
  by (simp_all add: term_wf_def margins_wf_def parser_wf_def palette_wf_def)

lemma term_wf_sample: "term_wf (sample_ctx 2 2)"
  using drawn_sample sample_ctx_wf(2) [of 2 2]
  by (simp add: term_wf_def) (simp add: parser_wf_def palette_wf_def palette_index_def sample_ctx_def)

section \<open>The interface of a backend\<close>

text \<open>
  The interpreter calls its backend through the function pointers of \<open>struct flanterm_context\<close>. What
  it relies on is that each call succeeds in a well-formed terminal, leaves one, and, but for the
  flush, keeps the registers of the interpreter.
\<close>

locale terminal_backend =
  fixes wf :: "'c \<Rightarrow> bool" and keeps :: "'c \<Rightarrow> 'c \<Rightarrow> bool"
    and raw_putchar :: "'c \<Rightarrow> u8 \<Rightarrow> 'c option" and clear :: "'c \<Rightarrow> bool \<Rightarrow> 'c option"
    and move_character :: "'c \<Rightarrow> nat \<Rightarrow> nat \<Rightarrow> nat \<Rightarrow> nat \<Rightarrow> 'c option"
    and scroll :: "'c \<Rightarrow> 'c option" and revscroll :: "'c \<Rightarrow> 'c option"
    and double_buffer_flush :: "'c \<Rightarrow> 'c option"
  assumes keeps_refl: "keeps c c"
    and keeps_trans: "keeps c d \<Longrightarrow> keeps d e \<Longrightarrow> keeps c e"
    and put: "wf c \<Longrightarrow> \<exists>c'. raw_putchar c b = Some c' \<and> wf c' \<and> keeps c c'"
    and clear: "wf c \<Longrightarrow> \<exists>c'. clear c move = Some c' \<and> wf c' \<and> keeps c c'"
    and move: "wf c \<Longrightarrow> \<exists>c'. move_character c nx ny ox oy = Some c' \<and> wf c' \<and> keeps c c'"
    and scroll: "wf c \<Longrightarrow> \<exists>c'. scroll c = Some c' \<and> wf c' \<and> keeps c c'"
    and revscroll: "wf c \<Longrightarrow> \<exists>c'. revscroll c = Some c' \<and> wf c' \<and> keeps c c'"
    and flush: "wf c \<Longrightarrow> \<exists>c'. double_buffer_flush c = Some c' \<and> wf c'"
begin

text \<open>The loops of the interpreter over calls of the backend.\<close>

lemma loop:
  assumes "\<And>i s. wf s \<Longrightarrow> \<exists>s'. f i s = Some s' \<and> wf s' \<and> keeps s s'" "wf c"
  shows "\<exists>c'. ofold f is c = Some c' \<and> wf c' \<and> keeps c c'"
proof (rule ofold_invariant [of "\<lambda>s. wf s \<and> keeps c s"])
  show "\<exists>s'. f i s = Some s' \<and> wf s' \<and> keeps c s'" if "wf s \<and> keeps c s" for i s
    using assms(1) [of s i] that keeps_trans by blast
qed (simp add: assms(2) keeps_refl)

lemma puts: "wf c \<Longrightarrow> \<exists>c'. ofold (\<lambda>b s. raw_putchar s b) bs c = Some c' \<and> wf c' \<and> keeps c c'"
  by (rule loop) (rule put)

lemma fill: "wf c \<Longrightarrow> \<exists>c'. ofold (\<lambda>_ s. raw_putchar s b) is c = Some c' \<and> wf c' \<and> keeps c c'"
  by (rule loop) (rule put)

lemma shift: "wf c \<Longrightarrow> \<exists>c'. ofold (\<lambda>i s. move_character s (X i) y i y) is c = Some c' \<and> wf c' \<and> keeps c c'"
  by (rule loop) (rule move)

lemma scrolls: "wf c \<Longrightarrow> \<exists>c'. ofold (\<lambda>_ s. scroll s) is c = Some c' \<and> wf c' \<and> keeps c c'"
  by (rule loop) (rule scroll)

end

text \<open>The frame buffer is such a backend.\<close>

interpretation fbt: terminal_backend term_wf cframe flanterm_fb_raw_putchar flanterm_fb_clear
  flanterm_fb_move_character flanterm_fb_scroll flanterm_fb_revscroll flanterm_fb_double_buffer_flush
proof unfold_locales
  fix c :: ctx and b :: u8 and move :: bool and nx ny ox oy :: nat
  assume wf: "term_wf c"
  show "\<exists>c'. flanterm_fb_raw_putchar c b = Some c' \<and> term_wf c' \<and> cframe c c'"
    using drawn_raw_putchar [of c] term_wfD [OF wf] term_wf_cframe [OF wf] by blast
  show "\<exists>c'. flanterm_fb_clear c move = Some c' \<and> term_wf c' \<and> cframe c c'"
    using drawn_clear [of c move] term_wfD(1) [OF wf] term_wf_cframe [OF wf] by blast
  show "\<exists>c'. flanterm_fb_move_character c nx ny ox oy = Some c' \<and> term_wf c' \<and> cframe c c'"
    using drawn_move_character [of c] term_wfD(1) [OF wf] term_wf_qframe [OF wf] cframe_qframe by blast
  show "\<exists>c'. flanterm_fb_scroll c = Some c' \<and> term_wf c' \<and> cframe c c'"
    using drawn_scroll [of c] term_wfD [OF wf] term_wf_qframe [OF wf] cframe_qframe by blast
  show "\<exists>c'. flanterm_fb_revscroll c = Some c' \<and> term_wf c' \<and> cframe c c'"
    using drawn_revscroll [of c] term_wfD(1) [OF wf] term_wf_dims [OF wf] term_wf_qframe [OF wf] cframe_qframe by fastforce
  show "\<exists>c'. flanterm_fb_double_buffer_flush c = Some c' \<and> term_wf c'"
    using flush_ok [of c] term_wfD(1) [OF wf] term_wf_dframe [OF wf] by blast
qed (auto intro: cframe_trans)

lemma term_set_cursor [simp]: "term_wf (flanterm_fb_set_cursor_pos c x y) = term_wf c"
  by (simp add: flanterm_fb_set_cursor_pos_def)

lemma cframe_set_cursor [simp]:
  "cframe c (flanterm_fb_set_cursor_pos d x y) = cframe c d"
  by (simp add: flanterm_fb_set_cursor_pos_def)

end
