(* ===== verification/Flanterm_SGR.thy ===== *)
theory Flanterm_SGR
  imports Flanterm_Term
begin

unbundle bit_operations_syntax

text \<open>
  Select Graphic Rendition: the function \<open>sgr\<close> of \<open>kernel/flanterm/flanterm.c\<close>, which
  interprets the parameters of \<open>ESC [ ... m\<close>. \<open>sgr_body\<close> is one pass through the body of
  its loop: it yields the new context and the value of \<open>i\<close> at the end of the pass, \<open>None\<close>
  standing for the jump to \<open>out\<close>. The lemmas show that the palette bookkeeping is consistent
  and that the only array the function can leave is \<open>col256\<close>.
\<close>

section \<open>Operations\<close>

text \<open>The label \<open>def\<close>.\<close>

definition sgr_reset :: "ctx \<Rightarrow> ctx" where
  "sgr_reset ctx =
     (let ctx = (if reverse_video ctx
                 then flanterm_fb_swap_palette (ctx\<lparr>reverse_video := False\<rparr>) else ctx);
          ctx = ctx\<lparr>bold := False, bg_bold := False,
                    current_primary := SZ_MAX, current_bg := SZ_MAX\<rparr>
      in flanterm_fb_set_text_fg_default (flanterm_fb_set_text_bg_default ctx))"

definition sgr_bold :: "ctx \<Rightarrow> ctx option" where
  "sgr_bold ctx =
     (let ctx = ctx\<lparr>bold := True\<rparr>
      in if current_primary ctx \<noteq> SZ_MAX
         then (if \<not> reverse_video ctx then flanterm_fb_set_text_fg_bright ctx (current_primary ctx)
               else flanterm_fb_set_text_bg_bright ctx (current_primary ctx))
         else (if \<not> reverse_video ctx then Some (flanterm_fb_set_text_fg_default_bright ctx)
               else Some (flanterm_fb_set_text_bg_default_bright ctx)))"

definition sgr_bg_bold :: "ctx \<Rightarrow> ctx option" where
  "sgr_bg_bold ctx =
     (let ctx = ctx\<lparr>bg_bold := True\<rparr>
      in if current_bg ctx \<noteq> SZ_MAX
         then (if \<not> reverse_video ctx then flanterm_fb_set_text_bg_bright ctx (current_bg ctx)
               else flanterm_fb_set_text_fg_bright ctx (current_bg ctx))
         else (if \<not> reverse_video ctx then Some (flanterm_fb_set_text_bg_default_bright ctx)
               else Some (flanterm_fb_set_text_fg_default_bright ctx)))"

definition sgr_not_bold :: "ctx \<Rightarrow> ctx option" where
  "sgr_not_bold ctx =
     (let ctx = ctx\<lparr>bold := False\<rparr>
      in if current_primary ctx \<noteq> SZ_MAX
         then (if \<not> reverse_video ctx then flanterm_fb_set_text_fg ctx (current_primary ctx)
               else flanterm_fb_set_text_bg ctx (current_primary ctx))
         else (if \<not> reverse_video ctx then Some (flanterm_fb_set_text_fg_default ctx)
               else Some (flanterm_fb_set_text_bg_default ctx)))"

definition sgr_not_bg_bold :: "ctx \<Rightarrow> ctx option" where
  "sgr_not_bg_bold ctx =
     (let ctx = ctx\<lparr>bg_bold := False\<rparr>
      in if current_bg ctx \<noteq> SZ_MAX
         then (if \<not> reverse_video ctx then flanterm_fb_set_text_bg ctx (current_bg ctx)
               else flanterm_fb_set_text_fg ctx (current_bg ctx))
         else (if \<not> reverse_video ctx then Some (flanterm_fb_set_text_bg_default ctx)
               else Some (flanterm_fb_set_text_fg_default ctx)))"

text \<open>The labels \<open>set_fg\<close> and \<open>set_bg\<close>.\<close>

definition sgr_set_fg :: "ctx \<Rightarrow> nat \<Rightarrow> ctx option" where
  "sgr_set_fg ctx n =
     (if (bold ctx \<and> \<not> reverse_video ctx) \<or> (bg_bold ctx \<and> reverse_video ctx)
      then flanterm_fb_set_text_fg_bright ctx n else flanterm_fb_set_text_fg ctx n)"

definition sgr_set_bg :: "ctx \<Rightarrow> nat \<Rightarrow> ctx option" where
  "sgr_set_bg ctx n =
     (if (bold ctx \<and> reverse_video ctx) \<or> (bg_bold ctx \<and> \<not> reverse_video ctx)
      then flanterm_fb_set_text_bg_bright ctx n else flanterm_fb_set_text_bg ctx n)"

definition swap_if :: "bool \<Rightarrow> ctx \<Rightarrow> ctx" where
  "swap_if b ctx = (if b then flanterm_fb_swap_palette ctx else ctx)"

definition sgr_default_fg :: "ctx \<Rightarrow> ctx" where
  "sgr_default_fg ctx =
     (let ctx = swap_if (reverse_video ctx) (ctx\<lparr>current_primary := SZ_MAX\<rparr>);
          ctx = (if \<not> bold ctx then flanterm_fb_set_text_fg_default ctx
                 else flanterm_fb_set_text_fg_default_bright ctx)
      in swap_if (reverse_video ctx) ctx)"

definition sgr_default_bg :: "ctx \<Rightarrow> ctx" where
  "sgr_default_bg ctx =
     (let ctx = swap_if (reverse_video ctx) (ctx\<lparr>current_bg := SZ_MAX\<rparr>);
          ctx = (if \<not> bg_bold ctx then flanterm_fb_set_text_bg_default ctx
                 else flanterm_fb_set_text_bg_default_bright ctx)
      in swap_if (reverse_video ctx) ctx)"

text \<open>The colour forms \<open>38;...\<close> and \<open>48;...\<close>, with \<open>i\<close> at the parameter after them.\<close>

definition sgr_set_rgb :: "bool \<Rightarrow> ctx \<Rightarrow> u32 \<Rightarrow> ctx" where
  "sgr_set_rgb fg ctx v =
     (if fg then flanterm_fb_set_text_fg_rgb ctx v else flanterm_fb_set_text_bg_rgb ctx v)"

definition sgr_256 :: "bool \<Rightarrow> ctx \<Rightarrow> u32 \<Rightarrow> ctx option" where
  "sgr_256 fg ctx col =
     (if col < 8 then
        (if fg then flanterm_fb_set_text_fg ctx (unat col) else flanterm_fb_set_text_bg ctx (unat col))
      else if col < 16 then
        (if fg then flanterm_fb_set_text_fg_bright ctx (unat (col - 8))
         else flanterm_fb_set_text_bg_bright ctx (unat (col - 8)))
      else do {
        v \<leftarrow> aget col256 (unat (col - 16));
        Some (sgr_set_rgb fg ctx v)
      })"

definition sgr_extended :: "bool \<Rightarrow> nat \<Rightarrow> ctx \<Rightarrow> (ctx \<times> nat option) option" where
  "sgr_extended fg i ctx =
     (if esc_values_i ctx \<le> i then Some (ctx, None)
      else do {
        v \<leftarrow> aget (esc_values ctx) i;
        if v = 2 then
          (if esc_values_i ctx \<le> i + 3 then Some (ctx, None)
           else do {
             r \<leftarrow> aget (esc_values ctx) (i + 1);
             g \<leftarrow> aget (esc_values ctx) (i + 2);
             b \<leftarrow> aget (esc_values ctx) (i + 3);
             Some (sgr_set_rgb fg ctx ((push_bit 16 r OR push_bit 8 g) OR b), Some (i + 3))
           })
        else if v = 5 then
          (if esc_values_i ctx \<le> i + 1 then Some (ctx, None)
           else do {
             col \<leftarrow> aget (esc_values ctx) (i + 1);
             ctx \<leftarrow> sgr_256 fg ctx col;
             Some (ctx, Some (i + 1))
           })
        else Some (ctx, Some i)
      })"

definition stay :: "nat \<Rightarrow> ctx option \<Rightarrow> (ctx \<times> nat option) option" where
  "stay i m = do { ctx \<leftarrow> m; Some (ctx, Some i) }"

definition sgr_body :: "nat \<Rightarrow> ctx \<Rightarrow> (ctx \<times> nat option) option" where
  "sgr_body i ctx = do {
     v \<leftarrow> aget (esc_values ctx) i;
     if v = 0 then stay i (Some (sgr_reset ctx))
     else if v = 1 then stay i (sgr_bold ctx)
     else if v = 5 then stay i (sgr_bg_bold ctx)
     else if v = 22 then stay i (sgr_not_bold ctx)
     else if v = 25 then stay i (sgr_not_bg_bold ctx)
     else if 30 \<le> v \<and> v \<le> 37 then
       (let ctx = ctx\<lparr>current_primary := unat v - 30\<rparr>
        in stay i (if reverse_video ctx then sgr_set_bg ctx (unat v - 30)
                   else sgr_set_fg ctx (unat v - 30)))
     else if 40 \<le> v \<and> v \<le> 47 then
       (let ctx = ctx\<lparr>current_bg := unat v - 40\<rparr>
        in stay i (if reverse_video ctx then sgr_set_fg ctx (unat v - 40)
                   else sgr_set_bg ctx (unat v - 40)))
     else if 90 \<le> v \<and> v \<le> 97 then
       (let ctx = ctx\<lparr>current_primary := unat v - 90\<rparr>
        in stay i (if reverse_video ctx then flanterm_fb_set_text_bg_bright ctx (unat v - 90)
                   else flanterm_fb_set_text_fg_bright ctx (unat v - 90)))
     else if 100 \<le> v \<and> v \<le> 107 then
       (let ctx = ctx\<lparr>current_bg := unat v - 100\<rparr>
        in stay i (if reverse_video ctx then flanterm_fb_set_text_fg_bright ctx (unat v - 100)
                   else flanterm_fb_set_text_bg_bright ctx (unat v - 100)))
     else if v = 39 then stay i (Some (sgr_default_fg ctx))
     else if v = 49 then stay i (Some (sgr_default_bg ctx))
     else if v = 7 then
       stay i (Some (if \<not> reverse_video ctx
                     then flanterm_fb_swap_palette (ctx\<lparr>reverse_video := True\<rparr>) else ctx))
     else if v = 27 then
       stay i (Some (if reverse_video ctx
                     then flanterm_fb_swap_palette (ctx\<lparr>reverse_video := False\<rparr>) else ctx))
     else if v = 38 \<or> v = 48 then sgr_extended (v = 38) (i + 1) ctx
     else Some (ctx, Some i)
   }"

section \<open>What a pass may change\<close>

text \<open>The registers \<open>sgr\<close> writes: colours, attributes and palette indices.\<close>

definition forget_colour :: "ctx \<Rightarrow> ctx" where
  "forget_colour c = c\<lparr>text_fg := 0, text_bg := 0, bold := False, bg_bold := False,
     reverse_video := False, current_primary := 0, current_bg := 0\<rparr>"

definition kframe :: "ctx \<Rightarrow> ctx \<Rightarrow> bool" where
  "kframe c c' \<longleftrightarrow> forget_colour c' = forget_colour c"

lemma kframe_refl [simp]: "kframe c c"
  by (simp add: kframe_def)

lemma kframe_trans [trans]: "kframe c c' \<Longrightarrow> kframe c' c'' \<Longrightarrow> kframe c c''"
  by (simp add: kframe_def)

lemma kframe_sel:
  assumes "kframe c c'" and "\<And>d. f (forget_colour d) = f d"
  shows "f c' = f c"
  using assms unfolding kframe_def by metis

lemma kframe_regs:
  assumes "kframe c c'"
  shows "esc_values_i c' = esc_values_i c" "esc_values c' = esc_values c"
    "ansi_colours c' = ansi_colours c" "ansi_bright_colours c' = ansi_bright_colours c"
    "default_fg c' = default_fg c" "default_bg c' = default_bg c"
    "default_fg_bright c' = default_fg_bright c" "default_bg_bright c' = default_bg_bright c"
  by (rule kframe_sel [OF assms], simp add: forget_colour_def)+

lemmas sgr_defs = sgr_reset_def sgr_bold_def sgr_bg_bold_def sgr_not_bold_def sgr_not_bg_bold_def
  sgr_set_fg_def sgr_set_bg_def sgr_default_fg_def sgr_default_bg_def swap_if_def
  sgr_set_rgb_def flanterm_fb_swap_palette_def flanterm_fb_set_text_fg_def
  flanterm_fb_set_text_bg_def flanterm_fb_set_text_fg_bright_def
  flanterm_fb_set_text_bg_bright_def flanterm_fb_set_text_fg_default_def
  flanterm_fb_set_text_bg_default_def flanterm_fb_set_text_fg_default_bright_def
  flanterm_fb_set_text_bg_default_bright_def flanterm_fb_set_text_fg_rgb_def
  flanterm_fb_set_text_bg_rgb_def Let_def

text \<open>The outcome of a piece of \<open>sgr\<close>: it succeeds, keeps the invariant and the other registers.\<close>

definition sgr_good :: "ctx \<Rightarrow> ctx option \<Rightarrow> bool" where
  "sgr_good c m \<longleftrightarrow> (\<exists>c'. m = Some c' \<and> term_wf c' \<and> kframe c c')"

lemma sgr_good_SomeI: "term_wf c' \<Longrightarrow> kframe c c' \<Longrightarrow> sgr_good c (Some c')"
  by (simp add: sgr_good_def)

lemma term_wf_palette:
  "term_wf (c\<lparr>current_primary := n\<rparr>) = (drawn c \<and> margins_wf c \<and> parser_wf c \<and>
     palette_wf (c\<lparr>current_primary := n\<rparr>))"
  "term_wf (c\<lparr>current_bg := m\<rparr>) = (drawn c \<and> margins_wf c \<and> parser_wf c \<and>
     palette_wf (c\<lparr>current_bg := m\<rparr>))"
  by (simp_all add: term_wf_def margins_wf_def parser_wf_def)

lemma kframe_pieces:
  "kframe c (sgr_reset c)" "kframe c (sgr_default_fg c)" "kframe c (sgr_default_bg c)"
  "kframe c (sgr_set_rgb f c v)" "kframe c (flanterm_fb_swap_palette c)"
  "kframe c (c\<lparr>reverse_video := b\<rparr>)" "kframe c (c\<lparr>current_primary := n\<rparr>)"
  "kframe c (c\<lparr>current_bg := n\<rparr>)"
  by (simp_all add: sgr_defs kframe_def forget_colour_def)

lemma kframe_set:
  "flanterm_fb_set_text_fg c n = Some c' \<Longrightarrow> kframe c c'"
  "flanterm_fb_set_text_bg c n = Some c' \<Longrightarrow> kframe c c'"
  "flanterm_fb_set_text_fg_bright c n = Some c' \<Longrightarrow> kframe c c'"
  "flanterm_fb_set_text_bg_bright c n = Some c' \<Longrightarrow> kframe c c'"
  by (auto simp: sgr_defs kframe_def forget_colour_def aget_Some_iff bind_eq_Some_conv)

lemma kframe_partial:
  "sgr_bold c = Some c' \<Longrightarrow> kframe c c'"
  "sgr_bg_bold c = Some c' \<Longrightarrow> kframe c c'"
  "sgr_not_bold c = Some c' \<Longrightarrow> kframe c c'"
  "sgr_not_bg_bold c = Some c' \<Longrightarrow> kframe c c'"
  "sgr_set_fg c n = Some c' \<Longrightarrow> kframe c c'"
  "sgr_set_bg c n = Some c' \<Longrightarrow> kframe c c'"
  "sgr_256 b c v = Some c' \<Longrightarrow> kframe c c'"
  by (auto simp: sgr_defs sgr_256_def kframe_def forget_colour_def aget_Some_iff bind_eq_Some_conv
      split: if_splits)

lemma sgr_extended_frame:
  "sgr_extended b i c = Some (c', k) \<Longrightarrow> kframe c c' \<and> (\<forall>i'. k = Some i' \<longrightarrow> i \<le> i')"
  by (auto simp: sgr_extended_def bind_eq_Some_conv kframe_pieces kframe_partial split: if_splits)

lemma stay_Some: "stay i m = Some (c', k) \<longleftrightarrow> m = Some c' \<and> k = Some i"
  by (auto simp: stay_def bind_eq_Some_conv)

text \<open>A pass leaves the other registers alone and never moves \<open>i\<close> back.\<close>

definition pass_ok :: "nat \<Rightarrow> ctx \<Rightarrow> (ctx \<times> nat option) option \<Rightarrow> bool" where
  "pass_ok i c m \<longleftrightarrow> (\<forall>c' k. m = Some (c', k) \<longrightarrow> kframe c c' \<and> (\<forall>i'. k = Some i' \<longrightarrow> i \<le> i'))"

lemma pass_ok_stay: "(\<And>c'. m = Some c' \<Longrightarrow> kframe c c') \<Longrightarrow> pass_ok i c (stay i m)"
  by (simp add: pass_ok_def stay_Some)

lemma pass_ok_if: "pass_ok i c m \<Longrightarrow> pass_ok i c m' \<Longrightarrow> pass_ok i c (if b then m else m')"
  by simp

lemma pass_ok_from: "kframe c d \<Longrightarrow> pass_ok i d m \<Longrightarrow> pass_ok i c m"
  unfolding pass_ok_def using kframe_trans by blast

lemma pass_ok_extended: "pass_ok i c (sgr_extended b (i + 1) c)"
  unfolding pass_ok_def using sgr_extended_frame by fastforce

lemma kframe_primary: "kframe c (c\<lparr>current_primary := n\<rparr>)" "kframe c (c\<lparr>current_bg := n\<rparr>)"
  by (simp_all add: kframe_pieces)

lemma sgr_body_pass: "pass_ok i c (sgr_body i c)"
proof (cases "aget (esc_values c) i")
  case None
  then show ?thesis by (simp add: sgr_body_def pass_ok_def)
next
  case (Some v)
  have p: "pass_ok i c (stay i (if reverse_video (c\<lparr>current_primary := n\<rparr>)
      then f (c\<lparr>current_primary := n\<rparr>) n else g (c\<lparr>current_primary := n\<rparr>) n))"
    if "\<And>d d'. f d n = Some d' \<Longrightarrow> kframe d d'" "\<And>d d'. g d n = Some d' \<Longrightarrow> kframe d d'" for f g n
    by (rule pass_ok_from [OF kframe_primary(1)], rule pass_ok_stay) (use that in \<open>auto split: if_splits\<close>)
  have q: "pass_ok i c (stay i (if reverse_video (c\<lparr>current_bg := n\<rparr>)
      then f (c\<lparr>current_bg := n\<rparr>) n else g (c\<lparr>current_bg := n\<rparr>) n))"
    if "\<And>d d'. f d n = Some d' \<Longrightarrow> kframe d d'" "\<And>d d'. g d n = Some d' \<Longrightarrow> kframe d d'" for f g n
    by (rule pass_ok_from [OF kframe_primary(2)], rule pass_ok_stay) (use that in \<open>auto split: if_splits\<close>)
  have swap: "kframe c (flanterm_fb_swap_palette (c\<lparr>reverse_video := b\<rparr>))" for b
    using kframe_trans kframe_pieces(5,6) by blast
  show ?thesis
    unfolding sgr_body_def Some bind.bind_lunit Let_def
    by (intro pass_ok_if p q pass_ok_stay pass_ok_extended)
      (auto simp: kframe_pieces kframe_partial kframe_set swap pass_ok_def split: if_splits)
qed

section \<open>The loop\<close>

function sgr_loop :: "nat \<Rightarrow> ctx \<Rightarrow> ctx option" where
  "sgr_loop i ctx =
     (if i < esc_values_i ctx then
        case sgr_body i ctx of
          None \<Rightarrow> None
        | Some (ctx', None) \<Rightarrow> Some ctx'
        | Some (ctx', Some i') \<Rightarrow> sgr_loop (i' + 1) ctx'
      else Some ctx)"
  by pat_completeness auto

termination
proof (relation "measure (\<lambda>(i, ctx). esc_values_i ctx - i)")
  fix i ctx p ctx' k i'
  assume "i < esc_values_i ctx" "sgr_body i ctx = Some p" "(ctx', k) = p" "k = Some i'"
  then have "kframe ctx ctx'" "i \<le> i'"
    using sgr_body_pass [of i ctx] by (auto simp: pass_ok_def)
  then show "((i' + 1, ctx'), i, ctx) \<in> measure (\<lambda>(i, ctx). esc_values_i ctx - i)"
    using \<open>i < esc_values_i ctx\<close> kframe_regs(1) by auto
qed simp

declare sgr_loop.simps [simp del]

definition sgr :: "ctx \<Rightarrow> ctx option" where
  "sgr ctx = (if esc_values_i ctx = 0 then Some (sgr_reset ctx) else sgr_loop 0 ctx)"

section \<open>Every access but the one of col256 is in range\<close>

lemma palette_index_bound: "palette_index i \<Longrightarrow> i \<noteq> SZ_MAX \<Longrightarrow> i < 8"
  by (auto simp: palette_index_def)

lemma palette_index_simps [simp]: "palette_index SZ_MAX" "n < 8 \<Longrightarrow> palette_index n"
  by (simp_all add: palette_index_def)

lemma term_wf_set_primary [simp]:
  "term_wf c \<Longrightarrow> palette_index n \<Longrightarrow> term_wf (c\<lparr>current_primary := n\<rparr>)"
  "term_wf c \<Longrightarrow> palette_index n \<Longrightarrow> term_wf (c\<lparr>current_bg := n\<rparr>)"
  by (simp_all add: term_wf_palette) (simp_all add: term_wf_def palette_wf_def)

lemma term_wf_colours:
  assumes "term_wf c"
  shows "length (ansi_colours c) = 8" "length (ansi_bright_colours c) = 8"
    "palette_index (current_primary c)" "palette_index (current_bg c)"
    "length (esc_values c) = 16" "esc_values_i c \<le> 16"
  using assms by (simp_all add: term_wf_def palette_wf_def parser_wf_def)

lemma good_set:
  assumes "term_wf c" "n < 8"
  shows "sgr_good c (flanterm_fb_set_text_fg c n)" "sgr_good c (flanterm_fb_set_text_bg c n)"
    "sgr_good c (flanterm_fb_set_text_fg_bright c n)" "sgr_good c (flanterm_fb_set_text_bg_bright c n)"
    "sgr_good c (sgr_set_fg c n)" "sgr_good c (sgr_set_bg c n)"
  using assms term_wf_colours(1,2) [OF assms(1)]
  by (simp_all add: sgr_defs sgr_good_def kframe_def forget_colour_def)

lemma good_pieces:
  assumes "term_wf c"
  shows "sgr_good c (sgr_bold c)" "sgr_good c (sgr_bg_bold c)"
    "sgr_good c (sgr_not_bold c)" "sgr_good c (sgr_not_bg_bold c)"
    "sgr_good c (Some (sgr_reset c))" "sgr_good c (Some (sgr_default_fg c))"
    "sgr_good c (Some (sgr_default_bg c))" "sgr_good c (Some (sgr_set_rgb f c v))"
    "sgr_good c (Some (flanterm_fb_swap_palette c))"
  using assms term_wf_colours(1-4) [OF assms]
  by (auto simp add: sgr_defs sgr_good_def kframe_def forget_colour_def dest!: palette_index_bound)

lemma good_256:
  assumes "term_wf c"
  shows "if 256 \<le> v then sgr_256 b c v = None else sgr_good c (sgr_256 b c v)"
proof -
  have c: "length col256 = 240" by (simp add: col256_def)
  consider "v < 8" | "8 \<le> v" "v < 16" | "16 \<le> v" "v < 256" | "256 \<le> v" by fastforce
  then show ?thesis
  proof cases
    case 1
    then have "unat v < 8" "\<not> 256 \<le> v" by (simp_all add: word_less_nat_alt word_le_nat_alt)
    then show ?thesis using 1 good_set [OF assms] by (simp add: sgr_256_def)
  next
    case 2
    then have "unat (v - 8) < 8" "\<not> 256 \<le> v" "\<not> v < 8"
      by (simp_all add: word_less_nat_alt word_le_nat_alt unat_sub)
    then show ?thesis using 2 good_set [OF assms] by (simp add: sgr_256_def)
  next
    case 3
    then have "unat (v - 16) < 240" "\<not> 256 \<le> v" "\<not> v < 8" "\<not> v < 16"
      by (simp_all add: word_less_nat_alt word_le_nat_alt unat_sub)
    then show ?thesis using good_pieces(8) [OF assms] by (simp add: sgr_256_def c)
  next
    case 4
    then have "240 \<le> unat (v - 16)" "\<not> v < 8" "\<not> v < 16"
      by (simp_all add: word_less_nat_alt word_le_nat_alt unat_sub)
    then show ?thesis using 4 by (simp add: sgr_256_def aget_def c)
  qed
qed

text \<open>
  The parameter lists in which \<open>sgr\<close> meets a colour \<open>38;5;n\<close> or \<open>48;5;n\<close> with
  \<open>n\<close> above 255.
\<close>

function sgr_overrun :: "u32 list \<Rightarrow> bool" where
  "sgr_overrun [] = False"
| "sgr_overrun (v # vs) =
     (if v = 38 \<or> v = 48 then
        case vs of
          [] \<Rightarrow> False
        | w # ws \<Rightarrow>
            if w = 2 then (if 3 \<le> length ws then sgr_overrun (drop 3 ws) else False)
            else if w = 5 then (case ws of [] \<Rightarrow> False | n # ns \<Rightarrow> 256 \<le> n \<or> sgr_overrun ns)
            else sgr_overrun ws
      else sgr_overrun vs)"
  by pat_completeness auto
termination
  by (relation "measure length") auto

definition params :: "ctx \<Rightarrow> u32 list" where
  "params c = take (esc_values_i c) (esc_values c)"

lemma params_drop:
  "term_wf c \<Longrightarrow> i < esc_values_i c \<Longrightarrow> drop i (params c) = esc_values c ! i # drop (Suc i) (params c)"
  using term_wf_colours [of c] by (simp add: params_def flip: Cons_nth_drop_Suc)

lemma params_end: "esc_values_i c \<le> i \<Longrightarrow> drop i (params c) = []"
  by (simp add: params_def)

definition body_good :: "nat \<Rightarrow> ctx \<Rightarrow> (ctx \<times> nat option) option \<Rightarrow> bool" where
  "body_good i c m \<longleftrightarrow> (case m of
      None \<Rightarrow> sgr_overrun (drop i (params c))
    | Some (c', None) \<Rightarrow> term_wf c' \<and> kframe c c' \<and> \<not> sgr_overrun (drop i (params c))
    | Some (c', Some i') \<Rightarrow> term_wf c' \<and> kframe c c' \<and> i \<le> i' \<and>
        sgr_overrun (drop i (params c)) = sgr_overrun (drop (Suc i') (params c)))"

lemma body_good_stay:
  "sgr_good c m \<Longrightarrow> sgr_overrun (drop i (params c)) = sgr_overrun (drop (Suc i) (params c)) \<Longrightarrow>
   body_good i c (stay i m)"
  by (auto simp: sgr_good_def body_good_def stay_def)

lemma sgr_good_from: "kframe c d \<Longrightarrow> sgr_good d m \<Longrightarrow> sgr_good c m"
  unfolding sgr_good_def using kframe_trans by blast

lemma body_good_extended:
  assumes wf: "term_wf c" and i: "i < esc_values_i c"
    and v: "esc_values c ! i = 38 \<or> esc_values c ! i = 48"
  shows "body_good i c (sgr_extended b (i + 1) c)"
proof (cases "Suc i < esc_values_i c")
  case False
  then show ?thesis
    using wf v by (simp add: sgr_extended_def body_good_def params_drop [OF wf i] params_end)
next
  case True
  note len = term_wf_colours(5,6) [OF wf]
  let ?w = "esc_values c ! Suc i"
  have d: "drop i (params c) = esc_values c ! i # ?w # drop (Suc (Suc i)) (params c)"
    by (simp add: params_drop [OF wf i] params_drop [OF wf True])
  have get: "aget (esc_values c) (Suc i) = Some ?w" using True len by simp
  have lp: "length (drop (Suc (Suc i)) (params c)) = esc_values_i c - Suc (Suc i)"
    using len by (simp add: params_def)
  consider "?w = 2" | "?w = 5" | "?w \<noteq> 2" "?w \<noteq> 5" by blast
  then show ?thesis
  proof cases
    case 1
    show ?thesis
    proof (cases "esc_values_i c \<le> i + 4")
      case True
      then have "\<not> 3 \<le> length (drop (Suc (Suc i)) (params c))" using lp by simp
      then show ?thesis
        using wf 1 v True get d \<open>Suc i < esc_values_i c\<close>
        by (simp add: sgr_extended_def body_good_def)
    next
      case False
      then have "3 \<le> length (drop (Suc (Suc i)) (params c))" using lp by simp
      moreover obtain c' where "sgr_set_rgb b c ((push_bit 16 (esc_values c ! (i + 2)) OR
          push_bit 8 (esc_values c ! (i + 3))) OR esc_values c ! (i + 4)) = c'"
        "term_wf c'" "kframe c c'"
        using good_pieces(8) [OF wf] by (auto simp: sgr_good_def)
      ultimately show ?thesis
        using 1 v False get d len \<open>Suc i < esc_values_i c\<close>
        by (simp add: sgr_extended_def body_good_def eval_nat_numeral)
    qed
  next
    case 2
    show ?thesis
    proof (cases "esc_values_i c \<le> i + 2")
      case True
      then show ?thesis
        using wf 2 v get d lp \<open>Suc i < esc_values_i c\<close>
        by (simp add: sgr_extended_def body_good_def params_end)
    next
      case False
      let ?n = "esc_values c ! Suc (Suc i)"
      have d3: "drop (Suc (Suc i)) (params c) = ?n # drop (Suc (Suc (Suc i))) (params c)"
        using False by (intro params_drop [OF wf]) simp
      show ?thesis
        using good_256 [OF wf, of ?n b] 2 v get d d3 len False \<open>Suc i < esc_values_i c\<close>
        by (auto simp: sgr_extended_def body_good_def sgr_good_def split: if_splits)
    qed
  next
    case 3
    then show ?thesis
      using wf v get d \<open>Suc i < esc_values_i c\<close> by (simp add: sgr_extended_def body_good_def)
  qed
qed

lemma body_good_if:
  "(b \<Longrightarrow> body_good i c m) \<Longrightarrow> (\<not> b \<Longrightarrow> body_good i c m') \<Longrightarrow> body_good i c (if b then m else m')"
  by simp

lemma index_bound:
  "a \<le> v \<Longrightarrow> v \<le> a + 7 \<Longrightarrow> a \<le> 100 \<Longrightarrow> unat (v :: u32) - unat a < 8"
proof -
  assume a: "a \<le> v" "v \<le> a + 7" "a \<le> 100"
  have "unat (a + 7) \<le> unat a + 7" by (simp add: unat_word_ariths)
  then show ?thesis using a(1,2) by (simp add: word_le_nat_alt)
qed

lemma sgr_body_good:
  assumes wf: "term_wf c" and i: "i < esc_values_i c"
  shows "body_good i c (sgr_body i c)"
proof -
  let ?v = "esc_values c ! i"
  note len = term_wf_colours(5,6) [OF wf]
  have get: "aget (esc_values c) i = Some ?v" using i len by simp
  have skip: "sgr_overrun (drop i (params c)) = sgr_overrun (drop (Suc i) (params c))"
    if "?v \<noteq> 38" "?v \<noteq> 48"
    using that by (simp add: params_drop [OF wf i])
  have idx: "30 \<le> ?v \<and> ?v \<le> 37 \<Longrightarrow> unat ?v - 30 < 8" "40 \<le> ?v \<and> ?v \<le> 47 \<Longrightarrow> unat ?v - 40 < 8"
    "90 \<le> ?v \<and> ?v \<le> 97 \<Longrightarrow> unat ?v - 90 < 8" "100 \<le> ?v \<and> ?v \<le> 107 \<Longrightarrow> unat ?v - 100 < 8"
    using index_bound [of 30 ?v] index_bound [of 40 ?v] index_bound [of 90 ?v] index_bound [of 100 ?v]
    by simp_all
  have ne: "30 \<le> ?v \<and> ?v \<le> 37 \<Longrightarrow> ?v \<noteq> 38 \<and> ?v \<noteq> 48" "40 \<le> ?v \<and> ?v \<le> 47 \<Longrightarrow> ?v \<noteq> 38 \<and> ?v \<noteq> 48"
    "90 \<le> ?v \<and> ?v \<le> 97 \<Longrightarrow> ?v \<noteq> 38 \<and> ?v \<noteq> 48" "100 \<le> ?v \<and> ?v \<le> 107 \<Longrightarrow> ?v \<noteq> 38 \<and> ?v \<noteq> 48"
    by auto
  have fg: "sgr_good c (if reverse_video (c\<lparr>current_primary := n\<rparr>)
      then f (c\<lparr>current_primary := n\<rparr>) n else g (c\<lparr>current_primary := n\<rparr>) n)"
    if "n < 8" "\<And>d. term_wf d \<Longrightarrow> sgr_good d (f d n)" "\<And>d. term_wf d \<Longrightarrow> sgr_good d (g d n)" for f g n
    by (rule sgr_good_from [OF kframe_primary(1) [of _ n]]) (use that wf in simp)
  have bg: "sgr_good c (if reverse_video (c\<lparr>current_bg := n\<rparr>)
      then f (c\<lparr>current_bg := n\<rparr>) n else g (c\<lparr>current_bg := n\<rparr>) n)"
    if "n < 8" "\<And>d. term_wf d \<Longrightarrow> sgr_good d (f d n)" "\<And>d. term_wf d \<Longrightarrow> sgr_good d (g d n)" for f g n
    by (rule sgr_good_from [OF kframe_primary(2) [of _ n]]) (use that wf in simp)
  have swap: "sgr_good c (Some (flanterm_fb_swap_palette (c\<lparr>reverse_video := b\<rparr>)))" for b
    by (rule sgr_good_from [OF kframe_pieces(6)], rule good_pieces(9)) (use wf in simp)
  show ?thesis
    unfolding sgr_body_def get bind.bind_lunit Let_def
    by (intro body_good_if body_good_stay body_good_extended [OF wf i] fg bg)
      (use wf in \<open>simp_all add: good_pieces good_set idx ne skip swap\<close>,
       simp_all add: body_good_def sgr_good_SomeI skip)
qed

lemma sgr_loop_ok:
  assumes "term_wf c"
  shows "case sgr_loop i c of None \<Rightarrow> sgr_overrun (drop i (params c))
    | Some c' \<Rightarrow> term_wf c' \<and> kframe c c' \<and> \<not> sgr_overrun (drop i (params c))"
  using assms
proof (induction i c rule: sgr_loop.induct)
  case (1 i c)
  show ?case
  proof (cases "i < esc_values_i c")
    case False
    then show ?thesis using 1(2) by (simp add: sgr_loop.simps [of i c] params_end)
  next
    case True
    note body = sgr_body_good [OF 1(2) True]
    show ?thesis
    proof (cases "sgr_body i c")
      case None
      then show ?thesis using body True by (simp add: sgr_loop.simps [of i c] body_good_def)
    next
      case (Some p)
      obtain c' k where p: "p = (c', k)" by (cases p)
      show ?thesis
      proof (cases k)
        case None
        then show ?thesis
          using body True Some p by (simp add: sgr_loop.simps [of i c] body_good_def)
      next
        case k: (Some i')
        then have c': "term_wf c'" "kframe c c'"
          "sgr_overrun (drop i (params c)) = sgr_overrun (drop (Suc i') (params c))"
          using body Some p by (simp_all add: body_good_def)
        have "params c' = params c" using kframe_regs [OF c'(2)] by (simp add: params_def)
        then show ?thesis
          using 1(1) [OF True Some p [symmetric] k c'(1)] True Some p k c' kframe_trans [OF c'(2)]
          by (auto simp: sgr_loop.simps [of i c] split: option.splits)
      qed
    qed
  qed
qed

lemma sgr_ok:
  assumes "term_wf c"
  shows "case sgr c of None \<Rightarrow> sgr_overrun (params c)
    | Some c' \<Rightarrow> term_wf c' \<and> kframe c c' \<and> \<not> sgr_overrun (params c)"
proof (cases "esc_values_i c = 0")
  case True
  then show ?thesis
    using good_pieces(5) [OF assms] by (simp add: sgr_def params_def sgr_good_def)
next
  case False
  then show ?thesis using sgr_loop_ok [OF assms, of 0, unfolded drop_0] by (simp add: sgr_def)
qed

section \<open>Text colours follow the attributes\<close>

definition fg_colour :: "ctx \<Rightarrow> u32" where
  "fg_colour c =
     (if current_primary c = SZ_MAX then (if bold c then default_fg_bright c else default_fg c)
      else (if bold c then ansi_bright_colours c else ansi_colours c) ! current_primary c)"

definition bg_colour :: "ctx \<Rightarrow> u32" where
  "bg_colour c =
     (if current_bg c = SZ_MAX then (if bg_bold c then default_bg_bright c else 0xffffffff)
      else (if bg_bold c then ansi_bright_colours c else ansi_colours c) ! current_bg c)"

definition tracks :: "ctx \<Rightarrow> bool" where
  "tracks c \<longleftrightarrow> \<not> reverse_video c \<and> text_fg c = fg_colour c \<and> text_bg c = bg_colour c"

definition basic_sgr :: "u32 \<Rightarrow> bool" where
  "basic_sgr v \<longleftrightarrow> v \<in> {0, 1, 5, 22, 25, 27, 39, 49} \<or> (30 \<le> v \<and> v \<le> 37) \<or> (40 \<le> v \<and> v \<le> 47)"

lemma small_not_max: "n < 8 \<Longrightarrow> n \<noteq> SZ_MAX"
  by (simp add: SZ_MAX_def SZ_def)

lemma tracks_pieces:
  assumes wf: "term_wf c" and t: "tracks c"
  shows "\<exists>d. Some (sgr_reset c) = Some d \<and> tracks d" "\<exists>d. sgr_bold c = Some d \<and> tracks d"
    "\<exists>d. sgr_bg_bold c = Some d \<and> tracks d" "\<exists>d. sgr_not_bold c = Some d \<and> tracks d"
    "\<exists>d. sgr_not_bg_bold c = Some d \<and> tracks d" "\<exists>d. Some (sgr_default_fg c) = Some d \<and> tracks d"
    "\<exists>d. Some (sgr_default_bg c) = Some d \<and> tracks d"
proof -
  note len = term_wf_colours [OF wf]
  have p: "current_primary c \<noteq> SZ_MAX \<Longrightarrow> current_primary c < 8"
    and b: "current_bg c \<noteq> SZ_MAX \<Longrightarrow> current_bg c < 8"
    using len(3,4) palette_index_bound by auto
  note defs = sgr_defs tracks_def fg_colour_def bg_colour_def
  show "\<exists>d. Some (sgr_reset c) = Some d \<and> tracks d" "\<exists>d. Some (sgr_default_fg c) = Some d \<and> tracks d"
    "\<exists>d. Some (sgr_default_bg c) = Some d \<and> tracks d"
    using t by (simp_all add: defs)
  show "\<exists>d. sgr_bold c = Some d \<and> tracks d" "\<exists>d. sgr_not_bold c = Some d \<and> tracks d"
    using t len(1,2) p by (cases "current_primary c = SZ_MAX"; simp add: defs)+
  show "\<exists>d. sgr_bg_bold c = Some d \<and> tracks d" "\<exists>d. sgr_not_bg_bold c = Some d \<and> tracks d"
    using t len(1,2) b by (cases "current_bg c = SZ_MAX"; simp add: defs)+
qed

lemma tracks_set:
  assumes wf: "term_wf c" and t: "tracks c" and n: "n < 8"
  shows "\<exists>d. sgr_set_fg (c\<lparr>current_primary := n\<rparr>) n = Some d \<and> tracks d"
    "\<exists>d. sgr_set_bg (c\<lparr>current_bg := n\<rparr>) n = Some d \<and> tracks d"
  using t n term_wf_colours(1,2) [OF wf] small_not_max [OF n]
  by (simp_all add: sgr_defs tracks_def fg_colour_def bg_colour_def)

lemma tracks_body:
  assumes wf: "term_wf c" and i: "i < esc_values_i c" and t: "tracks c"
    and v: "basic_sgr (esc_values c ! i)"
  shows "\<exists>c'. sgr_body i c = Some (c', Some i) \<and> tracks c'"
proof -
  let ?v = "esc_values c ! i"
  have get: "aget (esc_values c) i = Some ?v" using i term_wf_colours(5,6) [OF wf] by simp
  have rev: "\<not> reverse_video c" using t by (simp add: tracks_def)
  have stay: "\<exists>c'. sgr_body i c = Some (c', Some i) \<and> tracks c'"
    if "sgr_body i c = stay i m" "\<exists>d. m = Some d \<and> tracks d" for m
    using that by (auto simp: stay_def)
  note body = sgr_body_def get bind.bind_lunit
  consider "?v = 0" | "?v = 1" | "?v = 5" | "?v = 22" | "?v = 25" | "?v = 27" | "?v = 39" | "?v = 49"
    | "30 \<le> ?v" "?v \<le> 37" | "40 \<le> ?v" "?v \<le> 47"
    using v by (auto simp: basic_sgr_def)
  then show ?thesis
  proof cases
    case 1
    then show ?thesis by (intro stay [OF _ tracks_pieces(1) [OF wf t]]) (simp add: body)
  next
    case 2
    then show ?thesis by (intro stay [OF _ tracks_pieces(2) [OF wf t]]) (simp add: body)
  next
    case 3
    then show ?thesis by (intro stay [OF _ tracks_pieces(3) [OF wf t]]) (simp add: body)
  next
    case 4
    then show ?thesis by (intro stay [OF _ tracks_pieces(4) [OF wf t]]) (simp add: body)
  next
    case 5
    then show ?thesis by (intro stay [OF _ tracks_pieces(5) [OF wf t]]) (simp add: body)
  next
    case 6
    have "\<exists>d. Some c = Some d \<and> tracks d" using t by simp
    with 6 rev show ?thesis by (intro stay [of "Some c"]) (simp_all add: body)
  next
    case 7
    then show ?thesis by (intro stay [OF _ tracks_pieces(6) [OF wf t]]) (simp add: body)
  next
    case 8
    then show ?thesis by (intro stay [OF _ tracks_pieces(7) [OF wf t]]) (simp add: body)
  next
    case 9
    then have ne: "?v \<noteq> 0" "?v \<noteq> 1" "?v \<noteq> 5" "?v \<noteq> 22" "?v \<noteq> 25" by (auto simp: word_le_nat_alt)
    have "unat ?v - 30 < 8" using index_bound [of 30 ?v] 9 by simp
    from tracks_set(1) [OF wf t this] show ?thesis
      using 9 ne rev by (intro stay) (simp_all add: body)
  next
    case 10
    then have ne: "?v \<noteq> 0" "?v \<noteq> 1" "?v \<noteq> 5" "?v \<noteq> 22" "?v \<noteq> 25" "\<not> ?v \<le> 37" by (auto simp: word_le_nat_alt)
    have "unat ?v - 40 < 8" using index_bound [of 40 ?v] 10 by simp
    from tracks_set(2) [OF wf t this] show ?thesis
      using 10 ne rev by (intro stay) (simp_all add: body)
  qed
qed

lemma tracks_loop:
  assumes "term_wf c" "tracks c" "\<forall>v \<in> set (drop i (params c)). basic_sgr v"
  shows "\<exists>c'. sgr_loop i c = Some c' \<and> tracks c'"
  using assms
proof (induction i c rule: sgr_loop.induct)
  case (1 i c)
  show ?case
  proof (cases "i < esc_values_i c")
    case False
    then show ?thesis using 1(3) by (simp add: sgr_loop.simps [of i c])
  next
    case True
    have "basic_sgr (esc_values c ! i)" using 1(4) by (simp add: params_drop [OF 1(2) True])
    from tracks_body [OF 1(2) True 1(3) this] obtain c' where
      c': "sgr_body i c = Some (c', Some i)" "tracks c'" by blast
    have wf: "term_wf c'" "kframe c c'" using sgr_body_good [OF 1(2) True] c'(1) by (simp_all add: body_good_def)
    have "params c' = params c" using kframe_regs [OF wf(2)] by (simp add: params_def)
    then have "\<forall>v \<in> set (drop (i + 1) (params c')). basic_sgr v"
      using 1(4) by (simp add: params_drop [OF 1(2) True])
    from 1(1) [OF True c'(1) refl refl wf(1) c'(2) this] show ?thesis
      using True c'(1) by (simp add: sgr_loop.simps [of i c])
  qed
qed

section \<open>Properties\<close>

text \<open>
  C32: \<open>sgr\<close> always ends; it stays inside the parameter array and the two 8-colour palettes
  for every parameter list, and the only lists on which it leaves an array are those with a
  colour \<open>38;5;n\<close> or \<open>48;5;n\<close> with \<open>n\<close> above 255, which read past the end of
  \<open>col256\<close>. Otherwise it keeps the invariant of the terminal and changes nothing but the
  colours and attributes.
\<close>

theorem sgr_faults_iff:
  assumes "term_wf c"
  shows "(sgr c = None \<longleftrightarrow> sgr_overrun (take (esc_values_i c) (esc_values c))) \<and>
     (\<forall>c'. sgr c = Some c' \<longrightarrow> term_wf c' \<and> forget_colour c' = forget_colour c)"
  using sgr_ok [OF assms] by (auto simp: params_def kframe_def split: option.splits)

definition sample_sgr :: "u32 list \<Rightarrow> ctx" where
  "sample_sgr vs = (sample_ctx 2 2)\<lparr>esc_values := take 16 (vs @ replicate 16 1),
     esc_values_i := min 16 (length vs)\<rparr>"

lemma term_wf_sample_sgr: "term_wf (sample_sgr vs)"
  using term_wf_sample
  by (simp add: sample_sgr_def term_wf_def margins_wf_def palette_wf_def)
     (simp add: parser_wf_def sample_ctx_def)

lemma sample_sgr_params [simp]:
  "take (esc_values_i (sample_sgr vs)) (esc_values (sample_sgr vs)) = take 16 vs"
  by (cases "length vs \<le> 16") (simp_all add: sample_sgr_def min_def)

theorem sgr_faults_iff_witness: "sgr (sample_sgr [38, 5, 256]) = None"
  using sgr_faults_iff [OF term_wf_sample_sgr, of "[38, 5, 256]"] by simp

text \<open>
  Without reverse video, the attribute codes (reset, bold, blink-as-bright, their
  opposites, the 8 foreground and background colours and the defaults) keep the text colours
  equal to the palette entries that the selected colour and the bold flags call for, in any
  order and number.
\<close>

theorem sgr_tracks_colours:
  assumes "term_wf c" "tracks c" "\<forall>v \<in> set (take (esc_values_i c) (esc_values c)). basic_sgr v"
  shows "\<exists>c'. sgr c = Some c' \<and> \<not> reverse_video c' \<and>
     text_fg c' = (if current_primary c' = SZ_MAX
                   then (if bold c' then default_fg_bright c else default_fg c)
                   else (if bold c' then ansi_bright_colours c else ansi_colours c) ! current_primary c') \<and>
     text_bg c' = (if current_bg c' = SZ_MAX
                   then (if bg_bold c' then default_bg_bright c else 0xffffffff)
                   else (if bg_bold c' then ansi_bright_colours c else ansi_colours c) ! current_bg c')"
proof -
  have "\<exists>c'. sgr c = Some c' \<and> tracks c'"
  proof (cases "esc_values_i c = 0")
    case True
    then show ?thesis
      using assms(2) by (simp add: sgr_def tracks_def fg_colour_def bg_colour_def sgr_defs)
  next
    case False
    then show ?thesis
      using tracks_loop [OF assms(1,2), of 0] assms(3) by (simp add: sgr_def params_def)
  qed
  then obtain c' where c': "sgr c = Some c'" "tracks c'" by blast
  then have "kframe c c'" using sgr_ok [OF assms(1)] by simp
  from kframe_regs [OF this] c' show ?thesis by (simp add: tracks_def fg_colour_def bg_colour_def)
qed

theorem sgr_tracks_colours_witness:
  "\<exists>c'. sgr (sample_sgr [1, 31, 44]) = Some c' \<and> \<not> reverse_video c'"
proof -
  have "tracks (sample_sgr [1, 31, 44])"
    by (simp add: sample_sgr_def tracks_def fg_colour_def bg_colour_def sample_ctx_def)
  with sgr_tracks_colours [OF term_wf_sample_sgr, of "[1, 31, 44]"] show ?thesis
    by (auto simp: basic_sgr_def)
qed

definition cube_levels :: "u32 list" where
  "cube_levels = [0, 95, 135, 175, 215, 255]"

text \<open>
  The 256-colour table is the 6x6x6 colour cube followed by the 24-step grey ramp: entry
  \<open>36 r + 6 g + b\<close> has the \<open>r\<close>-th, \<open>g\<close>-th and \<open>b\<close>-th of the levels 0, 95, 135,
  175, 215, 255, and the last 24 entries are the greys 8, 18, ..., 238.
\<close>

theorem col256_cube:
  "col256 = concat (map (\<lambda>r. concat (map (\<lambda>g. map (\<lambda>b. r * 0x10000 + g * 0x100 + b)
     cube_levels) cube_levels)) cube_levels) @ map (\<lambda>v. v * 0x010101)
     [8, 18, 28, 38, 48, 58, 68, 78, 88, 98, 108, 118,
      128, 138, 148, 158, 168, 178, 188, 198, 208, 218, 228, 238]"
  by (simp add: col256_def cube_levels_def)

text \<open>
  Bold-off while reverse video is on, with the default colours, makes text invisible: the
  parameters \<open>7;22\<close> leave foreground and background both the transparent colour, because
  the reversed branch resets the background to the default background instead of the default
  foreground.
\<close>

theorem sgr_reverse_invisible:
  assumes "esc_values c = 7 # 22 # vs" "esc_values_i c = 2"
    and "\<not> reverse_video c" "current_primary c = SZ_MAX" "text_bg c = 0xffffffff"
  shows "\<exists>c'. sgr c = Some c' \<and> text_fg c' = 0xffffffff \<and> text_bg c' = 0xffffffff"
proof -
  let ?c = "flanterm_fb_swap_palette (c\<lparr>reverse_video := True\<rparr>)"
  have 1: "sgr_body 0 c = Some (?c, Some 0)"
    using assms by (simp add: sgr_body_def stay_def)
  have 2: "sgr_body 1 ?c = Some (?c\<lparr>bold := False, text_bg := 0xffffffff\<rparr>, Some 1)"
    using assms by (simp add: sgr_body_def stay_def sgr_defs)
  show ?thesis
    using assms 1 2
    by (simp add: sgr_def sgr_loop.simps [of 0] sgr_loop.simps [of "Suc 0"] sgr_loop.simps [of "Suc (Suc 0)"]
        flanterm_fb_swap_palette_def)
qed

theorem sgr_reverse_invisible_witness:
  "\<exists>c'. sgr (sample_sgr [7, 22]) = Some c' \<and> text_fg c' = text_bg c'"
  using sgr_reverse_invisible [of "sample_sgr [7, 22]" "replicate 14 1"]
  by (auto simp: sample_sgr_def sample_ctx_def)

end
