(* ===== verification/Flanterm_CSI.thy ===== *)
theory Flanterm_CSI
  imports Flanterm_SGR
begin

text \<open>
  Control sequences: the functions of \<open>kernel/flanterm/flanterm.c\<close> from
  \<open>dec_private_parse\<close> to \<open>control_sequence_parse\<close>. The latter reads the parameters of
  \<open>ESC [\<close> into \<open>esc_values\<close> and, at the final byte, runs one of the cursor, erase,
  insert, delete and margin commands. Each case of its switch is a definition \<open>csi_...\<close> with
  the cursor position \<open>(x, y)\<close> the function has read before the switch.
\<close>

section \<open>Small parsers\<close>

definition notify :: "nat \<Rightarrow> nat \<Rightarrow> callback_arg \<Rightarrow> nat \<Rightarrow> ctx \<Rightarrow> ctx" where
  "notify t a b v ctx =
     (if callback ctx then ctx\<lparr>callback_log := callback_log ctx @ [CB t a b v]\<rparr> else ctx)"

definition dec_private_parse :: "ctx \<Rightarrow> u8 \<Rightarrow> ctx option" where
  "dec_private_parse ctx c =
     (let ctx = ctx\<lparr>dec_private := False\<rparr>
      in if esc_values_i ctx = 0 then Some ctx
         else if c \<noteq> 0x68 \<and> c \<noteq> 0x6c then Some ctx
         else do {
           v \<leftarrow> aget (esc_values ctx) 0;
           if v = 25 then Some (ctx\<lparr>cursor_enabled := (c = 0x68)\<rparr>)
           else Some (notify 10 (esc_values_i ctx) (Values (esc_values ctx)) (unat c) ctx)
         })"

definition linux_private_parse :: "ctx \<Rightarrow> ctx" where
  "linux_private_parse ctx =
     (if esc_values_i ctx = 0 then ctx
      else notify 80 (esc_values_i ctx) (Values (esc_values ctx)) 0 ctx)"

definition mode_toggle :: "ctx \<Rightarrow> u8 \<Rightarrow> ctx option" where
  "mode_toggle ctx c =
     (if esc_values_i ctx = 0 then Some ctx
      else if c \<noteq> 0x68 \<and> c \<noteq> 0x6c then Some ctx
      else do {
        v \<leftarrow> aget (esc_values ctx) 0;
        if v = 4 then Some (ctx\<lparr>insert_mode := (c = 0x68)\<rparr>)
        else Some (notify 70 (esc_values_i ctx) (Values (esc_values ctx)) (unat c) ctx)
      })"

definition osc_parse :: "ctx \<Rightarrow> u8 \<Rightarrow> ctx" where
  "osc_parse ctx c =
     (if osc_escape ctx \<and> c = 0x5c then ctx\<lparr>osc_escape := False, osc := False, escape := False\<rparr>
      else let ctx = ctx\<lparr>osc_escape := False\<rparr>
           in if c = 0x1b then ctx\<lparr>osc_escape := True\<rparr>
              else if c = 0x07 then ctx\<lparr>osc_escape := False, osc := False, escape := False\<rparr>
              else ctx)"

section \<open>The commands\<close>

text \<open>\<open>if (cond) ctx->esc_values[k] = v\<close>\<close>

definition put_arg :: "bool \<Rightarrow> ctx \<Rightarrow> nat \<Rightarrow> u32 \<Rightarrow> ctx option" where
  "put_arg b ctx k v =
     (if b then do { vs \<leftarrow> aset (esc_values ctx) k v; Some (ctx\<lparr>esc_values := vs\<rparr>) } else Some ctx)"

definition puts_blank :: "nat \<Rightarrow> ctx \<Rightarrow> ctx option" where
  "puts_blank n ctx = ofold (\<lambda>_ s. flanterm_fb_raw_putchar s 0x20) [0..<n] ctx"

definition csi_up :: "ctx \<Rightarrow> nat \<Rightarrow> nat \<Rightarrow> ctx option" where
  "csi_up ctx x y = do {
     e \<leftarrow> aget (esc_values ctx) 0;
     ctx \<leftarrow> put_arg (y < unat e) ctx 0 (of_nat y);
     e \<leftarrow> aget (esc_values ctx) 0;
     let dest_y = sz_sub y (unat e);
     let will = (dest_y \<le> scroll_top_margin ctx \<and> scroll_top_margin ctx \<le> y)
              \<or> (dest_y \<le> scroll_bottom_margin ctx \<and> scroll_bottom_margin ctx \<le> y);
     let dest_y = (if will \<and> dest_y < scroll_top_margin ctx then scroll_top_margin ctx else dest_y);
     Some (flanterm_fb_set_cursor_pos ctx x dest_y)
   }"

definition csi_down :: "ctx \<Rightarrow> nat \<Rightarrow> nat \<Rightarrow> ctx option" where
  "csi_down ctx x y = do {
     e \<leftarrow> aget (esc_values ctx) 0;
     ctx \<leftarrow> put_arg (sz_sub (rows ctx) 1 < sz_add y (unat e)) ctx 0
              (of_nat (sz_sub (sz_sub (rows ctx) 1) y));
     e \<leftarrow> aget (esc_values ctx) 0;
     let dest_y = sz_add y (unat e);
     let will = (y \<le> scroll_top_margin ctx \<and> scroll_top_margin ctx \<le> dest_y)
              \<or> (y \<le> scroll_bottom_margin ctx \<and> scroll_bottom_margin ctx \<le> dest_y);
     let dest_y = (if will \<and> scroll_bottom_margin ctx \<le> dest_y
                   then sz_sub (scroll_bottom_margin ctx) 1 else dest_y);
     Some (flanterm_fb_set_cursor_pos ctx x dest_y)
   }"

definition csi_right :: "ctx \<Rightarrow> nat \<Rightarrow> nat \<Rightarrow> ctx option" where
  "csi_right ctx x y = do {
     e \<leftarrow> aget (esc_values ctx) 0;
     ctx \<leftarrow> put_arg (sz_sub (cols ctx) 1 < sz_add x (unat e)) ctx 0
              (of_nat (sz_sub (sz_sub (cols ctx) 1) x));
     e \<leftarrow> aget (esc_values ctx) 0;
     Some (flanterm_fb_set_cursor_pos ctx (sz_add x (unat e)) y)
   }"

definition csi_left :: "ctx \<Rightarrow> nat \<Rightarrow> nat \<Rightarrow> ctx option" where
  "csi_left ctx x y = do {
     e \<leftarrow> aget (esc_values ctx) 0;
     ctx \<leftarrow> put_arg (x < unat e) ctx 0 (of_nat x);
     e \<leftarrow> aget (esc_values ctx) 0;
     Some (flanterm_fb_set_cursor_pos ctx (sz_sub x (unat e)) y)
   }"

text \<open>Cases \<open>d\<close> and \<open>G\<close>: decrement the parameter, then cap it at the last row or column.\<close>

definition csi_absolute :: "ctx \<Rightarrow> nat \<Rightarrow> (ctx \<times> nat) option" where
  "csi_absolute ctx n = do {
     e \<leftarrow> aget (esc_values ctx) 0;
     ctx \<leftarrow> put_arg True ctx 0 (e - 1);
     ctx \<leftarrow> put_arg (n \<le> unat (e - 1)) ctx 0 (of_nat (sz_sub n 1));
     e \<leftarrow> aget (esc_values ctx) 0;
     Some (ctx, unat e)
   }"

definition csi_row :: "ctx \<Rightarrow> nat \<Rightarrow> nat \<Rightarrow> ctx option" where
  "csi_row ctx x y = do {
     (ctx, e) \<leftarrow> csi_absolute ctx (rows ctx);
     Some (flanterm_fb_set_cursor_pos ctx x e)
   }"

definition csi_column :: "ctx \<Rightarrow> nat \<Rightarrow> nat \<Rightarrow> ctx option" where
  "csi_column ctx x y = do {
     (ctx, e) \<leftarrow> csi_absolute ctx (cols ctx);
     Some (flanterm_fb_set_cursor_pos ctx e y)
   }"

definition csi_position :: "ctx \<Rightarrow> ctx option" where
  "csi_position ctx = do {
     e0 \<leftarrow> aget (esc_values ctx) 0;
     ctx \<leftarrow> put_arg (e0 \<noteq> 0) ctx 0 (e0 - 1);
     e1 \<leftarrow> aget (esc_values ctx) 1;
     ctx \<leftarrow> put_arg (e1 \<noteq> 0) ctx 1 (e1 - 1);
     e1 \<leftarrow> aget (esc_values ctx) 1;
     ctx \<leftarrow> put_arg (cols ctx \<le> unat e1) ctx 1 (of_nat (sz_sub (cols ctx) 1));
     e0 \<leftarrow> aget (esc_values ctx) 0;
     ctx \<leftarrow> put_arg (rows ctx \<le> unat e0) ctx 0 (of_nat (sz_sub (rows ctx) 1));
     e1 \<leftarrow> aget (esc_values ctx) 1;
     e0 \<leftarrow> aget (esc_values ctx) 0;
     Some (flanterm_fb_set_cursor_pos ctx (unat e1) (unat e0))
   }"

definition csi_delete_lines :: "ctx \<Rightarrow> ctx option" where
  "csi_delete_lines ctx = do {
     e \<leftarrow> aget (esc_values ctx) 0;
     ofold (\<lambda>_ s. flanterm_fb_scroll s) [0..<unat e] ctx
   }"

definition csi_insert_lines :: "ctx \<Rightarrow> nat \<Rightarrow> ctx option" where
  "csi_insert_lines ctx y = do {
     let old_scroll_top_margin = scroll_top_margin ctx;
     e \<leftarrow> aget (esc_values ctx) 0;
     ctx \<leftarrow> ofold (\<lambda>_ s. flanterm_fb_revscroll s) [0..<unat e] (ctx\<lparr>scroll_top_margin := y\<rparr>);
     Some (ctx\<lparr>scroll_top_margin := old_scroll_top_margin\<rparr>)
   }"

definition csi_report :: "ctx \<Rightarrow> nat \<Rightarrow> nat \<Rightarrow> ctx option" where
  "csi_report ctx x y = do {
     e \<leftarrow> aget (esc_values ctx) 0;
     Some (if e = 5 then notify 40 0 (Num 0) 0 ctx
           else if e = 6 then notify 50 (sz_add x 1) (Num (sz_add y 1)) 0 ctx
           else ctx)
   }"

definition csi_leds :: "ctx \<Rightarrow> ctx option" where
  "csi_leds ctx = do {
     e \<leftarrow> aget (esc_values ctx) 0;
     Some (notify 60 (unat e) (Num 0) 0 ctx)
   }"

text \<open>Case \<open>J\<close>. The flag of the nested loops stops them once \<open>(x, y)\<close> has been erased.\<close>

definition erase_below :: "ctx \<Rightarrow> nat \<Rightarrow> nat \<Rightarrow> ctx option" where
  "erase_below ctx x y = do {
     let rows_remaining = sz_sub (rows ctx) (sz_add y 1);
     let cols_diff = sz_sub (cols ctx) (sz_add x 1);
     let to_clear = sz_add (sz_add (sz_mul rows_remaining (cols ctx)) cols_diff) 1;
     ctx \<leftarrow> puts_blank to_clear ctx;
     Some (flanterm_fb_set_cursor_pos ctx x y)
   }"

definition erase_above :: "ctx \<Rightarrow> nat \<Rightarrow> nat \<Rightarrow> ctx option" where
  "erase_above ctx x y = do {
     (ctx, b) \<leftarrow> ofold (\<lambda>yc (s, b). ofold (\<lambda>xc (s, b).
           if b then Some (s, b)
           else do {
             s \<leftarrow> flanterm_fb_raw_putchar s 0x20;
             Some (if xc = x \<and> yc = y then (flanterm_fb_set_cursor_pos s x y, True) else (s, False))
           }) [0..<cols ctx] (s, b)) [0..<rows ctx] (flanterm_fb_set_cursor_pos ctx 0 0, False);
     Some ctx
   }"

definition csi_erase_display :: "ctx \<Rightarrow> nat \<Rightarrow> nat \<Rightarrow> ctx option" where
  "csi_erase_display ctx x y = do {
     e \<leftarrow> aget (esc_values ctx) 0;
     if e = 0 then erase_below ctx x y
     else if e = 1 then erase_above ctx x y
     else if e = 2 \<or> e = 3 then flanterm_fb_clear ctx False
     else Some ctx
   }"

definition csi_insert_chars :: "ctx \<Rightarrow> nat \<Rightarrow> nat \<Rightarrow> ctx option" where
  "csi_insert_chars ctx x y = do {
     e \<leftarrow> aget (esc_values ctx) 0;
     ctx \<leftarrow> ofold (\<lambda>i s. do {
         s \<leftarrow> flanterm_fb_move_character s (sz_add i (unat e)) y i y;
         flanterm_fb_raw_putchar (flanterm_fb_set_cursor_pos s i y) 0x20
       }) (down_until (sz_sub (cols ctx) 1) x) ctx;
     Some (flanterm_fb_set_cursor_pos ctx x y)
   }"

text \<open>Case \<open>X\<close>, into which case \<open>P\<close> falls through.\<close>

definition csi_erase_chars :: "ctx \<Rightarrow> nat \<Rightarrow> nat \<Rightarrow> ctx option" where
  "csi_erase_chars ctx x y = do {
     e \<leftarrow> aget (esc_values ctx) 0;
     ctx \<leftarrow> puts_blank (unat e) ctx;
     Some (flanterm_fb_set_cursor_pos ctx x y)
   }"

definition csi_delete_chars :: "ctx \<Rightarrow> nat \<Rightarrow> nat \<Rightarrow> ctx option" where
  "csi_delete_chars ctx x y = do {
     e \<leftarrow> aget (esc_values ctx) 0;
     ctx \<leftarrow> ofold (\<lambda>i s. flanterm_fb_move_character s (sz_sub i (unat e)) y i y)
       [sz_add x (unat e)..<cols ctx] ctx;
     csi_erase_chars (flanterm_fb_set_cursor_pos ctx (sz_sub (cols ctx) (unat e)) y) x y
   }"

definition csi_erase_line :: "ctx \<Rightarrow> nat \<Rightarrow> nat \<Rightarrow> ctx option" where
  "csi_erase_line ctx x y = do {
     e \<leftarrow> aget (esc_values ctx) 0;
     if e = 0 then do {
       ctx \<leftarrow> ofold (\<lambda>_ s. flanterm_fb_raw_putchar s 0x20) [x..<cols ctx] ctx;
       Some (flanterm_fb_set_cursor_pos ctx x y)
     }
     else if e = 1 then puts_blank x (flanterm_fb_set_cursor_pos ctx 0 y)
     else if e = 2 then do {
       ctx \<leftarrow> puts_blank (cols ctx) (flanterm_fb_set_cursor_pos ctx 0 y);
       Some (flanterm_fb_set_cursor_pos ctx x y)
     }
     else Some ctx
   }"

text \<open>Case \<open>r\<close>: the margins, and the check that falls back to the whole screen.\<close>

definition set_margins :: "ctx \<Rightarrow> u32 \<Rightarrow> u32 \<Rightarrow> ctx" where
  "set_margins ctx e0 e1 =
     (let ctx = ctx\<lparr>scroll_top_margin := 0, scroll_bottom_margin := rows ctx\<rparr>;
          ctx = (if 0 < esc_values_i ctx then ctx\<lparr>scroll_top_margin := unat (e0 - 1)\<rparr> else ctx)
      in if 1 < esc_values_i ctx then ctx\<lparr>scroll_bottom_margin := unat e1\<rparr> else ctx)"

definition check_margins :: "ctx \<Rightarrow> ctx" where
  "check_margins ctx =
     (if rows ctx \<le> scroll_top_margin ctx \<or> rows ctx < scroll_bottom_margin ctx
         \<or> sz_sub (scroll_bottom_margin ctx) 1 \<le> scroll_top_margin ctx
      then ctx\<lparr>scroll_top_margin := 0, scroll_bottom_margin := rows ctx\<rparr> else ctx)"

definition csi_margins :: "ctx \<Rightarrow> ctx option" where
  "csi_margins ctx = do {
     e0 \<leftarrow> aget (esc_values ctx) 0;
     ctx \<leftarrow> put_arg (e0 = 0) ctx 0 1;
     e1 \<leftarrow> aget (esc_values ctx) 1;
     ctx \<leftarrow> put_arg (e1 = 0) ctx 1 1;
     e0 \<leftarrow> aget (esc_values ctx) 0;
     e1 \<leftarrow> aget (esc_values ctx) 1;
     Some (flanterm_fb_set_cursor_pos (check_margins (set_margins ctx e0 e1)) 0 0)
   }"

definition csi_save_cursor :: "ctx \<Rightarrow> ctx" where
  "csi_save_cursor ctx =
     ctx\<lparr>saved_cursor_x := fst (flanterm_fb_get_cursor_pos ctx),
         saved_cursor_y := snd (flanterm_fb_get_cursor_pos ctx)\<rparr>"

text \<open>The switch.\<close>

definition csi_dispatch :: "ctx \<Rightarrow> u8 \<Rightarrow> nat \<Rightarrow> nat \<Rightarrow> ctx option" where
  "csi_dispatch ctx c x y =
     (if c = 0x46 then csi_up ctx 0 y
      else if c = 0x41 then csi_up ctx x y
      else if c = 0x45 then csi_down ctx 0 y
      else if c = 0x65 \<or> c = 0x42 then csi_down ctx x y
      else if c = 0x61 \<or> c = 0x43 then csi_right ctx x y
      else if c = 0x44 then csi_left ctx x y
      else if c = 0x63 then Some (notify 30 0 (Num 0) 0 ctx)
      else if c = 0x64 then csi_row ctx x y
      else if c = 0x47 \<or> c = 0x60 then csi_column ctx x y
      else if c = 0x48 \<or> c = 0x66 then csi_position ctx
      else if c = 0x4d then csi_delete_lines ctx
      else if c = 0x4c then csi_insert_lines ctx y
      else if c = 0x6e then csi_report ctx x y
      else if c = 0x71 then csi_leds ctx
      else if c = 0x4a then csi_erase_display ctx x y
      else if c = 0x40 then csi_insert_chars ctx x y
      else if c = 0x50 then csi_delete_chars ctx x y
      else if c = 0x58 then csi_erase_chars ctx x y
      else if c = 0x6d then sgr ctx
      else if c = 0x73 then Some (csi_save_cursor ctx)
      else if c = 0x75 then
        Some (flanterm_fb_set_cursor_pos ctx (saved_cursor_x ctx) (saved_cursor_y ctx))
      else if c = 0x4b then csi_erase_line ctx x y
      else if c = 0x72 then csi_margins ctx
      else if c = 0x6c \<or> c = 0x68 then mode_toggle ctx c
      else if c = 0x5d then Some (linux_private_parse ctx)
      else Some ctx)"

definition csi_cleanup :: "ctx \<Rightarrow> ctx" where
  "csi_cleanup ctx = ctx\<lparr>control_sequence := False, escape := False\<rparr>"

text \<open>From the computation of \<open>esc_default\<close> to the end of the function.\<close>

definition csi_execute :: "ctx \<Rightarrow> u8 \<Rightarrow> ctx option" where
  "csi_execute ctx c = do {
     let esc_default = (if c = 0x4a \<or> c = 0x4b \<or> c = 0x71 then 0 else 1);
     ctx \<leftarrow> ofold (\<lambda>i s. put_arg True s i esc_default) [esc_values_i ctx..<16] ctx;
     if dec_private ctx then do {
       ctx \<leftarrow> dec_private_parse ctx c;
       Some (csi_cleanup ctx)
     } else do {
       let r = scroll_enabled ctx;
       let ctx = ctx\<lparr>scroll_enabled := False\<rparr>;
       let (x, y) = flanterm_fb_get_cursor_pos ctx;
       ctx \<leftarrow> csi_dispatch ctx c x y;
       Some (csi_cleanup (ctx\<lparr>scroll_enabled := r\<rparr>))
     }
   }"

definition control_sequence_parse :: "ctx \<Rightarrow> u8 \<Rightarrow> ctx option" where
  "control_sequence_parse ctx c =
     (if escape_offset ctx = 2 \<and> c = 0x5b then Some (csi_cleanup (ctx\<lparr>discard_next := True\<rparr>))
      else if escape_offset ctx = 2 \<and> c = 0x3f then Some (ctx\<lparr>dec_private := True\<rparr>)
      else if 0x30 \<le> c \<and> c \<le> 0x39 then
        (if esc_values_i ctx = 16 then Some ctx
         else do {
           v \<leftarrow> aget (esc_values ctx) (esc_values_i ctx);
           put_arg True (ctx\<lparr>rrr := True\<rparr>) (esc_values_i ctx) (v * 10 + ucast (c - 0x30))
         })
      else if rrr ctx then
        (let ctx = ctx\<lparr>esc_values_i := sz_add (esc_values_i ctx) 1, rrr := False\<rparr>
         in if c = 0x3b then Some ctx else csi_execute ctx c)
      else if c = 0x3b then
        (if esc_values_i ctx = 16 then Some ctx
         else do {
           ctx \<leftarrow> put_arg True ctx (esc_values_i ctx) 0;
           Some (ctx\<lparr>esc_values_i := sz_add (esc_values_i ctx) 1\<rparr>)
         })
      else csi_execute ctx c)"

section \<open>Every command but the colour one succeeds\<close>

definition term_ok :: "ctx option \<Rightarrow> bool" where
  "term_ok m \<longleftrightarrow> (\<exists>c'. m = Some c' \<and> term_wf c')"

named_theorems term_oks

lemma term_ok_Some [simp]: "term_ok (Some c) = term_wf c"
  by (simp add: term_ok_def)

lemma term_ok_bind: "term_ok m \<Longrightarrow> (\<And>c. term_wf c \<Longrightarrow> term_ok (f c)) \<Longrightarrow> term_ok (m \<bind> f)"
  by (auto simp: term_ok_def)

lemma term_ok_if: "(b \<Longrightarrow> term_ok m) \<Longrightarrow> (\<not> b \<Longrightarrow> term_ok m') \<Longrightarrow> term_ok (if b then m else m')"
  by simp

lemma term_ok_arg:
  assumes "term_wf c" "k < 16" "\<And>v. term_ok (f v)"
  shows "term_ok (aget (esc_values c) k \<bind> f)"
  using assms term_wf_colours(5) [OF assms(1)] by simp

lemma term_ok_put_arg: "term_wf c \<Longrightarrow> k < 16 \<Longrightarrow> term_ok (put_arg b c k v)"
  using term_wf_colours(5) [of c]
  by (simp add: put_arg_def term_wf_def margins_wf_def palette_wf_def) (simp add: parser_wf_def)

lemma term_ok_loop:
  assumes "\<And>i s. term_wf s \<Longrightarrow> term_ok (f i s)" "term_wf c"
  shows "term_ok (ofold f is c)"
  using ofold_invariant [of term_wf f] assms unfolding term_ok_def by blast

lemma term_ok_backend [term_oks]:
  assumes "term_wf c"
  shows "term_ok (flanterm_fb_scroll c)" "term_ok (flanterm_fb_revscroll c)"
    "term_ok (flanterm_fb_clear c b)" "term_ok (flanterm_fb_move_character c nx ny ox oy)"
    "term_ok (flanterm_fb_raw_putchar c v)" "term_ok (flanterm_fb_double_buffer_flush c)"
  using fbt.scroll [OF assms] fbt.revscroll [OF assms] fbt.clear [OF assms]
    fbt.move [OF assms] fbt.put [OF assms] fbt.flush [OF assms]
  unfolding term_ok_def by blast+

lemma term_ok_fill [term_oks]:
  "term_wf c \<Longrightarrow> term_ok (ofold (\<lambda>_ s. flanterm_fb_raw_putchar s b) is c)"
  "term_wf c \<Longrightarrow> term_ok (ofold (\<lambda>i s. flanterm_fb_move_character s (X i) y i y) is c)"
  "term_wf c \<Longrightarrow> term_ok (ofold (\<lambda>_ s. flanterm_fb_scroll s) is c)"
  using fbt.fill [of c b "is"] fbt.shift [of c X y "is"] fbt.scrolls [of c "is"] unfolding term_ok_def by blast+

lemma term_ok_puts_blank [term_oks]: "term_wf c \<Longrightarrow> term_ok (puts_blank n c)"
  unfolding puts_blank_def by (rule term_oks)

lemma term_wf_notify [simp]: "term_wf (notify t a b v c) = term_wf c"
  by (simp add: notify_def)

lemma term_ok_cursor_commands [term_oks]:
  assumes "term_wf c"
  shows "term_ok (csi_up c x y)" "term_ok (csi_down c x y)" "term_ok (csi_right c x y)"
    "term_ok (csi_left c x y)" "term_ok (csi_position c)" "term_ok (csi_report c x y)"
    "term_ok (csi_leds c)"
  unfolding csi_up_def csi_down_def csi_right_def csi_left_def csi_position_def csi_report_def
    csi_leds_def Let_def
  by (intro term_ok_arg term_ok_bind [OF term_ok_put_arg]; simp add: assms)+

lemma csi_absolute_ok:
  assumes "term_wf c"
  shows "\<exists>c' e. csi_absolute c n = Some (c', e) \<and> term_wf c'"
proof -
  obtain e where e: "aget (esc_values c) 0 = Some e" using term_wf_colours(5) [OF assms] by simp
  obtain c1 where c1: "put_arg True c 0 (e - 1) = Some c1" "term_wf c1"
    using term_ok_put_arg [OF assms, of 0] by (auto simp: term_ok_def)
  obtain c2 where c2: "put_arg (n \<le> unat (e - 1)) c1 0 (of_nat (sz_sub n 1)) = Some c2" "term_wf c2"
    using term_ok_put_arg [OF c1(2), of 0] by (auto simp: term_ok_def)
  obtain e' where "aget (esc_values c2) 0 = Some e'" using term_wf_colours(5) [OF c2(2)] by simp
  with e c1 c2 show ?thesis by (simp add: csi_absolute_def)
qed

lemma term_ok_absolute [term_oks]:
  assumes "term_wf c"
  shows "term_ok (csi_row c x y)" "term_ok (csi_column c x y)"
  using csi_absolute_ok [OF assms, of "rows c"] csi_absolute_ok [OF assms, of "cols c"]
  by (auto simp: csi_row_def csi_column_def)

lemma term_ok_delete_lines [term_oks]: "term_wf c \<Longrightarrow> term_ok (csi_delete_lines c)"
  unfolding csi_delete_lines_def
  by (intro term_ok_arg term_ok_loop) (auto intro: term_oks)

text \<open>
  Insert-line works with a temporary top margin, so the margins are not ordered while it runs.
\<close>

lemma revscroll_loop:
  assumes "drawn c" "scroll_top_margin c < rows c"
    "0 < scroll_bottom_margin c" "scroll_bottom_margin c \<le> rows c"
  shows "\<exists>c'. ofold (\<lambda>_ s. flanterm_fb_revscroll s) [0..<n] c = Some c' \<and> drawn c' \<and> qframe c c'"
proof (rule ofold_invariant [of "\<lambda>s. drawn s \<and> qframe c s"])
  show "\<exists>s'. flanterm_fb_revscroll s = Some s' \<and> drawn s' \<and> qframe c s'" if "drawn s \<and> qframe c s" for s
    using drawn_revscroll [of s] qframe_geom [of c s] that assms(2-4) by (auto intro: qframe_trans)
qed (simp add: assms(1))

lemma qframe_margin:
  assumes "qframe (c\<lparr>scroll_top_margin := y\<rparr>) c'"
  shows "qframe c (c'\<lparr>scroll_top_margin := scroll_top_margin c\<rparr>)"
proof -
  have "forget_queue (c'\<lparr>scroll_top_margin := v\<rparr>) = (forget_queue c')\<lparr>scroll_top_margin := v\<rparr>"
    "forget_queue (c\<lparr>scroll_top_margin := y\<rparr>) = (forget_queue c)\<lparr>scroll_top_margin := y\<rparr>"
    "(forget_queue c)\<lparr>scroll_top_margin := scroll_top_margin c\<rparr> = forget_queue c" for v
    by (simp_all add: forget_queue_def)
  then show ?thesis using assms by (simp add: qframe_def)
qed

lemma insert_lines_run:
  assumes wf: "term_wf c" and y: "y < rows c" and e: "n = unat (esc_values c ! 0)"
  shows "\<exists>c'. ofold (\<lambda>_ s. flanterm_fb_revscroll s) [0..<n] (c\<lparr>scroll_top_margin := y\<rparr>) = Some c' \<and>
     csi_insert_lines c y = Some (c'\<lparr>scroll_top_margin := scroll_top_margin c\<rparr>) \<and>
     drawn c' \<and> qframe (c\<lparr>scroll_top_margin := y\<rparr>) c'"
proof -
  have "drawn (c\<lparr>scroll_top_margin := y\<rparr>)" using term_wfD(1) [OF wf] by simp
  from revscroll_loop [OF this, of n] obtain c' where
    "ofold (\<lambda>_ s. flanterm_fb_revscroll s) [0..<n] (c\<lparr>scroll_top_margin := y\<rparr>) = Some c'"
    "drawn c'" "qframe (c\<lparr>scroll_top_margin := y\<rparr>) c'"
    using y term_wf_dims [OF wf] by auto
  then show ?thesis
    using e term_wf_colours(5) [OF wf] by (simp add: csi_insert_lines_def Let_def)
qed

lemma term_ok_insert_lines [term_oks]:
  assumes "term_wf c" "y < rows c"
  shows "term_ok (csi_insert_lines c y)"
proof -
  obtain c' where c': "csi_insert_lines c y = Some (c'\<lparr>scroll_top_margin := scroll_top_margin c\<rparr>)"
    "drawn c'" "qframe (c\<lparr>scroll_top_margin := y\<rparr>) c'"
    using insert_lines_run [OF assms refl] by blast
  then show ?thesis
    using term_wf_qframe [OF assms(1) qframe_margin [OF c'(3)]] by simp
qed

lemma term_ok_erase_above [term_oks]:
  assumes "term_wf c"
  shows "term_ok (erase_above c x y)"
proof -
  let ?body = "\<lambda>yc xc (s, b). if b then Some (s, b)
           else do {
             s \<leftarrow> flanterm_fb_raw_putchar s 0x20;
             Some (if xc = x \<and> yc = y then (flanterm_fb_set_cursor_pos s x y, True) else (s, False))
           }"
  have step: "\<exists>s' b'. ?body yc xc (s, b) = Some (s', b') \<and> term_wf s'" if "term_wf s" for yc xc s b
    using that fbt.put [OF that, of "0x20"] by auto
  note inv = ofold_invariant [of "\<lambda>(s, b). term_wf s"]
  have row: "\<exists>p'. ofold (?body yc) is p = Some p' \<and> (case p' of (s, b) \<Rightarrow> term_wf s)"
    if "case p of (s, b) \<Rightarrow> term_wf s" for yc "is" p
    by (rule inv [OF _ that]) (use step in fastforce)
  have "\<exists>p'. ofold (\<lambda>yc p. ofold (?body yc) [0..<cols c] p) [0..<rows c] (flanterm_fb_set_cursor_pos c 0 0, False)
      = Some p' \<and> (case p' of (s, b) \<Rightarrow> term_wf s)"
    by (rule inv) (use row assms in simp_all)
  then show ?thesis by (auto simp: erase_above_def)
qed

lemma term_ok_erase [term_oks]:
  assumes "term_wf c"
  shows "term_ok (erase_below c x y)" "term_ok (csi_erase_display c x y)"
    "term_ok (csi_erase_chars c x y)" "term_ok (csi_erase_line c x y)"
proof -
  show "term_ok (erase_below c x y)"
    unfolding erase_below_def Let_def by (intro term_ok_bind [OF term_ok_puts_blank]) (simp_all add: assms)
  then show "term_ok (csi_erase_display c x y)"
    unfolding csi_erase_display_def
    by (intro term_ok_arg term_ok_if) (auto intro: term_oks simp: assms)
  show "term_ok (csi_erase_chars c x y)"
    unfolding csi_erase_chars_def
    by (intro term_ok_arg term_ok_bind [OF term_ok_puts_blank]) (simp_all add: assms)
  show "term_ok (csi_erase_line c x y)"
    unfolding csi_erase_line_def
    by (intro term_ok_arg term_ok_if term_ok_bind [OF term_ok_fill(1)] term_ok_bind [OF term_ok_puts_blank]
        term_ok_puts_blank) (simp_all add: assms)
qed

lemma term_ok_chars [term_oks]:
  assumes "term_wf c"
  shows "term_ok (csi_insert_chars c x y)" "term_ok (csi_delete_chars c x y)"
proof -
  have ins: "term_ok (do { s \<leftarrow> flanterm_fb_move_character d nx y i y;
         flanterm_fb_raw_putchar (flanterm_fb_set_cursor_pos s i y) 0x20 })" if "term_wf d" for d nx i
    by (intro term_ok_bind term_oks) (use that in simp_all)
  show "term_ok (csi_insert_chars c x y)"
    unfolding csi_insert_chars_def
    by (intro term_ok_arg term_ok_bind [OF term_ok_loop [OF ins]]) (simp_all add: assms)
  show "term_ok (csi_delete_chars c x y)"
    unfolding csi_delete_chars_def
    by (intro term_ok_arg term_ok_bind [OF term_ok_fill(2)] term_oks) (simp_all add: assms)
qed

lemma put_arg_in: "k < length (esc_values c) \<Longrightarrow>
    put_arg b c k v = Some (if b then c\<lparr>esc_values := (esc_values c)[k := v]\<rparr> else c)"
  by (simp add: put_arg_def)

text \<open>The scroll region that \<open>ESC [ top ; bottom r\<close> selects.\<close>

definition new_margins :: "nat \<Rightarrow> nat \<Rightarrow> nat \<Rightarrow> nat \<times> nat" where
  "new_margins h t b = (if t + 1 < b \<and> b \<le> h then (t, b) else (0, h))"

lemma csi_margins_eq:
  assumes wf: "term_wf c"
  defines "e0 \<equiv> esc_values c ! 0" and "e1 \<equiv> esc_values c ! 1"
  defines "t \<equiv> (if 0 < esc_values_i c \<and> e0 \<noteq> 0 then unat e0 - 1 else 0)"
    and "b \<equiv> (if 1 < esc_values_i c then (if e1 = 0 then 1 else unat e1) else rows c)"
  shows "\<exists>vs. csi_margins c = Some (c\<lparr>esc_values := vs,
      scroll_top_margin := fst (new_margins (rows c) t b),
      scroll_bottom_margin := snd (new_margins (rows c) t b), cursor_x := 0, cursor_y := 0\<rparr>) \<and>
    length vs = 16"
proof -
  note len = term_wf_colours(5) [OF wf]
  note dims = term_wf_dims [OF wf]
  define f0 where "f0 = (if e0 = 0 then 1 else e0)"
  define f1 where "f1 = (if e1 = 0 then 1 else e1)"
  let ?vs = "(esc_values c)[0 := f0, Suc 0 := f1]"
  have f0: "unat (f0 - 1) = (if e0 = 0 then 0 else unat e0 - 1)"
    by (auto simp: f0_def unat_sub word_le_nat_alt unat_gt_0 Suc_le_eq)
  have f1: "unat f1 = (if e1 = 0 then 1 else unat e1)" by (simp add: f1_def)
  have tt: "t = (if 0 < esc_values_i c then unat (f0 - 1) else 0)"
    by (simp add: t_def f0)
  have bb: "b = (if 1 < esc_values_i c then unat f1 else rows c)" by (simp add: b_def f1)
  have b_pos: "0 < b" using dims(1) by (simp add: b_def unat_gt_0)
  have bad: "(rows c \<le> t \<or> rows c < b \<or> sz_sub b (Suc 0) \<le> t) \<longleftrightarrow> \<not> (t + 1 < b \<and> b \<le> rows c)"
    using b_pos by (auto simp: sz_simps)
  have id: "(esc_values c)[0 := esc_values c ! 0, Suc 0 := v] = (esc_values c)[Suc 0 := v]" for v
    by simp
  have 1: "put_arg (e0 = 0) c 0 1 = Some (c\<lparr>esc_values := (esc_values c)[0 := f0]\<rparr>)"
    using len by (simp add: put_arg_in f0_def e0_def)
  let ?c1 = "c\<lparr>esc_values := (esc_values c)[0 := f0]\<rparr>"
  have 2: "put_arg (e1 = 0) ?c1 (Suc 0) 1 = Some (c\<lparr>esc_values := ?vs\<rparr>)"
  proof (cases "e1 = 0")
    case True
    then show ?thesis using len by (simp add: put_arg_in f1_def)
  next
    case False
    then have "?vs = (esc_values c)[0 := f0]"
      using len by (simp add: f1_def e1_def list_update_same_conv)
    then show ?thesis using len False by (simp add: put_arg_in)
  qed
  have "csi_margins c = Some (c\<lparr>esc_values := ?vs,
      scroll_top_margin := fst (new_margins (rows c) t b),
      scroll_bottom_margin := snd (new_margins (rows c) t b), cursor_x := 0, cursor_y := 0\<rparr>)"
  proof -
    let ?d = "c\<lparr>esc_values := ?vs\<rparr>"
    have e: "esc_values c ! 0 = e0" "esc_values c ! Suc 0 = e1" by (simp_all add: e0_def e1_def)
    have set: "set_margins ?d f0 f1 = ?d\<lparr>scroll_top_margin := t, scroll_bottom_margin := b\<rparr>"
      unfolding tt bb by (simp add: set_margins_def Let_def)
    have home: "flanterm_fb_set_cursor_pos d 0 0 = d\<lparr>cursor_x := 0, cursor_y := 0\<rparr>"
      if "rows d = rows c" "cols d = cols c" for d
      using dims(1,2) that by (simp add: flanterm_fb_set_cursor_pos_def clamp_pos_id)
    have "csi_margins c = Some (flanterm_fb_set_cursor_pos (check_margins (set_margins ?d f0 f1)) 0 0)"
      using len 1 2 by (simp add: csi_margins_def e)
    then show ?thesis
      using bad unfolding set check_margins_def by (simp add: home new_margins_def)
  qed
  then show ?thesis using len by (intro exI [of _ ?vs]) simp
qed

lemma new_margins_ok:
  "0 < h \<Longrightarrow> fst (new_margins h t b) < snd (new_margins h t b) \<and> snd (new_margins h t b) \<le> h"
  by (auto simp: new_margins_def)

lemma term_wf_esc_values: "term_wf c \<Longrightarrow> length vs = 16 \<Longrightarrow> term_wf (c\<lparr>esc_values := vs\<rparr>)"
  by (simp add: term_wf_def margins_wf_def palette_wf_def parser_wf_def)

lemma term_wf_margins:
  "term_wf c \<Longrightarrow> t < b \<Longrightarrow> b \<le> rows c \<Longrightarrow> term_wf (c\<lparr>scroll_top_margin := t, scroll_bottom_margin := b\<rparr>)"
  by (simp add: term_wf_def margins_wf_def palette_wf_def parser_wf_def)

lemma term_ok_margins [term_oks]: "term_wf c \<Longrightarrow> term_ok (csi_margins c)"
  using csi_margins_eq [of c] new_margins_ok [OF term_wf_dims(1)] term_wf_esc_values term_wf_margins
  by (fastforce simp: term_ok_def)

lemma term_ok_modes [term_oks]:
  assumes "term_wf c"
  shows "term_ok (mode_toggle c b)" "term_ok (dec_private_parse c b)"
  unfolding mode_toggle_def dec_private_parse_def Let_def
  by (intro term_ok_if; (intro term_ok_arg)?; simp add: assms)+

lemma term_wf_osc [simp]: "term_wf (osc_parse c b) = term_wf c" "term_wf (linux_private_parse c) = term_wf c"
  "term_wf (csi_save_cursor c) = term_wf c" "term_wf (csi_cleanup c) = term_wf c"
  by (simp_all add: osc_parse_def Let_def linux_private_parse_def csi_save_cursor_def csi_cleanup_def)

lemma dispatch_ok:
  assumes "term_wf c" "y < rows c" "b \<noteq> 0x6d"
  shows "term_ok (csi_dispatch c b x y)"
  unfolding csi_dispatch_def
  by (intro term_ok_if term_oks) (use assms in simp_all)

lemma fill_defaults:
  "length (esc_values c) = 16 \<Longrightarrow> n \<le> 16 \<Longrightarrow>
   ofold (\<lambda>i s. put_arg True s i d) [n..<16] c
   = Some (c\<lparr>esc_values := take n (esc_values c) @ replicate (16 - n) d\<rparr>)"
proof (induction "16 - n" arbitrary: n c)
  case (Suc k)
  then have n: "n < 16" by simp
  let ?c = "c\<lparr>esc_values := (esc_values c)[n := d]\<rparr>"
  have "[n..<16] = n # [Suc n..<16]" using n by (simp add: upt_conv_Cons)
  moreover have "16 - n = Suc (16 - Suc n)" using n by simp
  moreover have "take (Suc n) ((esc_values c)[n := d]) = take n (esc_values c) @ [d]"
    using n Suc.prems by (simp add: take_Suc_conv_app_nth)
  ultimately show ?case
    using Suc.hyps(1) [of "Suc n" ?c] Suc.hyps(2) Suc.prems n by (simp add: put_arg_in)
qed simp

lemma execute_ok:
  assumes wf: "term_wf c"
  shows "case csi_execute c b of
      None \<Rightarrow> b = 0x6d \<and> \<not> dec_private c \<and> sgr_overrun (params c)
    | Some c' \<Rightarrow> term_wf c' \<and> \<not> (b = 0x6d \<and> \<not> dec_private c \<and> sgr_overrun (params c))"
proof -
  note len = term_wf_colours(5,6) [OF wf]
  define d :: u32 where "d = (if b = 0x4a \<or> b = 0x4b \<or> b = 0x71 then 0 else 1)"
  define vs where "vs = take (esc_values_i c) (esc_values c) @ replicate (16 - esc_values_i c) d"
  let ?c = "c\<lparr>esc_values := vs\<rparr>"
  have fill: "ofold (\<lambda>i s. put_arg True s i d) [esc_values_i c..<16] c = Some ?c"
    unfolding vs_def by (rule fill_defaults) (use len in simp_all)
  have wf': "term_wf ?c" using wf len by (intro term_wf_esc_values) (simp_all add: vs_def)
  have params: "params (?c\<lparr>scroll_enabled := s\<rparr>) = params c" for s
    using len by (simp add: params_def vs_def)
  show ?thesis
  proof (cases "dec_private c")
    case True
    then obtain c' where "dec_private_parse ?c b = Some c'" "term_wf c'"
      using term_ok_modes(2) [OF wf'] unfolding term_ok_def by blast
    then show ?thesis using True fill by (simp add: csi_execute_def d_def)
  next
    case False
    let ?d = "?c\<lparr>scroll_enabled := False\<rparr>"
    obtain x y where xy: "flanterm_fb_get_cursor_pos ?d = (x, y)" by fastforce
    have wd: "term_wf ?d" using wf' by simp
    have y: "y < rows ?d" by (rule get_cursor_pos_less(2) [OF term_wfD(5) [OF wd] xy])
    have eq: "csi_execute c b = (case csi_dispatch ?d b x y of None \<Rightarrow> None
        | Some c' \<Rightarrow> Some (csi_cleanup (c'\<lparr>scroll_enabled := scroll_enabled c\<rparr>)))"
      using False fill xy by (simp add: csi_execute_def d_def Let_def split: option.split)
    show ?thesis
    proof (cases "b = 0x6d")
      case True
      then have "csi_dispatch ?d b x y = sgr ?d" by (simp add: csi_dispatch_def)
      then show ?thesis
        using sgr_ok [OF wd] True False eq params by (simp split: option.splits)
    next
      case b: False
      from dispatch_ok [OF wd y b, of x] show ?thesis using eq b by (auto simp: term_ok_def)
    qed
  qed
qed

lemma term_wf_next_value:
  "term_wf c \<Longrightarrow> esc_values_i c < 16 \<Longrightarrow>
   term_wf (c\<lparr>esc_values_i := Suc (esc_values_i c), rrr := False\<rparr>)"
  "term_wf c \<Longrightarrow> esc_values_i c < 16 \<Longrightarrow> \<not> rrr c \<Longrightarrow>
   term_wf (c\<lparr>esc_values_i := Suc (esc_values_i c)\<rparr>)"
  "term_wf c \<Longrightarrow> esc_values_i c < 16 \<Longrightarrow> term_wf (c\<lparr>rrr := True\<rparr>)"
  by (simp_all add: term_wf_def margins_wf_def palette_wf_def parser_wf_def)

text \<open>The parameters of the sequence once its final byte is there.\<close>

definition pending_params :: "ctx \<Rightarrow> u32 list" where
  "pending_params c = take (esc_values_i c + (if rrr c then 1 else 0)) (esc_values c)"

lemma control_sequence_ok:
  assumes wf: "term_wf c"
  shows "case control_sequence_parse c b of
      None \<Rightarrow> b = 0x6d \<and> \<not> dec_private c \<and> sgr_overrun (pending_params c)
    | Some c' \<Rightarrow> term_wf c' \<and>
        \<not> (b = 0x6d \<and> \<not> dec_private c \<and> sgr_overrun (pending_params c))"
proof -
  note len = term_wf_colours(5,6) [OF wf]
  have r: "rrr c \<Longrightarrow> esc_values_i c < 16" using wf by (simp add: term_wf_def parser_wf_def)
  have sz: "sz_add (esc_values_i c) (Suc 0) = Suc (esc_values_i c)"
    using len(2) by (simp add: sz_simps SZ_def)
  consider "escape_offset c = 2 \<and> (b = 0x5b \<or> b = 0x3f)"
    | "\<not> (escape_offset c = 2 \<and> (b = 0x5b \<or> b = 0x3f))" "0x30 \<le> b \<and> b \<le> 0x39"
    | "\<not> (escape_offset c = 2 \<and> (b = 0x5b \<or> b = 0x3f))" "\<not> (0x30 \<le> b \<and> b \<le> 0x39)"
    by blast
  then show ?thesis
  proof cases
    case 1
    then show ?thesis using wf by (auto simp: control_sequence_parse_def)
  next
    case 2
    then show ?thesis
      using wf len term_wf_next_value(3) [OF wf] term_wf_esc_values
      by (auto simp: control_sequence_parse_def put_arg_in)
  next
    case 3
    show ?thesis
    proof (cases "rrr c")
      case True
      let ?c = "c\<lparr>esc_values_i := Suc (esc_values_i c), rrr := False\<rparr>"
      have wc: "term_wf ?c" using wf r [OF True] by (rule term_wf_next_value)
      have "control_sequence_parse c b = (if b = 0x3b then Some ?c else csi_execute ?c b)"
        using 3 True by (auto simp: control_sequence_parse_def sz)
      then show ?thesis
        using execute_ok [OF wc, of b] wc True
        by (auto simp: params_def pending_params_def split: option.splits)
    next
      case False
      then show ?thesis
        using 3 execute_ok [OF wf, of b] wf len term_wf_next_value(2) [OF term_wf_esc_values [OF wf]]
        by (auto simp: control_sequence_parse_def params_def pending_params_def put_arg_in sz
            split: option.splits)
    qed
  qed
qed

end
