(* ===== verification/Flanterm_Edit.thy ===== *)
theory Flanterm_Edit
  imports Flanterm_CSI
begin

text \<open>
  What the control sequences do: cursor motions with their limits, erasing and shifting of
  cells, insertion and deletion of lines, the scroll region. Each property describes a command
  of \<open>control_sequence_parse\<close> (\<open>kernel/flanterm/flanterm.c\<close>) by its effect on the
  logical screen and the cursor.
\<close>

section \<open>Runs of characters\<close>

text \<open>
  The cursor as a position in the list of cells; the column \<open>cols\<close> of a row, where the
  cursor waits for the wrap, is the first position of the next row.
\<close>

definition pos :: "ctx \<Rightarrow> nat" where
  "pos c = cursor_y c * cols c + cursor_x c"

definition overlay :: "nat \<Rightarrow> 'a list \<Rightarrow> 'a list \<Rightarrow> 'a list" where
  "overlay p xs cs = take p cs @ xs @ drop (p + length xs) cs"

lemma overlay_Nil [simp]: "overlay p [] cs = cs"
  by (simp add: overlay_def)

lemma overlay_snoc:
  "p + length xs < length cs \<Longrightarrow> (overlay p xs cs)[p + length xs := a] = overlay p (xs @ [a]) cs"
  by (simp add: overlay_def list_update_append flip: Cons_nth_drop_Suc)

lemma length_overlay [simp]: "p + length xs \<le> length cs \<Longrightarrow> length (overlay p xs cs) = length cs"
  by (simp add: overlay_def)

lemma ofold_map: "ofold (\<lambda>i. f (g i)) is s = ofold f (map g is) s"
  by (induction "is" arbitrary: s) auto

lemma ofold_const: "ofold (\<lambda>_. f a) is s = ofold f (replicate (length is) a) s"
  using ofold_map [of f "\<lambda>_. a"] by (simp add: map_replicate_const)

lemma glyph_cell_frame: "cframe c c' \<Longrightarrow> glyph_cell c' = glyph_cell c"
  by (simp add: glyph_cell_def cframe_geom fun_eq_iff)

lemma glyph_cell_blank: "glyph_cell c 0x20 = empty_char c"
  by (simp add: glyph_cell_def empty_char_def)

lemma put_line:
  assumes "fb_wf c" "cursor_y c < rows c" "cursor_x c + length bs \<le> cols c"
  shows "\<exists>c'. ofold (\<lambda>b s. flanterm_fb_raw_putchar s b) bs c = Some c' \<and> fb_wf c' \<and> cframe c c' \<and>
     screen c' = overlay (pos c) (map (glyph_cell c) bs) (screen c) \<and>
     cursor_x c' = cursor_x c + length bs \<and> cursor_y c' = cursor_y c"
  using assms(3)
proof (induction bs rule: rev_induct)
  case Nil
  then show ?case using assms(1) by simp
next
  case (snoc b bs)
  then obtain s where s: "ofold (\<lambda>b s. flanterm_fb_raw_putchar s b) bs c = Some s" "fb_wf s"
    "cframe c s" "screen s = overlay (pos c) (map (glyph_cell c) bs) (screen c)"
    "cursor_x s = cursor_x c + length bs" "cursor_y s = cursor_y c" by auto
  have d: "cols s = cols c" "rows s = rows c" using cframe_geom [OF s(3)] by simp_all
  have x: "cursor_x s < cols s" "cursor_y s < rows s" using snoc.prems assms(2) s(5,6) d by simp_all
  from raw_putchar_no_wrap [OF s(2) x, of b] obtain c' where
    c': "flanterm_fb_raw_putchar s b = Some c'" "fb_wf c'" "cframe s c'"
    "screen c' = (screen s)[cursor_y s * cols s + cursor_x s := glyph_cell s b]"
    "cursor_x c' = Suc (cursor_x s)" "cursor_y c' = cursor_y s" by blast
  have p: "cursor_y s * cols s + cursor_x s = pos c + length (map (glyph_cell c) bs)"
    using s(5,6) d by (simp add: pos_def)
  have "pos c + length bs < rows c * cols c" using cell_index [OF x] s(5,6) d by (simp add: pos_def)
  then have "screen c' = overlay (pos c) (map (glyph_cell c) (bs @ [b])) (screen c)"
    unfolding c'(4) p s(4) glyph_cell_frame [OF s(3)] by (subst overlay_snoc) simp_all
  then show ?case
    using s c' cframe_trans by (auto simp: ofold_append)
qed

lemma put_linear:
  assumes wf: "fb_wf c" and m: "margins_wf c" and sq: "rows c \<le> cols c"
    and x: "cursor_x c \<le> cols c" and y: "cursor_y c < scroll_bottom_margin c"
    and p: "pos c < scroll_bottom_margin c * cols c"
  shows "\<exists>c'. flanterm_fb_raw_putchar c b = Some c' \<and> fb_wf c' \<and> cframe c c' \<and>
     screen c' = (screen c)[pos c := glyph_cell c b] \<and> pos c' = Suc (pos c) \<and>
     cursor_x c' \<le> cols c \<and> cursor_y c' < scroll_bottom_margin c"
proof (cases "cursor_x c < cols c")
  case True
  have "cursor_y c < rows c" using y m by (simp add: margins_wf_def)
  from raw_putchar_no_wrap [OF wf True this, of b] True y show ?thesis
    by (auto simp: pos_def cframe_geom)
next
  case False
  then have xc: "cursor_x c = cols c" using x by simp
  have "cursor_y c * cols c + cols c < scroll_bottom_margin c * cols c" using p by (simp add: pos_def xc)
  then have "Suc (cursor_y c) * cols c < scroll_bottom_margin c * cols c" by simp
  then have y1: "Suc (cursor_y c) < scroll_bottom_margin c" by (simp only: mult_less_cancel2)
  then have sc: "cursor_y c < sz_sub (scroll_bottom_margin c) 1 \<or> scroll_enabled c"
    by (simp add: sz_simps less_diff_conv)
  have y2: "\<not> cols c \<le> Suc (cursor_y c)" using y1 m sq by (simp add: margins_wf_def)
  from raw_putchar_wrap [OF wf m _ y sc, of b] xc y1 y2 obtain c' where
    c': "flanterm_fb_raw_putchar c b = Some c'" "fb_wf c'" "cursor_x c' = 1"
    "cursor_y c' = Suc (cursor_y c)"
    "screen c' = (screen c)[Suc (cursor_y c) * cols c := glyph_cell c b]"
    by (auto simp: Let_def)
  moreover have fr: "cframe c c'" using flanterm_fb_raw_putchar_ok [OF wf m, of b] c'(1) by auto
  moreover have "0 < cols c" using wf by (simp add: fb_wf_def geom_wf_def)
  ultimately show ?thesis
    using y1 by (auto simp: pos_def xc cframe_geom [OF fr] Suc_le_eq add.commute)
qed

lemma put_text:
  assumes wf: "fb_wf c" and m: "margins_wf c" and sq: "rows c \<le> cols c"
    and x: "cursor_x c \<le> cols c" and y: "cursor_y c < scroll_bottom_margin c"
    and p: "pos c + length bs \<le> scroll_bottom_margin c * cols c"
  shows "\<exists>c'. ofold (\<lambda>b s. flanterm_fb_raw_putchar s b) bs c = Some c' \<and> fb_wf c' \<and> cframe c c' \<and>
     screen c' = overlay (pos c) (map (glyph_cell c) bs) (screen c) \<and>
     pos c' = pos c + length bs \<and> cursor_x c' \<le> cols c \<and> cursor_y c' < scroll_bottom_margin c"
  using p
proof (induction bs rule: rev_induct)
  case Nil
  then show ?case using assms by simp
next
  case (snoc b bs)
  then obtain s where s: "ofold (\<lambda>b s. flanterm_fb_raw_putchar s b) bs c = Some s" "fb_wf s"
    "cframe c s" "screen s = overlay (pos c) (map (glyph_cell c) bs) (screen c)"
    "pos s = pos c + length bs" "cursor_x s \<le> cols c" "cursor_y s < scroll_bottom_margin c" by auto
  note g = cframe_geom [OF s(3)]
  have le: "pos c + length bs < scroll_bottom_margin c * cols c" using snoc.prems by simp
  have "margins_wf s" using m cframe_regs(1) [OF s(3)] by simp
  from put_linear [OF s(2) this, of b] s(5-7) le sq g obtain c' where
    c': "flanterm_fb_raw_putchar s b = Some c'" "fb_wf c'" "cframe s c'"
    "screen c' = (screen s)[pos s := glyph_cell s b]" "pos c' = Suc (pos s)"
    "cursor_x c' \<le> cols c" "cursor_y c' < scroll_bottom_margin c"
    by auto
  have "scroll_bottom_margin c * cols c \<le> rows c * cols c"
    using m by (intro mult_le_mono1) (simp add: margins_wf_def)
  then have "pos c + length bs < rows c * cols c" using le by (rule less_le_trans [rotated])
  then have "screen c' = overlay (pos c) (map (glyph_cell c) (bs @ [b])) (screen c)"
    using overlay_snoc [of "pos c" "map (glyph_cell c) bs" "screen c" "glyph_cell c b"]
    unfolding c'(4) s(4,5) glyph_cell_frame [OF s(3)] by simp
  then show ?case
    using s c' cframe_trans by (auto simp: ofold_append)
qed

section \<open>Cursor motions\<close>

lemma set_cursor_inside:
  "x < cols c \<Longrightarrow> y < rows c \<Longrightarrow>
   flanterm_fb_set_cursor_pos c x y = c\<lparr>cursor_x := x, cursor_y := y\<rparr>"
  by (simp add: flanterm_fb_set_cursor_pos_def clamp_pos_id)

lemma unat_small: "n < 2 ^ 32 \<Longrightarrow> unat (of_nat n :: u32) = n"
  by (simp add: unat_of_nat take_bit_nat_eq_self)

lemma u32_less: "unat (e :: u32) < 2 ^ 32"
  using unsigned_less [of e, where ?'a = nat] by simp

lemma list_set_id: "xs[k := xs ! k] = xs"
  by simp

lemma unat_dec: "unat (e - 1 :: u32) = (if e = 0 then 2 ^ 32 - 1 else unat e - 1)"
  by (auto simp: unat_minus_one unsigned_minus_1_eq_mask mask_eq_exp_minus_1)

text \<open>\<open>if (cond) ctx->esc_values[0] = v\<close>, and what is read back.\<close>

lemma capped_arg:
  assumes "length (esc_values c) = 16" "v < 2 ^ 32"
  shows "\<exists>vs. put_arg b c 0 (of_nat v) = Some (c\<lparr>esc_values := vs\<rparr>) \<and> length vs = 16 \<and>
     unat (vs ! 0) = (if b then v else unat (esc_values c ! 0))"
proof (cases b)
  case True
  then show ?thesis using assms
    by (intro exI [of _ "(esc_values c)[0 := of_nat v]"]) (simp add: put_arg_in unat_small)
next
  case False
  then show ?thesis using assms
    by (intro exI [of _ "esc_values c"]) (simp add: put_arg_in)
qed

lemma csi_up_eq:
  assumes wf: "term_wf c" and x: "x < cols c" and y: "y < rows c"
  defines "n \<equiv> unat (esc_values c ! 0)"
  shows "\<exists>vs. csi_up c x y = Some (c\<lparr>esc_values := vs, cursor_x := x, cursor_y :=
     (if scroll_top_margin c \<le> y then max (scroll_top_margin c) (y - n) else y - n)\<rparr>)"
proof -
  note len = term_wf_colours(5) [OF wf]
  note dims = term_wf_dims [OF wf]
  have "y < 2 ^ 32" using y dims(3) by simp
  from capped_arg [OF len this, of "y < n"] obtain vs where
    vs: "put_arg (y < n) c 0 (of_nat y) = Some (c\<lparr>esc_values := vs\<rparr>)" "length vs = 16"
    "unat (vs ! 0) = min y n" by (auto simp: n_def min_def)
  let ?t = "scroll_top_margin c" and ?d = "y - n"
  have d: "sz_sub y (unat (vs ! 0)) = ?d" by (simp add: vs(3) sz_simps)
  let ?y' = "if ((?d \<le> ?t \<and> ?t \<le> y) \<or> (?d \<le> scroll_bottom_margin c \<and> scroll_bottom_margin c \<le> y))
      \<and> ?d < ?t then ?t else ?d"
  have eq: "?y' = (if ?t \<le> y then max ?t ?d else ?d)" using dims(5) by (auto simp: max_def)
  have "?y' < rows c" using y dims(5,6) by auto
  moreover have "csi_up c x y = Some (flanterm_fb_set_cursor_pos (c\<lparr>esc_values := vs\<rparr>) x ?y')"
    using len vs(1,2) by (auto simp: csi_up_def n_def [symmetric] d Let_def)
  ultimately show ?thesis
    using x unfolding eq by (intro exI [of _ vs]) (simp add: set_cursor_inside)
qed

lemma csi_down_eq:
  assumes wf: "term_wf c" and x: "x < cols c" and y: "y < rows c"
  defines "n \<equiv> unat (esc_values c ! 0)"
  shows "\<exists>vs. csi_down c x y = Some (c\<lparr>esc_values := vs, cursor_x := x, cursor_y :=
     (if y \<le> scroll_bottom_margin c \<and> scroll_bottom_margin c \<le> y + n \<and> scroll_bottom_margin c < rows c
        \<or> y < scroll_bottom_margin c \<and> scroll_bottom_margin c \<le> y + n
      then scroll_bottom_margin c - 1 else min (rows c - 1) (y + n))\<rparr>)"
proof -
  note len = term_wf_colours(5) [OF wf]
  note dims = term_wf_dims [OF wf]
  let ?h = "rows c" and ?t = "scroll_top_margin c" and ?b = "scroll_bottom_margin c"
  have n: "n < 2 ^ 32" by (simp only: n_def u32_less)
  have "?h - 1 - y < 2 ^ 32" using dims(3) by simp
  from capped_arg [OF len this, of "?h - 1 < y + n"] obtain vs where
    vs: "put_arg (?h - 1 < y + n) c 0 (of_nat (?h - 1 - y)) = Some (c\<lparr>esc_values := vs\<rparr>)"
    "length vs = 16" "unat (vs ! 0) = (if ?h - 1 < y + n then ?h - 1 - y else n)"
    by (auto simp: n_def)
  have sz: "sz_sub ?h (Suc 0) = ?h - 1" "sz_add y n = y + n"
    "sz_sub (?h - Suc 0) y = ?h - 1 - y" "sz_sub ?b (Suc 0) = ?b - 1"
    using y n dims by (simp_all add: sz_simps SZ_def)
  let ?d = "min (?h - 1) (y + n)"
  have d: "sz_add y (unat (vs ! 0)) = ?d"
    using y n dims(3) unfolding vs(3) by (simp add: sz_simps SZ_def min_def)
  let ?y' = "if ((y \<le> ?t \<and> ?t \<le> ?d) \<or> (y \<le> ?b \<and> ?b \<le> ?d)) \<and> ?b \<le> ?d then ?b - 1 else ?d"
  have eq: "?y' = (if y \<le> ?b \<and> ?b \<le> y + n \<and> ?b < ?h \<or> y < ?b \<and> ?b \<le> y + n then ?b - 1 else ?d)"
    using dims(1,5,6) y by (auto simp: min_def)
  have "?y' < ?h" using y dims by auto
  moreover have "csi_down c x y = Some (flanterm_fb_set_cursor_pos (c\<lparr>esc_values := vs\<rparr>) x ?y')"
    using len vs(1,2) by (auto simp: csi_down_def n_def [symmetric] sz d Let_def)
  ultimately show ?thesis
    using x unfolding eq by (intro exI [of _ vs]) (simp add: set_cursor_inside)
qed

lemma csi_right_eq:
  assumes wf: "term_wf c" and x: "x < cols c" and y: "y < rows c"
  defines "n \<equiv> unat (esc_values c ! 0)"
  shows "\<exists>vs. csi_right c x y = Some (c\<lparr>esc_values := vs,
     cursor_x := min (cols c - 1) (x + n), cursor_y := y\<rparr>)"
proof -
  note len = term_wf_colours(5) [OF wf]
  note dims = term_wf_dims [OF wf]
  have n: "n < 2 ^ 32" by (simp only: n_def u32_less)
  have "cols c - 1 - x < 2 ^ 32" using dims(4) by simp
  from capped_arg [OF len this, of "cols c - 1 < x + n"] obtain vs where
    vs: "put_arg (cols c - 1 < x + n) c 0 (of_nat (cols c - 1 - x)) = Some (c\<lparr>esc_values := vs\<rparr>)"
    "length vs = 16" "unat (vs ! 0) = (if cols c - 1 < x + n then cols c - 1 - x else n)"
    by (auto simp: n_def)
  have sz: "sz_sub (cols c) (Suc 0) = cols c - 1" "sz_add x n = x + n"
    "sz_sub (cols c - Suc 0) x = cols c - 1 - x"
    using x n dims by (simp_all add: sz_simps SZ_def)
  have d: "sz_add x (unat (vs ! 0)) = min (cols c - 1) (x + n)"
    using x n dims(4) unfolding vs(3) by (simp add: sz_simps SZ_def min_def)
  have "min (cols c - 1) (x + n) < cols c" using dims(2) by simp
  then show ?thesis
    using len vs(1,2) y
    by (intro exI [of _ vs]) (simp add: csi_right_def n_def [symmetric] sz d set_cursor_inside)
qed

lemma csi_left_eq:
  assumes wf: "term_wf c" and x: "x < cols c" and y: "y < rows c"
  defines "n \<equiv> unat (esc_values c ! 0)"
  shows "\<exists>vs. csi_left c x y = Some (c\<lparr>esc_values := vs, cursor_x := x - n, cursor_y := y\<rparr>)"
proof -
  note len = term_wf_colours(5) [OF wf]
  have "x < 2 ^ 32" using x term_wf_dims(4) [OF wf] by simp
  from capped_arg [OF len this, of "x < n"] obtain vs where
    vs: "put_arg (x < n) c 0 (of_nat x) = Some (c\<lparr>esc_values := vs\<rparr>)" "length vs = 16"
    "unat (vs ! 0) = min x n" by (auto simp: n_def min_def)
  have d: "sz_sub x (unat (vs ! 0)) = x - n" by (simp add: vs(3) sz_simps)
  then show ?thesis
    using len vs(1,2) x y
    by (intro exI [of _ vs]) (simp add: csi_left_def n_def [symmetric] set_cursor_inside)
qed

lemma csi_position_eq:
  assumes wf: "term_wf c"
  shows "\<exists>vs. csi_position c = Some (c\<lparr>esc_values := vs,
     cursor_x := min (unat (esc_values c ! 1) - 1) (cols c - 1),
     cursor_y := min (unat (esc_values c ! 0) - 1) (rows c - 1)\<rparr>)"
proof -
  note len = term_wf_colours(5) [OF wf]
  note dims = term_wf_dims [OF wf]
  let ?e0 = "esc_values c ! 0" and ?e1 = "esc_values c ! 1"
  define d0 where "d0 = (if ?e0 \<noteq> 0 then ?e0 - 1 else ?e0)"
  define d1 where "d1 = (if ?e1 \<noteq> 0 then ?e1 - 1 else ?e1)"
  have d: "unat d0 = unat ?e0 - 1" "unat d1 = unat ?e1 - 1"
    by (simp_all add: d0_def d1_def unat_dec)
  define f0 where "f0 = (if rows c \<le> unat d0 then of_nat (rows c - 1) else d0)"
  define f1 where "f1 = (if cols c \<le> unat d1 then of_nat (cols c - 1) else d1)"
  have f: "unat f0 = min (unat ?e0 - 1) (rows c - 1)" "unat f1 = min (unat ?e1 - 1) (cols c - 1)"
    using dims(3,4) by (auto simp: f0_def f1_def unat_small d)
  have sz: "sz_sub (rows c) (Suc 0) = rows c - 1" "sz_sub (cols c) (Suc 0) = cols c - 1"
    using dims(1,2) by (simp_all add: sz_simps)
  have put: "put_arg b (c\<lparr>esc_values := vs\<rparr>) k v
      = Some (c\<lparr>esc_values := vs[k := if b then v else vs ! k]\<rparr>)"
    if "length vs = 16" "k < 16" for b vs k v
    using that by (simp add: put_arg_in)
  have self: "c = c\<lparr>esc_values := esc_values c\<rparr>" by simp
  have 1: "put_arg (?e0 \<noteq> 0) c 0 (?e0 - 1) = Some (c\<lparr>esc_values := (esc_values c)[0 := d0]\<rparr>)"
    by (subst (2) self, subst put) (use len in \<open>simp_all add: d0_def\<close>)
  let ?v1 = "(esc_values c)[0 := d0]"
  have 2: "put_arg (?e1 \<noteq> 0) (c\<lparr>esc_values := ?v1\<rparr>) 1 (?e1 - 1)
      = Some (c\<lparr>esc_values := ?v1[1 := d1]\<rparr>)"
    by (subst put) (use len in \<open>simp_all add: d1_def\<close>)
  let ?v2 = "?v1[1 := d1]"
  have 3: "put_arg (cols c \<le> unat d1) (c\<lparr>esc_values := ?v2\<rparr>) 1 (of_nat (cols c - 1))
      = Some (c\<lparr>esc_values := ?v2[1 := f1]\<rparr>)"
    by (subst put) (use len in \<open>simp_all add: f1_def\<close>)
  let ?v3 = "?v2[1 := f1]"
  have 4: "put_arg (rows c \<le> unat d0) (c\<lparr>esc_values := ?v3\<rparr>) 0 (of_nat (rows c - 1))
      = Some (c\<lparr>esc_values := ?v3[0 := f0]\<rparr>)"
    by (subst put) (use len in \<open>simp_all add: f0_def\<close>)
  have "csi_position c = Some (flanterm_fb_set_cursor_pos (c\<lparr>esc_values := ?v3[0 := f0]\<rparr>)
      (unat f1) (unat f0))"
    using len 1 2 3 4 by (simp add: csi_position_def sz)
  moreover have "unat f1 < cols c" "unat f0 < rows c" using dims(1,2) by (simp_all add: f min_less_iff_disj)
  ultimately show ?thesis
    by (intro exI [of _ "?v3[0 := f0]"]) (simp add: set_cursor_inside f)
qed

section \<open>Erasing\<close>

lemma blanks_eq: "ofold (\<lambda>_ s. flanterm_fb_raw_putchar s 0x20) is c
    = ofold (\<lambda>b s. flanterm_fb_raw_putchar s b) (replicate (length is) 0x20) c"
  by (rule ofold_const)

lemma puts_blank_eq: "puts_blank n c = ofold (\<lambda>b s. flanterm_fb_raw_putchar s b) (replicate n 0x20) c"
  by (simp add: puts_blank_def blanks_eq)

text \<open>Blanks in a row, from a position the cursor is put to first.\<close>

lemma blank_line:
  assumes wf: "fb_wf c" and y: "cursor_y c < rows c" and x: "cursor_x c + n \<le> cols c"
  shows "\<exists>c'. puts_blank n c = Some c' \<and> fb_wf c' \<and> cframe c c' \<and>
     screen c' = overlay (pos c) (replicate n (empty_char c)) (screen c) \<and>
     cursor_x c' = cursor_x c + n \<and> cursor_y c' = cursor_y c"
  using put_line [OF wf y, of "replicate n 0x20"] x glyph_cell_blank [of c]
  by (simp add: puts_blank_eq)

lemma erase_row:
  assumes wf: "fb_wf c" and y: "y < rows c" and x: "x + n \<le> cols c" "x < cols c"
  shows "\<exists>c'. puts_blank n (flanterm_fb_set_cursor_pos c x y) = Some c' \<and> fb_wf c' \<and> cframe c c' \<and>
     screen c' = overlay (y * cols c + x) (replicate n (empty_char c)) (screen c) \<and>
     cursor_x c' = x + n \<and> cursor_y c' = y"
proof -
  let ?c = "c\<lparr>cursor_x := x, cursor_y := y\<rparr>"
  have "fb_wf ?c" using wf by simp
  moreover have "empty_char ?c = empty_char c" "screen ?c = screen c" "pos ?c = y * cols c + x"
    by (simp_all add: empty_char_def pos_def)
  ultimately show ?thesis
    using blank_line [of ?c n] y x by (simp add: set_cursor_inside)
qed

text \<open>The cells of the cursor's row that \<open>ESC [ e K\<close> erases: from a column, how many.\<close>

definition line_part :: "ctx \<Rightarrow> u32 \<Rightarrow> nat \<times> nat" where
  "line_part c e = (if e = 0 then (cursor_x c, cols c - cursor_x c)
     else if e = 1 then (0, cursor_x c) else if e = 2 then (0, cols c) else (0, 0))"

lemma csi_erase_line_ok:
  assumes wf: "term_wf c" and x: "cursor_x c < cols c" and y: "cursor_y c < rows c"
    and e: "e = esc_values c ! 0"
  shows "\<exists>c'. csi_erase_line c (cursor_x c) (cursor_y c) = Some c' \<and> fb_wf c' \<and> cframe c c' \<and>
     screen c' = overlay (cursor_y c * cols c + fst (line_part c e))
                   (replicate (snd (line_part c e)) (empty_char c)) (screen c) \<and>
     cursor_x c' = cursor_x c \<and> cursor_y c' = cursor_y c"
proof -
  let ?x = "cursor_x c" and ?y = "cursor_y c"
  have fb: "fb_wf c" by (rule term_wfD(5) [OF wf])
  have get: "aget (esc_values c) 0 = Some e" using term_wf_colours(5) [OF wf] by (simp add: e)
  have w: "0 < cols c" using x by simp
  consider "e = 0" | "e = 1" | "e = 2" | "e \<noteq> 0" "e \<noteq> 1" "e \<noteq> 2" by blast
  then show ?thesis
  proof cases
    case 1
    have loop: "ofold (\<lambda>_ s. flanterm_fb_raw_putchar s 0x20) [?x..<cols c] c = puts_blank (cols c - ?x) c"
      by (simp add: blanks_eq puts_blank_eq)
    from blank_line [OF fb y, of "cols c - ?x"] x obtain s where
      s: "puts_blank (cols c - ?x) c = Some s" "fb_wf s" "cframe c s"
      "screen s = overlay (pos c) (replicate (cols c - ?x) (empty_char c)) (screen c)" by auto
    then show ?thesis
      using 1 get x y cframe_geom [OF s(3)]
      by (simp add: csi_erase_line_def loop line_part_def set_cursor_inside pos_def)
  next
    case 2
    from erase_row [OF fb y, of 0 ?x] x w obtain s where
      s: "puts_blank ?x (flanterm_fb_set_cursor_pos c 0 ?y) = Some s" "fb_wf s" "cframe c s"
      "screen s = overlay (?y * cols c) (replicate ?x (empty_char c)) (screen c)"
      "cursor_x s = ?x" "cursor_y s = ?y" by auto
    then show ?thesis using 2 get by (simp add: csi_erase_line_def line_part_def)
  next
    case 3
    from erase_row [OF fb y, of 0 "cols c"] x w obtain s where
      s: "puts_blank (cols c) (flanterm_fb_set_cursor_pos c 0 ?y) = Some s" "fb_wf s" "cframe c s"
      "screen s = overlay (?y * cols c) (replicate (cols c) (empty_char c)) (screen c)" by auto
    then show ?thesis
      using 3 get x y cframe_geom [OF s(3)]
      by (simp add: csi_erase_line_def line_part_def set_cursor_inside)
  next
    case 4
    then show ?thesis using get fb by (simp add: csi_erase_line_def line_part_def)
  qed
qed

text \<open>\<open>J\<close>\<close>

lemma overlay_all: "length xs = length cs \<Longrightarrow> overlay 0 xs cs = xs"
  by (simp add: overlay_def)

lemma erase_below_ok:
  assumes wf: "term_wf c" and x: "cursor_x c < cols c" and y: "cursor_y c < rows c"
    and full: "scroll_bottom_margin c = rows c" and sq: "rows c \<le> cols c"
  shows "\<exists>c'. erase_below c (cursor_x c) (cursor_y c) = Some c' \<and> fb_wf c' \<and> cframe c c' \<and>
     screen c' = overlay (pos c) (replicate (rows c * cols c - pos c) (empty_char c)) (screen c) \<and>
     cursor_x c' = cursor_x c \<and> cursor_y c' = cursor_y c"
proof -
  let ?x = "cursor_x c" and ?y = "cursor_y c" and ?h = "rows c" and ?w = "cols c"
  note dims = term_wf_dims [OF wf]
  have area: "?h * ?w < 2 ^ 31" using term_wfD(5) [OF wf] by (simp add: fb_wf_def geom_wf_def)
  have posl: "pos c < ?h * ?w" using cell_index [OF x y] by (simp add: pos_def)
  have "(?h - (?y + 1)) * ?w \<le> ?h * ?w" by (intro mult_le_mono1) simp
  then have b1: "(?h - (?y + 1)) * ?w < 2 ^ 31" using area by (rule le_less_trans)
  have "(?h - (?y + 1)) * ?w + (?y + 1) * ?w = ((?h - (?y + 1)) + (?y + 1)) * ?w"
    by (simp only: add_mult_distrib)
  also have "\<dots> = ?h * ?w" using y by simp
  finally have "(?h - (?y + 1)) * ?w + (?y + 1) * ?w = ?h * ?w" .
  then have n: "(?h - (?y + 1)) * ?w + (?w - (?x + 1)) + 1 = ?h * ?w - pos c"
    using x by (simp add: pos_def)
  have sz: "sz_add ?y 1 = ?y + 1" "sz_add ?x 1 = ?x + 1" "sz_sub ?h (?y + 1) = ?h - (?y + 1)"
    "sz_sub ?w (?x + 1) = ?w - (?x + 1)" "sz_mul (?h - (?y + 1)) ?w = (?h - (?y + 1)) * ?w"
    using x y dims b1 by (simp_all add: sz_simps SZ_def)
  have sz2: "sz_add (sz_add ((?h - (?y + 1)) * ?w) (?w - (?x + 1))) 1
      = (?h - (?y + 1)) * ?w + (?w - (?x + 1)) + 1"
    using b1 dims(4) by (simp add: sz_simps SZ_def)
  let ?bs = "replicate (?h * ?w - pos c) (0x20 :: u8)"
  have "pos c + length ?bs \<le> scroll_bottom_margin c * ?w" using posl full by simp
  from put_text [OF term_wfD(5,2) [OF wf] sq _ _ this] x y full obtain s where
    s: "ofold (\<lambda>b s. flanterm_fb_raw_putchar s b) ?bs c = Some s" "fb_wf s" "cframe c s"
    "screen s = overlay (pos c) (map (glyph_cell c) ?bs) (screen c)" by auto
  have "erase_below c ?x ?y = Some (flanterm_fb_set_cursor_pos s ?x ?y)"
    unfolding erase_below_def Let_def sz sz2 n puts_blank_eq s(1) by simp
  moreover have "screen s = overlay (pos c) (replicate (?h * ?w - pos c) (empty_char c)) (screen c)"
    unfolding s(4) by (simp add: glyph_cell_blank)
  ultimately show ?thesis
    using s x y cframe_geom [OF s(3)] by (simp add: set_cursor_inside)
qed

text \<open>The nested loops of \<open>erase_above\<close>, as one loop over the cells in order.\<close>

lemma ofold_nested:
  "ofold (\<lambda>i s. ofold (\<lambda>j s. f (i, j) s) js s) is s = ofold f (List.product is js) s"
proof (induction "is" arbitrary: s)
  case (Cons i "is")
  have "ofold (\<lambda>j s. f (i, j) s) js s = ofold f (map (Pair i) js) s"
    by (rule ofold_map)
  then show ?case using Cons by (simp add: ofold_append)
qed simp

lemma ofold_stopped:
  "(\<And>i s. body i (s, True) = Some (s, True)) \<Longrightarrow> ofold body is (s, True) = Some (s, True)"
  by (induction "is") simp_all

lemma ofold_until:
  assumes stopped: "\<And>i s. body i (s, True) = Some (s, True)"
    and go: "\<And>i s. i \<noteq> p \<Longrightarrow> body i (s, False) = do { s' \<leftarrow> f s; Some (s', False) }"
    and stop: "\<And>s. body p (s, False) = do { s' \<leftarrow> f s; Some (g s', True) }"
    and p: "p \<notin> set as"
  shows "ofold body (as @ p # bs) (s, False)
       = do { s' \<leftarrow> ofold (\<lambda>_ s. f s) [0..<Suc (length as)] s; Some (g s', True) }"
  using p
proof (induction as arbitrary: s)
  case Nil
  then show ?case by (simp add: stop ofold_stopped [OF stopped] Option.bind_assoc)
next
  case (Cons a as)
  have "ofold (\<lambda>_ s. f s) [0..<Suc (length (a # as))] s
      = do { s' \<leftarrow> f s; ofold (\<lambda>_ s. f s) [0..<Suc (length as)] s' }" for s
  proof -
    have unit: "ofold (\<lambda>_ s. f s) [0..<n] s = ofold (\<lambda>_ s. f s) (replicate n ()) s" for n s
      using ofold_const [of "\<lambda>_. f" "()" "[0..<n]"] by simp
    show ?thesis unfolding unit by simp
  qed
  moreover have "a \<noteq> p" "p \<notin> set as" using Cons.prems by auto
  ultimately show ?case using Cons.IH by (simp add: go Option.bind_assoc)
qed

lemma product_split:
  fixes x y w h :: nat
  assumes "x < w" "y < h"
  shows "\<exists>as bs. List.product [0..<h] [0..<w] = as @ (y, x) # bs \<and> length as = y * w + x \<and>
     (y, x) \<notin> set as"
proof -
  let ?L = "List.product [0..<h] [0..<w]" and ?p = "y * w + x"
  have "?p < h * w" using assms by (simp add: grid_pos_less)
  then have p: "?p < length ?L" by simp
  have nth: "?L ! ?p = (y, x)" using p assms by (simp add: product_nth)
  have split: "?L = take ?p ?L @ (y, x) # drop (Suc ?p) ?L"
    using id_take_nth_drop [OF p] nth by simp
  have "distinct ?L" by (simp add: distinct_product)
  then have "distinct (take ?p ?L @ (y, x) # drop (Suc ?p) ?L)" by (subst (asm) split)
  then have "(y, x) \<notin> set (take ?p ?L)" by simp
  then show ?thesis using split p by (intro exI [of _ "take ?p ?L"] exI [of _ "drop (Suc ?p) ?L"]) simp
qed

lemma erase_above_ok:
  assumes wf: "term_wf c" and x: "x < cols c" and y: "y < rows c"
    and full: "scroll_bottom_margin c = rows c" and sq: "rows c \<le> cols c"
  shows "\<exists>c'. erase_above c x y = Some c' \<and> fb_wf c' \<and> cframe c c' \<and>
     screen c' = overlay 0 (replicate (Suc (y * cols c + x)) (empty_char c)) (screen c) \<and>
     cursor_x c' = x \<and> cursor_y c' = y"
proof -
  let ?p = "y * cols c + x" and ?c = "c\<lparr>cursor_x := 0, cursor_y := 0\<rparr>"
  note dims = term_wf_dims [OF wf]
  let ?body = "\<lambda>(yc, xc) (s, b). if b then Some (s, b)
           else do {
             s \<leftarrow> flanterm_fb_raw_putchar s 0x20;
             Some (if xc = x \<and> yc = y then (flanterm_fb_set_cursor_pos s x y, True) else (s, False))
           }"
  obtain as bs where L: "List.product [0..<rows c] [0..<cols c] = as @ (y, x) # bs"
    "length as = ?p" "(y, x) \<notin> set as"
    using product_split [OF x y] by blast
  have home: "flanterm_fb_set_cursor_pos c 0 0 = ?c" using dims by (simp add: set_cursor_inside)
  have nest: "(\<lambda>yc (s, b). ofold (\<lambda>xc (s, b). ?body (yc, xc) (s, b)) [0..<cols c] (s, b))
      = (\<lambda>yc s. ofold (\<lambda>xc s. ?body (yc, xc) s) [0..<cols c] s)"
    by (simp add: fun_eq_iff split: prod.split)
  have "ofold (\<lambda>yc s. ofold (\<lambda>xc s. ?body (yc, xc) s) [0..<cols c] s) [0..<rows c] (?c, False)
      = ofold ?body (List.product [0..<rows c] [0..<cols c]) (?c, False)"
    by (rule ofold_nested)
  also have "\<dots> = do { s \<leftarrow> puts_blank (Suc ?p) ?c; Some (flanterm_fb_set_cursor_pos s x y, True) }"
    unfolding L(1) L(2) [symmetric] puts_blank_def
  proof (rule ofold_until [OF _ _ _ L(3)])
    fix i :: "nat \<times> nat" and s :: ctx
    show "?body i (s, True) = Some (s, True)" by (cases i) simp
    assume "i \<noteq> (y, x)"
    then have "\<not> (snd i = x \<and> fst i = y)" by (cases i) auto
    then show "?body i (s, False) = do { s' \<leftarrow> flanterm_fb_raw_putchar s 0x20; Some (s', False) }"
      by (cases i) (auto cong: Option.bind_cong)
  qed simp
  finally have loop: "ofold (\<lambda>yc s. ofold (\<lambda>xc s. ?body (yc, xc) s) [0..<cols c] s) [0..<rows c] (?c, False)
      = do { s \<leftarrow> puts_blank (Suc ?p) ?c; Some (flanterm_fb_set_cursor_pos s x y, True) }" .
  have eq: "erase_above c x y = do { s \<leftarrow> puts_blank (Suc ?p) ?c; Some (flanterm_fb_set_cursor_pos s x y) }"
    using loop nest unfolding erase_above_def home by simp
  let ?bs = "replicate (Suc ?p) (0x20 :: u8)"
  have wfc: "fb_wf ?c" "margins_wf ?c" using term_wfD(5,2) [OF wf] by (simp_all add: margins_wf_def)
  have "pos ?c + length ?bs \<le> scroll_bottom_margin ?c * cols ?c"
    using cell_index [OF x y] full by (simp add: pos_def Suc_le_eq)
  from put_text [OF wfc _ _ _ this] sq dims full obtain s where
    s: "ofold (\<lambda>b s. flanterm_fb_raw_putchar s b) ?bs ?c = Some s" "fb_wf s" "cframe ?c s"
    "screen s = overlay (pos ?c) (map (glyph_cell ?c) ?bs) (screen ?c)" by auto
  have "map (glyph_cell ?c) ?bs = replicate (Suc ?p) (empty_char c)" "pos ?c = 0"
    using glyph_cell_blank [of c] by (simp_all add: glyph_cell_def pos_def)
  moreover have "cframe c s" using s(3) by simp
  moreover have "erase_above c x y = Some (flanterm_fb_set_cursor_pos s x y)"
    using s(1) unfolding eq puts_blank_eq by simp
  ultimately show ?thesis
    using s x y cframe_geom [OF s(3)] by (simp add: set_cursor_inside)
qed

text \<open>
  Cursor in the column after the last one, where it waits for the wrap: \<open>get_cursor_pos\<close>
  reports the last column, but the first blank goes to the next row.
\<close>

lemma erase_line_waiting:
  assumes wf: "term_wf c" and x: "cursor_x c = cols c" and sq: "rows c \<le> cols c"
    and y: "Suc (cursor_y c) < scroll_bottom_margin c" and e: "esc_values c ! 0 = 0"
  shows "\<exists>c'. csi_erase_line c (cols c - 1) (cursor_y c) = Some c' \<and>
     screen c' = (screen c)[Suc (cursor_y c) * cols c := empty_char c] \<and>
     cursor_x c' = cols c - 1 \<and> cursor_y c' = cursor_y c"
proof -
  note dims = term_wf_dims [OF wf]
  have "Suc (Suc (cursor_y c)) * cols c \<le> scroll_bottom_margin c * cols c"
    using y by (intro mult_le_mono1) simp
  then have p: "pos c < scroll_bottom_margin c * cols c" "pos c = Suc (cursor_y c) * cols c"
    using dims(2) by (simp_all add: pos_def x)
  from put_linear [OF term_wfD(5,2) [OF wf] sq _ _ p(1), of "0x20"] x y obtain s where
    s: "flanterm_fb_raw_putchar c 0x20 = Some s" "cframe c s"
    "screen s = (screen c)[pos c := glyph_cell c 0x20]" by auto
  have "[cols c - 1..<cols c] = [cols c - 1]" using dims(2) by (simp add: upt_rec)
  moreover have "cursor_y c < rows c" using y dims(6) by simp
  ultimately show ?thesis
    using s e dims(2) p(2) term_wf_colours(5) [OF wf] cframe_geom [OF s(2)]
    by (simp add: csi_erase_line_def set_cursor_inside glyph_cell_blank)
qed

section \<open>Properties\<close>

text \<open>A terminal of 2 rows and 2 columns whose parser has read the parameters \<open>vs\<close>.\<close>

lemma sample_sgr_sel [simp]:
  "rows (sample_sgr vs) = 2" "cols (sample_sgr vs) = 2" "cursor_x (sample_sgr vs) = 0"
  "cursor_y (sample_sgr vs) = 0" "scroll_top_margin (sample_sgr vs) = 0"
  "scroll_bottom_margin (sample_sgr vs) = 2"
  "screen (sample_sgr vs) = screen (sample_ctx 2 2)"
  "esc_values (sample_sgr vs) = take 16 (vs @ replicate 16 1)"
  "esc_values_i (sample_sgr vs) = min 16 (length vs)"
  "empty_char (sample_sgr vs) = \<lparr>char_c = 0x20, char_fg = 0xaaaaaa, char_bg = 0xffffffff\<rparr>"
  by (simp_all add: sample_sgr_def empty_char_def)

text \<open>
  The relative cursor motions. Up and down move by the parameter, stop at the margin of
  the scroll region when they start inside it and at the edge of the screen otherwise; right
  and left stop at the edges. Nothing but the cursor (and the parameters) changes.
\<close>

theorem cursor_motions:
  assumes "term_wf c" "x < cols c" "y < rows c" "n = unat (esc_values c ! 0)"
  shows "(\<exists>vs. csi_up c x y = Some (c\<lparr>esc_values := vs, cursor_x := x, cursor_y :=
        if scroll_top_margin c \<le> y then max (scroll_top_margin c) (y - n) else y - n\<rparr>)) \<and>
     (y \<noteq> scroll_bottom_margin c \<longrightarrow>
        (\<exists>vs. csi_down c x y = Some (c\<lparr>esc_values := vs, cursor_x := x, cursor_y :=
          if y < scroll_bottom_margin c then min (scroll_bottom_margin c - 1) (y + n)
          else min (rows c - 1) (y + n)\<rparr>))) \<and>
     (\<exists>vs. csi_right c x y = Some (c\<lparr>esc_values := vs, cursor_x := min (cols c - 1) (x + n), cursor_y := y\<rparr>)) \<and>
     (\<exists>vs. csi_left c x y = Some (c\<lparr>esc_values := vs, cursor_x := x - n, cursor_y := y\<rparr>))"
proof (intro conjI impI)
  assume y: "y \<noteq> scroll_bottom_margin c"
  note dims = term_wf_dims [OF assms(1)]
  let ?b = "scroll_bottom_margin c"
  have eq: "(if y \<le> ?b \<and> ?b \<le> y + n \<and> ?b < rows c \<or> y < ?b \<and> ?b \<le> y + n
      then ?b - 1 else min (rows c - 1) (y + n))
     = (if y < ?b then min (?b - 1) (y + n) else min (rows c - 1) (y + n))"
    using y dims(5,6) by (auto simp: min_def)
  show "\<exists>vs. csi_down c x y = Some (c\<lparr>esc_values := vs, cursor_x := x, cursor_y :=
          if y < ?b then min (?b - 1) (y + n) else min (rows c - 1) (y + n)\<rparr>)"
    using csi_down_eq [OF assms(1-3)] unfolding assms(4) [symmetric] eq .
qed (unfold assms(4), rule csi_up_eq [OF assms(1-3)], rule csi_right_eq [OF assms(1-3)],
    rule csi_left_eq [OF assms(1-3)])

theorem cursor_motions_witness:
  "\<exists>vs. csi_right (sample_sgr [7]) 0 0
     = Some ((sample_sgr [7])\<lparr>esc_values := vs, cursor_x := 1, cursor_y := 0\<rparr>)"
  using cursor_motions [OF term_wf_sample_sgr, of 0 "[7]" 0 7] by simp

text \<open>
  With the cursor on the row right below the scroll region, cursor-down moves it up, to the
  last row of the region, because the test for the region treats the bottom margin, which is
  the first row outside, as inside.
\<close>

theorem cursor_down_moves_up:
  assumes "term_wf c" "x < cols c" "y = scroll_bottom_margin c" "y < rows c"
  shows "\<exists>c'. csi_down c x y = Some c' \<and> cursor_y c' = y - 1"
  using csi_down_eq [OF assms(1,2,4)] assms(3,4) by auto

theorem cursor_down_moves_up_witness:
  "\<exists>c'. csi_down ((sample_sgr [1])\<lparr>scroll_bottom_margin := 1\<rparr>) 0 1 = Some c' \<and> cursor_y c' = 0"
proof -
  have "term_wf ((sample_sgr [1])\<lparr>scroll_bottom_margin := 1\<rparr>)"
    using term_wf_sample_sgr [of "[1]"]
    by (simp add: term_wf_def margins_wf_def palette_wf_def parser_wf_def)
  from cursor_down_moves_up [OF this, of 0 1] show ?thesis by simp
qed

text \<open>
  Erase in line \<open>ESC [ e K\<close> blanks exactly the cells from the cursor to the end of its row
  (0), those left of the cursor (1) or the whole row (2) with the current colours, and leaves
  the cursor where it is.
\<close>

theorem erase_in_line:
  assumes "term_wf c" "cursor_x c < cols c" "cursor_y c < rows c" "e = esc_values c ! 0"
  shows "\<exists>c'. csi_erase_line c (cursor_x c) (cursor_y c) = Some c' \<and> fb_wf c' \<and>
     cursor_x c' = cursor_x c \<and> cursor_y c' = cursor_y c \<and>
     screen c' = (let (from, n) = (if e = 0 then (cursor_x c, cols c - cursor_x c)
           else if e = 1 then (0, cursor_x c) else if e = 2 then (0, cols c) else (0, 0))
       in overlay (cursor_y c * cols c + from) (replicate n (empty_char c)) (screen c))"
proof -
  obtain c' where c': "csi_erase_line c (cursor_x c) (cursor_y c) = Some c'" "fb_wf c'"
     "screen c' = overlay (cursor_y c * cols c + fst (line_part c e))
                   (replicate (snd (line_part c e)) (empty_char c)) (screen c)"
     "cursor_x c' = cursor_x c" "cursor_y c' = cursor_y c"
    using csi_erase_line_ok [OF assms] by blast
  then show ?thesis by (intro exI [of _ c']) (simp add: line_part_def Let_def)
qed

theorem erase_in_line_witness:
  "\<exists>c'. csi_erase_line (sample_sgr [2]) 0 0 = Some c' \<and>
     screen c' ! 0 = \<lparr>char_c = 0x20, char_fg = 0xaaaaaa, char_bg = 0xffffffff\<rparr>"
  using erase_in_line [OF term_wf_sample_sgr, of "[2]" 2] by (auto simp: overlay_def nth_append)

text \<open>
  Erase in line goes wrong while the cursor waits at the end of a full row: instead of the
  last cell of that row it blanks the first cell of the next one.
\<close>

theorem erase_in_line_waiting:
  assumes "term_wf c" "cursor_x c = cols c" "rows c \<le> cols c"
    and "Suc (cursor_y c) < scroll_bottom_margin c" "esc_values c ! 0 = 0"
  shows "\<exists>c' x y. flanterm_fb_get_cursor_pos c = (x, y) \<and> (x, y) = (cols c - 1, cursor_y c) \<and>
     csi_erase_line c x y = Some c' \<and>
     screen c' = (screen c)[Suc (cursor_y c) * cols c := empty_char c]"
proof -
  have "cursor_y c < rows c" using assms(4) term_wf_dims(6) [OF assms(1)] by simp
  then have "flanterm_fb_get_cursor_pos c = (cols c - 1, cursor_y c)"
    using assms(2) term_wf_dims(2) [OF assms(1)] by (simp add: flanterm_fb_get_cursor_pos_def sz_simps)
  then show ?thesis using erase_line_waiting [OF assms] by blast
qed

theorem erase_in_line_waiting_witness:
  "\<exists>c'. csi_erase_line ((sample_sgr [0])\<lparr>cursor_x := 2, text_fg := 5\<rparr>) 1 0 = Some c' \<and>
     char_fg (screen c' ! 2) = 5"
proof -
  let ?c = "(sample_sgr [0])\<lparr>cursor_x := 2, text_fg := 5\<rparr>"
  have "term_wf ?c" using term_wf_sample_sgr by simp
  from erase_in_line_waiting [OF this] show ?thesis by (auto simp: empty_char_def)
qed

text \<open>
  C36: erase in display \<open>ESC [ e J\<close>, with the whole screen as scroll region and no more rows
  than columns, blanks exactly the cells from the cursor to the end of the screen (0), those up
  to and including the cursor (1), or all (2, 3), and leaves the cursor where it is.
\<close>

theorem erase_in_display:
  assumes "term_wf c" "cursor_x c < cols c" "cursor_y c < rows c"
    and "scroll_bottom_margin c = rows c" "rows c \<le> cols c" "e = esc_values c ! 0"
  shows "\<exists>c'. csi_erase_display c (cursor_x c) (cursor_y c) = Some c' \<and> fb_wf c' \<and>
     cursor_x c' = cursor_x c \<and> cursor_y c' = cursor_y c \<and>
     screen c' = (let p = cursor_y c * cols c + cursor_x c; blank = empty_char c in
       if e = 0 then take p (screen c) @ replicate (rows c * cols c - p) blank
       else if e = 1 then replicate (Suc p) blank @ drop (Suc p) (screen c)
       else if e = 2 \<or> e = 3 then replicate (rows c * cols c) blank
       else screen c)"
proof -
  have get: "aget (esc_values c) 0 = Some e" using term_wf_colours(5) [OF assms(1)] assms(6) by simp
  have p: "pos c < rows c * cols c" using cell_index [OF assms(2,3)] by (simp add: pos_def)
  consider "e = 0" | "e = 1" | "e = 2 \<or> e = 3" | "e \<noteq> 0" "e \<noteq> 1" "e \<noteq> 2" "e \<noteq> 3" by blast
  then show ?thesis
  proof cases
    case 1
    then show ?thesis
      using erase_below_ok [OF assms(1-5)] get p
      by (auto simp: csi_erase_display_def overlay_def pos_def Let_def)
  next
    case 2
    then show ?thesis
      using erase_above_ok [OF assms(1-5)] get
      by (auto simp: csi_erase_display_def overlay_def Let_def)
  next
    case 3
    obtain c' where "flanterm_fb_clear c False = Some c'" "fb_wf c'" "qframe c c'"
      "screen c' = replicate (rows c * cols c) (empty_char c)"
      using flanterm_fb_clear_ok [OF term_wfD(5) [OF assms(1)], of False] by auto
    then show ?thesis
      using 3 get by (intro exI [of _ c']) (auto simp: csi_erase_display_def Let_def qframe_geom)
  next
    case 4
    then show ?thesis
      using get term_wfD(5) [OF assms(1)] by (simp add: csi_erase_display_def Let_def)
  qed
qed

theorem erase_in_display_witness:
  "\<exists>c'. csi_erase_display (sample_sgr [1]) 0 0 = Some c' \<and> cursor_y c' = 0"
  using erase_in_display [OF term_wf_sample_sgr, of "[1]" 1] by auto

text \<open>
  \<open>ESC [ top ; bottom r\<close> sets the scroll region to the rows from top to bottom, counted
  from one, when they are at least two rows of the screen, and to the whole screen otherwise
  (a missing or zero top is the first row, a missing bottom the last); it moves the cursor
  home. The region is never empty and never leaves the screen.
\<close>

theorem set_scroll_region:
  assumes "term_wf c"
    and "t = (if 0 < esc_values_i c then unat (esc_values c ! 0) - 1 else 0)"
    and "b = (if 1 < esc_values_i c then max 1 (unat (esc_values c ! 1)) else rows c)"
  shows "\<exists>vs top' bot'. csi_margins c = Some (c\<lparr>esc_values := vs, scroll_top_margin := top',
       scroll_bottom_margin := bot', cursor_x := 0, cursor_y := 0\<rparr>) \<and>
     (top', bot') = (if t + 1 < b \<and> b \<le> rows c then (t, b) else (0, rows c)) \<and>
     top' < bot' \<and> bot' \<le> rows c"
proof -
  have t: "(if 0 < esc_values_i c \<and> esc_values c ! 0 \<noteq> 0 then unat (esc_values c ! 0) - 1 else 0) = t"
    using assms(2) by (auto simp: unat_eq_0)
  have b: "(if 1 < esc_values_i c then (if esc_values c ! 1 = 0 then 1 else unat (esc_values c ! 1))
      else rows c) = b"
    using assms(3) by (auto simp: max_def unat_eq_0 not_le)
  let ?m = "new_margins (rows c) t b"
  obtain vs where "csi_margins c = Some (c\<lparr>esc_values := vs, scroll_top_margin := fst ?m,
       scroll_bottom_margin := snd ?m, cursor_x := 0, cursor_y := 0\<rparr>)"
    using csi_margins_eq [OF assms(1)] unfolding t b by blast
  moreover have "(fst ?m, snd ?m) = (if t + 1 < b \<and> b \<le> rows c then (t, b) else (0, rows c))"
    by (simp add: new_margins_def)
  ultimately show ?thesis using new_margins_ok [OF term_wf_dims(1) [OF assms(1)], of t b] by blast
qed

theorem set_scroll_region_witness:
  "\<exists>c'. csi_margins (sample_sgr [1, 2]) = Some c' \<and> scroll_bottom_margin c' = 2"
  using set_scroll_region [OF term_wf_sample_sgr, of 0 "[1, 2]" 2] by (auto simp: max_def)

end
