(* ===== verification/Flanterm_Shift.thy ===== *)
theory Flanterm_Shift
  imports Flanterm_Edit
begin

text \<open>
  The control sequences of \<open>kernel/flanterm/flanterm.c\<close> that shift cells: insertion and
  deletion of characters in a row and of rows in the scroll region.
\<close>

section \<open>Shifting the cells of a row\<close>

text \<open>The row of the cursor and the rest of the screen.\<close>

definition row_of :: "ctx \<Rightarrow> nat \<Rightarrow> flanterm_fb_char list" where
  "row_of c y = take (cols c) (drop (y * cols c) (screen c))"

lemma nth_row_of: "x < cols c \<Longrightarrow> y < rows c \<Longrightarrow> row_of c y ! x = screen c ! (y * cols c + x)"
  using cell_index [of x c y] by (simp add: row_of_def)

text \<open>
  One pass of the insert-character loop at column \<open>i\<close>: the cell moves right by \<open>n\<close> (or
  falls off the row), then it is blanked.
\<close>

definition insert_step :: "nat \<Rightarrow> nat \<Rightarrow> nat \<Rightarrow> 'a \<Rightarrow> nat \<Rightarrow> 'a list \<Rightarrow> 'a list" where
  "insert_step b w n a i cs = (if i + n < w then cs[b + i + n := cs ! (b + i)] else cs)[b + i := a]"

lemma length_insert_step [simp]: "length (insert_step b w n a i cs) = length cs"
  by (simp add: insert_step_def)

lemma insert_steps_nth:
  assumes "0 < n" "b + w \<le> length cs" "x \<le> k" "k \<le> w"
  shows "length (fold (insert_step b w n a) (rev [k..<w]) cs) = length cs \<and>
    (\<forall>j < length cs. fold (insert_step b w n a) (rev [k..<w]) cs ! j =
       (if b + k \<le> j \<and> j < b + w then (if b + k + n \<le> j then cs ! (j - n) else a) else cs ! j))"
  using assms(4)
proof (induction k rule: inc_induct)
  case base
  then show ?case by auto
next
  case (step k)
  let ?ds = "fold (insert_step b w n a) (rev [Suc k..<w]) cs"
  have len: "length ?ds = length cs" using step.IH by blast
  have nth: "?ds ! j = (if b + Suc k \<le> j \<and> j < b + w
      then (if b + Suc k + n \<le> j then cs ! (j - n) else a) else cs ! j)" if "j < length cs" for j
    using step.IH that by blast
  have "rev [k..<w] = rev [Suc k..<w] @ [k]" using step.hyps by (simp add: upt_conv_Cons)
  then have eq: "fold (insert_step b w n a) (rev [k..<w]) cs = insert_step b w n a k ?ds" by simp
  show ?case
    unfolding eq
  proof (intro conjI allI impI)
    show "length (insert_step b w n a k ?ds) = length cs" using len by simp
    fix j assume j: "j < length cs"
    have bk: "b + k < length cs" using step.hyps assms(2) by simp
    have src: "?ds ! (b + k) = cs ! (b + k)" using nth [OF bk] by simp
    show "insert_step b w n a k ?ds ! j = (if b + k \<le> j \<and> j < b + w
        then (if b + k + n \<le> j then cs ! (j - n) else a) else cs ! j)"
    proof (cases "k + n < w")
      case True
      then have t: "b + k + n < length cs" using assms(2) by simp
      have "insert_step b w n a k ?ds ! j
          = (if j = b + k then a else if j = b + k + n then cs ! (b + k) else ?ds ! j)"
        using True len bk t j src by (simp add: insert_step_def nth_list_update)
      then show ?thesis using nth [OF j] True assms(1) by auto
    next
      case False
      have "insert_step b w n a k ?ds ! j = (if j = b + k then a else ?ds ! j)"
        using False len bk j by (simp add: insert_step_def nth_list_update)
      then show ?thesis using nth [OF j] False assms(1) step.hyps(2) by auto
    qed
  qed
qed

lemma insert_char_step:
  assumes wf: "fb_wf c" and i: "i < cols c" and y: "y < rows c" and n: "n < 2 ^ 32"
  shows "\<exists>c'. do { s \<leftarrow> flanterm_fb_move_character c (sz_add i n) y i y;
        flanterm_fb_raw_putchar (flanterm_fb_set_cursor_pos s i y) 0x20 } = Some c' \<and>
     fb_wf c' \<and> cframe c c' \<and>
     screen c' = insert_step (y * cols c) (cols c) n (empty_char c) i (screen c)"
proof -
  have small: "cols c < 2 ^ 31" using wf geom_dims(4) [of c] by (simp add: fb_wf_def)
  have sz: "sz_add i n = i + n" using i n small by (simp add: sz_simps SZ_def)
  from flanterm_fb_move_character_ok [OF wf, of "i + n" y i y] i y obtain s where
    s: "flanterm_fb_move_character c (i + n) y i y = Some s" "fb_wf s" "qframe c s"
    "screen s = (if i + n < cols c then (screen c)[y * cols c + (i + n) := screen c ! (y * cols c + i)]
       else screen c)" by auto
  note g = qframe_geom [OF s(3)]
  from erase_row [OF s(2), of y i 1] i y g obtain c' where
    c': "puts_blank 1 (flanterm_fb_set_cursor_pos s i y) = Some c'" "fb_wf c'" "cframe s c'"
    "screen c' = overlay (y * cols c + i) [empty_char s] (screen s)" by auto
  have put: "flanterm_fb_raw_putchar (flanterm_fb_set_cursor_pos s i y) 0x20 = Some c'"
    using c'(1) by (simp add: puts_blank_eq)
  have "empty_char s = empty_char c" using g by (simp add: empty_char_def)
  moreover have "overlay p [a] cs = cs[p := a]" if "p < length cs" for p and a :: flanterm_fb_char and cs
    using that by (simp add: overlay_def upd_conv_take_nth_drop)
  moreover have "y * cols c + i < length (screen s)" using cell_index [OF i y] g by simp
  ultimately have "screen c' = insert_step (y * cols c) (cols c) n (empty_char c) i (screen c)"
    using c'(4) s(4) by (simp add: insert_step_def add.assoc)
  then show ?thesis
    using s(1) put c'(2) cframe_trans [OF cframe_qframe [OF s(3)] c'(3)] by (simp add: sz)
qed

lemma insert_char_loop:
  assumes "fb_wf c" "\<forall>i \<in> set is. i < cols c" "y < rows c" "n < 2 ^ 32"
  shows "\<exists>c'. ofold (\<lambda>i s. do { s \<leftarrow> flanterm_fb_move_character s (sz_add i n) y i y;
        flanterm_fb_raw_putchar (flanterm_fb_set_cursor_pos s i y) 0x20 }) is c = Some c' \<and>
     fb_wf c' \<and> cframe c c' \<and>
     screen c' = fold (insert_step (y * cols c) (cols c) n (empty_char c)) is (screen c)"
  using assms(1-3)
proof (induction "is" arbitrary: c)
  case (Cons i "is")
  from insert_char_step [OF Cons.prems(1) _ Cons.prems(3) assms(4), of i] Cons.prems(2) obtain s where
    s: "do { s \<leftarrow> flanterm_fb_move_character c (sz_add i n) y i y;
        flanterm_fb_raw_putchar (flanterm_fb_set_cursor_pos s i y) 0x20 } = Some s"
    "fb_wf s" "cframe c s"
    "screen s = insert_step (y * cols c) (cols c) n (empty_char c) i (screen c)" by auto
  note g = cframe_geom [OF s(3)]
  have "empty_char s = empty_char c" using g by (simp add: empty_char_def)
  with Cons.IH [OF s(2)] Cons.prems(2,3) g s show ?case by (auto intro: cframe_trans)
qed simp

text \<open>\<open>ESC [ n @\<close>: the cells from the cursor on move right, blanks come in.\<close>

lemma csi_insert_chars_ok:
  assumes wf: "term_wf c" and x: "x < cols c" and y: "y < rows c"
    and n: "n = unat (esc_values c ! 0)" "0 < n"
  shows "\<exists>c'. csi_insert_chars c x y = Some c' \<and> fb_wf c' \<and> cursor_x c' = x \<and> cursor_y c' = y \<and>
     screen c' = overlay (y * cols c + x)
       (take (cols c - x) (replicate n (empty_char c) @ drop x (row_of c y))) (screen c)"
proof -
  let ?w = "cols c" and ?b = "y * cols c" and ?cs = "screen c"
  note dims = term_wf_dims [OF wf]
  have n32: "n < 2 ^ 32" by (simp only: n(1) u32_less)
  have get: "aget (esc_values c) 0 = Some (esc_values c ! 0)" using term_wf_colours(5) [OF wf] by simp
  have idx: "down_until (sz_sub ?w 1) x = rev [x..<?w]"
    using x dims(2) by (simp add: sz_simps down_until_le)
  from insert_char_loop [OF term_wfD(5) [OF wf] _ y n32, of "rev [x..<?w]"] obtain s where
    s: "ofold (\<lambda>i s. do { s \<leftarrow> flanterm_fb_move_character s (sz_add i n) y i y;
        flanterm_fb_raw_putchar (flanterm_fb_set_cursor_pos s i y) 0x20 }) (rev [x..<?w]) c = Some s"
    "fb_wf s" "cframe c s"
    "screen s = fold (insert_step ?b ?w n (empty_char c)) (rev [x..<?w]) ?cs" by auto
  have bw: "?b + ?w \<le> length ?cs" using row_le [OF y] by simp
  let ?ins = "take (?w - x) (replicate n (empty_char c) @ drop x (row_of c y))"
  have li: "length ?ins = ?w - x" using bw x by (simp add: row_of_def)
  have "screen s = overlay (?b + x) ?ins ?cs"
  proof (rule nth_equalityI)
    show len: "length (screen s) = length (overlay (?b + x) ?ins ?cs)"
      using li bw x insert_steps_nth [OF n(2) bw le_refl, of x "empty_char c"] by (simp add: s(4))
    fix j assume "j < length (screen s)"
    then have j: "j < length ?cs" using s(4) insert_steps_nth [OF n(2) bw le_refl, of x "empty_char c"] x by simp
    have sj: "screen s ! j = (if ?b + x \<le> j \<and> j < ?b + ?w
        then (if ?b + x + n \<le> j then ?cs ! (j - n) else empty_char c) else ?cs ! j)"
      using s(4) insert_steps_nth [OF n(2) bw le_refl, of x "empty_char c"] x j by simp
    have oj: "overlay (?b + x) ?ins ?cs ! j = (if ?b + x \<le> j \<and> j < ?b + ?w then ?ins ! (j - (?b + x)) else ?cs ! j)"
    proof (cases "j < ?b + x")
      case True
      then show ?thesis using j by (simp add: overlay_def nth_append)
    next
      case False
      then show ?thesis using j bw x li unfolding overlay_def nth_append by (auto simp: min_def)
    qed
    show "screen s ! j = overlay (?b + x) ?ins ?cs ! j"
    proof (cases "?b + x \<le> j \<and> j < ?b + ?w")
      case True
      then have "j - (?b + x) < ?w - x" using x by linarith
      then have "?ins ! (j - (?b + x)) = (if j - (?b + x) < n then empty_char c
          else row_of c y ! (x + (j - (?b + x) - n)))"
        using bw by (simp add: nth_append row_of_def)
      also have "\<dots> = (if ?b + x + n \<le> j then ?cs ! (j - n) else empty_char c)"
      proof (cases "?b + x + n \<le> j")
        case le: True
        then have "x + (j - (?b + x) - n) < ?w" "?b + (x + (j - (?b + x) - n)) = j - n"
          using True by linarith+
        with nth_row_of [OF this(1) y] le show ?thesis by simp
      next
        case False
        then have "j - (?b + x) < n" using True n(2) by linarith
        then show ?thesis using False by simp
      qed
      finally show ?thesis unfolding sj oj if_P [OF True] by (rule sym)
    next
      case False
      then show ?thesis unfolding sj oj if_not_P [OF False] by simp
    qed
  qed
  moreover have "csi_insert_chars c x y = Some (flanterm_fb_set_cursor_pos s x y)"
    using s(1) idx get by (simp add: csi_insert_chars_def n(1))
  ultimately show ?thesis using s(2) x y cframe_geom [OF s(3)] by (simp add: set_cursor_inside)
qed

text \<open>\<open>ESC [ n P\<close>: the cells right of the deleted ones move left.\<close>

lemma delete_char_loop:
  assumes "fb_wf c" "y < rows c" "n < 2 ^ 32" "\<forall>i \<in> set is. i < cols c \<and> n \<le> i"
  shows "\<exists>c'. ofold (\<lambda>i s. flanterm_fb_move_character s (sz_sub i n) y i y) is c = Some c' \<and>
     fb_wf c' \<and> qframe c c' \<and>
     screen c' = fold (\<lambda>i cs. cs[y * cols c + (i - n) := cs ! (y * cols c + i)]) is (screen c)"
  using assms(1,2,4)
proof (induction "is" arbitrary: c)
  case (Cons i "is")
  have i: "i < cols c" "n \<le> i" "i - n < cols c" using Cons.prems(3) by auto
  from flanterm_fb_move_character_ok [OF Cons.prems(1), of "i - n" y i y] i Cons.prems(2) obtain s where
    s: "flanterm_fb_move_character c (i - n) y i y = Some s" "fb_wf s" "qframe c s"
    "screen s = (screen c)[y * cols c + (i - n) := screen c ! (y * cols c + i)]" by auto
  note g = qframe_geom [OF s(3)]
  from Cons.IH [OF s(2)] Cons.prems(2,3) g s i show ?case
    by (auto simp: sz_simps intro: qframe_trans)
qed simp

lemma fold_reindex: "fold f (map g is) s = fold (\<lambda>i. f (g i)) is s"
  by (induction "is" arbitrary: s) auto

lemma delete_shift:
  assumes "x + n \<le> w" "b + w \<le> length cs"
  shows "fold (\<lambda>i cs. cs[b + (i - n) := cs ! (b + i)]) [x + n..<w] cs
       = take (b + x) cs @ take (w - (x + n)) (drop (b + (x + n)) cs) @ drop (b + w - n) cs"
proof -
  have "fold (\<lambda>i cs. cs[b + (i - n) := cs ! (b + i)]) [x + n..<w] cs
      = fold (\<lambda>i cs. cs[i - n := cs ! i]) (map ((+) b) [x + n..<w]) cs"
    unfolding fold_reindex by (rule fold_cong_set) (auto simp: fun_eq_iff)
  also have "map ((+) b) [x + n..<w] = [b + (x + n)..<b + w]"
    by (rule nth_equalityI) auto
  also have "fold (\<lambda>i cs. cs[i - n := cs ! i]) \<dots> cs
      = take (b + (x + n) - n) cs @ take (b + w - (b + (x + n))) (drop (b + (x + n)) cs) @ drop (b + w - n) cs"
    using assms by (intro fold_shift_back) simp_all
  finally show ?thesis by simp
qed

lemma csi_delete_chars_ok:
  assumes wf: "term_wf c" and x: "x < cols c" and y: "y < rows c"
    and n: "n = unat (esc_values c ! 0)" "0 < n" "x + n \<le> cols c"
  shows "\<exists>c'. csi_delete_chars c x y = Some c' \<and> fb_wf c' \<and> cursor_x c' = x \<and> cursor_y c' = y \<and>
     screen c' = overlay (y * cols c + x)
       (drop (x + n) (row_of c y) @ replicate n (empty_char c)) (screen c)"
proof -
  let ?w = "cols c" and ?b = "y * cols c" and ?cs = "screen c"
  note dims = term_wf_dims [OF wf]
  have n32: "n < 2 ^ 32" by (simp only: n(1) u32_less)
  note len = term_wf_colours(5) [OF wf]
  have bw: "?b + ?w \<le> length ?cs" using row_le [OF y] by simp
  have sz: "sz_add x n = x + n" "sz_sub ?w n = ?w - n"
    using n(3) dims(4) by (simp_all add: sz_simps SZ_def)
  from delete_char_loop [OF term_wfD(5) [OF wf] y n32, of "[x + n..<?w]"] obtain s where
    s: "ofold (\<lambda>i s. flanterm_fb_move_character s (sz_sub i n) y i y) [x + n..<?w] c = Some s"
    "fb_wf s" "qframe c s"
    "screen s = fold (\<lambda>i cs. cs[?b + (i - n) := cs ! (?b + i)]) [x + n..<?w] ?cs" by auto
  note g = qframe_geom [OF s(3)]
  have esc: "esc_values s = esc_values c"
    by (rule qframe_sel [OF s(3)]) (simp add: forget_queue_def)
  from erase_row [OF s(2), of y "?w - n" n] y n g dims(2) obtain t where
    t: "puts_blank n (flanterm_fb_set_cursor_pos s (?w - n) y) = Some t" "fb_wf t" "cframe s t"
    "screen t = overlay (?b + (?w - n)) (replicate n (empty_char s)) (screen s)" by auto
  have "csi_delete_chars c x y = Some (flanterm_fb_set_cursor_pos t x y)"
    using s(1) t(1) len esc
    by (simp add: csi_delete_chars_def csi_erase_chars_def n(1) [symmetric] sz g flanterm_fb_set_cursor_pos_def)
  moreover have "screen t = overlay (?b + x) (drop (x + n) (row_of c y) @ replicate n (empty_char c)) ?cs"
  proof -
    have e: "empty_char s = empty_char c" using g by (simp add: empty_char_def)
    have s': "screen s = take (?b + x) ?cs @ take (?w - (x + n)) (drop (?b + (x + n)) ?cs)
        @ drop (?b + w - n) ?cs" if "w = ?w" for w
      using s(4) delete_shift [OF n(3) bw] that by simp
    have d: "drop (x + n) (row_of c y) = take (?w - (x + n)) (drop (?b + (x + n)) ?cs)"
      by (simp add: row_of_def drop_take add.commute add.left_commute)
    let ?A = "take (?b + x) ?cs" and ?B = "take (?w - (x + n)) (drop (?b + (x + n)) ?cs)"
    have lA: "length ?A = ?b + x" and lB: "length ?B = ?w - (x + n)"
      using bw x n(3) by simp_all
    have p: "?b + (?w - n) = length ?A + length ?B" using n(3) lA lB by simp
    have "screen t = ?A @ ?B @ replicate n (empty_char c) @ drop (?b + (?w - n) + n) ?cs"
      using t(4) s' [OF refl] n(3) lA lB unfolding e p overlay_def
      by (simp add: add.assoc)
    moreover have "?b + (?w - n) + n = ?b + ?w" using n(3) by simp
    moreover have "?b + x + length (?B @ replicate n (empty_char c)) = ?b + ?w" using lB n(3) by simp
    ultimately show ?thesis unfolding d overlay_def by simp
  qed
  ultimately show ?thesis
    using t(2) x y cframe_geom [OF t(3)] g by (simp add: set_cursor_inside)
qed

lemma csi_erase_chars_ok:
  assumes wf: "term_wf c" and x: "cursor_x c < cols c" and y: "cursor_y c < rows c"
    and n: "n = unat (esc_values c ! 0)" "cursor_x c + n \<le> cols c"
  shows "\<exists>c'. csi_erase_chars c (cursor_x c) (cursor_y c) = Some c' \<and> fb_wf c' \<and>
     cursor_x c' = cursor_x c \<and> cursor_y c' = cursor_y c \<and>
     screen c' = overlay (pos c) (replicate n (empty_char c)) (screen c)"
proof -
  from blank_line [OF term_wfD(5) [OF wf] y n(2)] obtain s where
    s: "puts_blank n c = Some s" "fb_wf s" "cframe c s"
    "screen s = overlay (pos c) (replicate n (empty_char c)) (screen c)" by auto
  then show ?thesis
    using term_wf_colours(5) [OF wf] x y cframe_geom [OF s(3)]
    by (simp add: csi_erase_chars_def n(1) [symmetric] set_cursor_inside)
qed

section \<open>Insertion and deletion of rows\<close>

text \<open>
  The rows of the scroll region, between the rows above and below it; \<open>n\<close> scrolls of the
  region at once.
\<close>

definition region :: "nat \<Rightarrow> nat \<Rightarrow> nat \<Rightarrow> 'a list \<Rightarrow> 'a list" where
  "region w t b cs = take ((b - t) * w) (drop (t * w) cs)"

lemma region_split:
  assumes "t \<le> b"
  shows "take (t * w) cs @ region w t b cs @ drop (b * w) cs = cs"
proof -
  obtain d where d: "b = t + d" using assms le_Suc_ex by blast
  have "take (t * w) cs @ take (d * w) (drop (t * w) cs) = take (b * w) cs"
    unfolding d add_mult_distrib take_add by simp
  then show ?thesis by (simp add: region_def d flip: append_assoc)
qed

lemma region_length: "b * w \<le> length cs \<Longrightarrow> length (region w t b cs) = (b - t) * w"
  by (simp add: region_def diff_mult_distrib)

lemma scroll_rows_parts:
  assumes "t < b" "length A = t * w" "length R = (b - t) * w"
  shows "scroll_rows w t b a (A @ R @ Z) = A @ (drop w R @ replicate w a) @ Z"
    "revscroll_rows w t b a (A @ R @ Z) = A @ (replicate w a @ take ((b - Suc t) * w) R) @ Z"
proof -
  obtain d where d: "b = Suc (t + d)" using assms(1) less_iff_Suc_add by blast
  have R: "length R = w + d * w" using assms(3) by (simp add: d)
  show "scroll_rows w t b a (A @ R @ Z) = A @ (drop w R @ replicate w a) @ Z"
    using assms(2) R by (simp add: scroll_rows_def d add_mult_distrib)
  show "revscroll_rows w t b a (A @ R @ Z) = A @ (replicate w a @ take ((b - Suc t) * w) R) @ Z"
    using assms(2) R by (simp add: revscroll_rows_def d add_mult_distrib max_def)
qed

lemma scroll_region_pow:
  assumes "length R = h * w" "0 < h"
  shows "((\<lambda>R. drop w R @ replicate w a) ^^ n) R = drop (n * w) R @ replicate (min n h * w) a"
    and "((\<lambda>R. replicate w a @ take ((h - 1) * w) R) ^^ n) R
         = replicate (min n h * w) a @ take ((h - n) * w) R"
proof (induction n)
  case (Suc n)
  {
    case 1
    show ?case
    proof (cases "n < h")
      case True
      then obtain d where d: "h = Suc (n + d)" using less_iff_Suc_add by blast
      have "min (Suc n) h = Suc n" "min n h = n" using True by simp_all
      moreover have "replicate (n * w) a @ replicate w a = replicate w a @ replicate (n * w) a"
        by (simp add: add.commute flip: replicate_add)
      ultimately show ?thesis
        using assms(1) Suc(1) by (simp add: d add_mult_distrib replicate_add add.commute)
    next
      case False
      then obtain d where d: "n = h + d" using le_Suc_ex by (metis not_less)
      have "min (Suc n) h = h" "min n h = h" using False by simp_all
      moreover obtain k where k: "h = Suc k" using assms(2) by (cases h) auto
      have "replicate (k * w) a @ replicate w a = replicate (w + k * w) a"
        by (simp add: add.commute flip: replicate_add)
      ultimately show ?thesis
        using Suc(1) assms(1) by (simp add: d add_mult_distrib k)
    qed
  next
    case 2
    show ?case
    proof (cases "n < h")
      case True
      then obtain d where d: "h = Suc (n + d)" using less_iff_Suc_add by blast
      have m: "min (Suc n) h = Suc n" "min n h = n" using True by simp_all
      have "take ((h - 1) * w) (replicate (n * w) a @ take ((h - n) * w) R)
          = replicate (n * w) a @ take (d * w) R"
        by (simp add: d add_mult_distrib)
      then show ?thesis
        using Suc(2) m by (simp add: d add_mult_distrib replicate_add)
    next
      case False
      then have "min (Suc n) h = h" "min n h = h" "h - n = 0" "h - Suc n = 0" by simp_all
      moreover obtain k where k: "h = Suc k" using assms(2) by (cases h) auto
      have "replicate w a @ replicate (k * w) a = replicate (w + k * w) a" by (simp add: replicate_add)
      ultimately show ?thesis
        using Suc(2) by (simp add: k)
    qed
  }
qed (simp_all add: assms)

lemma scroll_region_length:
  assumes "length R = h * w"
  shows "length (drop (n * w) R @ replicate (min n h * w) a) = h * w"
    "length (replicate (min n h * w) a @ take ((h - n) * w) R) = h * w"
proof -
  have "h * w - n * w + min n h * w = h * w"
  proof (cases "n \<le> h")
    case True
    then have "n * w \<le> h * w" by (rule mult_le_mono1)
    then show ?thesis using True by (simp add: min_def)
  next
    case False
    then have "h * w \<le> n * w" by (intro mult_le_mono1) simp
    then show ?thesis using False by (simp add: min_def)
  qed
  moreover have "(h - n) * w = h * w - n * w" by (rule diff_mult_distrib)
  ultimately show "length (drop (n * w) R @ replicate (min n h * w) a) = h * w"
    "length (replicate (min n h * w) a @ take ((h - n) * w) R) = h * w"
    using assms by simp_all
qed

lemma scroll_rows_pow:
  assumes t: "t < b" and le: "b * w \<le> length cs"
  shows "(scroll_rows w t b a ^^ n) cs = take (t * w) cs
      @ (drop (n * w) (region w t b cs) @ replicate (min n (b - t) * w) a) @ drop (b * w) cs"
    and "(revscroll_rows w t b a ^^ n) cs = take (t * w) cs
      @ (replicate (min n (b - t) * w) a @ take ((b - t - n) * w) (region w t b cs)) @ drop (b * w) cs"
proof -
  let ?A = "take (t * w) cs" and ?Z = "drop (b * w) cs" and ?R = "region w t b cs"
  have "t * w \<le> b * w" using t by (intro mult_le_mono1) simp
  then have "t * w \<le> length cs" using le by (rule le_trans)
  then have A: "length ?A = t * w" by (simp only: length_take min_absorb2)
  have R: "length ?R = (b - t) * w" by (rule region_length [OF le])
  have h: "0 < b - t" "b - Suc t = b - t - 1" using t by simp_all
  note cs = region_split [OF less_imp_le [OF t], of w cs, symmetric]
  note pow = scroll_region_pow [OF R h(1), where a = a]
  have "(scroll_rows w t b a ^^ n) (?A @ ?R @ ?Z) = ?A @ ((\<lambda>R. drop w R @ replicate w a) ^^ n) ?R @ ?Z"
  proof (induction n)
    case (Suc n)
    have "length (((\<lambda>R. drop w R @ replicate w a) ^^ n) ?R) = (b - t) * w"
      unfolding pow(1) using R by (rule scroll_region_length)
    then show ?case using Suc scroll_rows_parts(1) [OF t A] by simp
  qed simp
  then show "(scroll_rows w t b a ^^ n) cs = ?A
      @ (drop (n * w) ?R @ replicate (min n (b - t) * w) a) @ ?Z"
    unfolding pow(1) cs [symmetric] .
  have "(revscroll_rows w t b a ^^ n) (?A @ ?R @ ?Z)
      = ?A @ ((\<lambda>R. replicate w a @ take ((b - t - 1) * w) R) ^^ n) ?R @ ?Z"
  proof (induction n)
    case (Suc n)
    have "length (((\<lambda>R. replicate w a @ take ((b - t - 1) * w) R) ^^ n) ?R) = (b - t) * w"
      unfolding pow(2) using R by (rule scroll_region_length)
    from scroll_rows_parts(2) [OF t A this] Suc show ?case
      unfolding funpow.simps comp_apply h(2) by (simp only:)
  qed simp
  then show "(revscroll_rows w t b a ^^ n) cs = ?A
      @ (replicate (min n (b - t) * w) a @ take ((b - t - n) * w) ?R) @ ?Z"
    unfolding pow(2) cs [symmetric] .
qed

lemma revscroll_screens:
  assumes "fb_wf c" "scroll_top_margin c < rows c"
    "0 < scroll_bottom_margin c" "scroll_bottom_margin c \<le> rows c"
  shows "\<exists>c'. ofold (\<lambda>_ s. flanterm_fb_revscroll s) [0..<n] c = Some c' \<and> fb_wf c' \<and> qframe c c' \<and>
    screen c' = (revscroll_rows (cols c) (scroll_top_margin c) (scroll_bottom_margin c)
                   (empty_char c) ^^ n) (screen c)"
proof (induction n)
  case 0
  then show ?case using assms(1) by simp
next
  case (Suc n)
  then obtain s where s: "ofold (\<lambda>_ s. flanterm_fb_revscroll s) [0..<n] c = Some s" "fb_wf s"
    "qframe c s" "screen s = (revscroll_rows (cols c) (scroll_top_margin c) (scroll_bottom_margin c)
                   (empty_char c) ^^ n) (screen c)" by blast
  note g = qframe_geom [OF s(3)]
  from flanterm_fb_revscroll_ok [OF s(2)] assms(2-4) g obtain s' where
    "flanterm_fb_revscroll s = Some s'" "fb_wf s'" "qframe s s'"
    "screen s' = revscroll_rows (cols c) (scroll_top_margin c) (scroll_bottom_margin c)
       (empty_char s) (screen s)" by auto
  moreover have "empty_char s = empty_char c" using g by (simp add: empty_char_def)
  ultimately show ?case using s qframe_trans by (auto simp: ofold_append)
qed

lemma scroll_screens:
  assumes "fb_wf c" "margins_wf c"
  shows "\<exists>c'. ofold (\<lambda>_ s. flanterm_fb_scroll s) [0..<n] c = Some c' \<and> fb_wf c' \<and> qframe c c' \<and>
    screen c' = (scroll_rows (cols c) (scroll_top_margin c) (scroll_bottom_margin c)
                   (empty_char c) ^^ n) (screen c)"
proof (induction n)
  case 0
  then show ?case using assms(1) by simp
next
  case (Suc n)
  then obtain s where s: "ofold (\<lambda>_ s. flanterm_fb_scroll s) [0..<n] c = Some s" "fb_wf s"
    "qframe c s" "screen s = (scroll_rows (cols c) (scroll_top_margin c) (scroll_bottom_margin c)
                   (empty_char c) ^^ n) (screen c)" by blast
  note g = qframe_geom [OF s(3)]
  from flanterm_fb_scroll_ok [OF s(2)] assms(2) g obtain s' where
    "flanterm_fb_scroll s = Some s'" "fb_wf s'" "qframe s s'"
    "screen s' = scroll_rows (cols c) (scroll_top_margin c) (scroll_bottom_margin c)
       (empty_char s) (screen s)" by (auto simp: margins_wf_def)
  moreover have "empty_char s = empty_char c" using g by (simp add: empty_char_def)
  ultimately show ?case using s qframe_trans by (auto simp: ofold_append)
qed

lemma csi_insert_lines_ok:
  assumes wf: "term_wf c" and y: "y < scroll_bottom_margin c" and n: "n = unat (esc_values c ! 0)"
  shows "\<exists>c'. csi_insert_lines c y = Some c' \<and> fb_wf c' \<and> scroll_top_margin c' = scroll_top_margin c \<and>
    screen c' = take (y * cols c) (screen c)
      @ replicate (min n (scroll_bottom_margin c - y) * cols c) (empty_char c)
      @ take ((scroll_bottom_margin c - y - n) * cols c) (region (cols c) y (scroll_bottom_margin c) (screen c))
      @ drop (scroll_bottom_margin c * cols c) (screen c)"
proof -
  let ?c = "c\<lparr>scroll_top_margin := y\<rparr>" and ?b = "scroll_bottom_margin c"
  note dims = term_wf_dims [OF wf]
  have "fb_wf ?c" using term_wfD(5) [OF wf] by simp
  from revscroll_screens [OF this, of n] y dims(5,6) obtain s where
    s: "ofold (\<lambda>_ s. flanterm_fb_revscroll s) [0..<n] ?c = Some s" "fb_wf s"
    "screen s = (revscroll_rows (cols c) y ?b (empty_char ?c) ^^ n) (screen c)"
    by auto
  have "?b * cols c \<le> length (screen c)" using mult_le_mono1 [OF dims(6)] by simp
  from scroll_rows_pow(2) [OF y this] s have
    "screen s = take (y * cols c) (screen c)
      @ replicate (min n (?b - y) * cols c) (empty_char c)
      @ take ((?b - y - n) * cols c) (region (cols c) y ?b (screen c))
      @ drop (?b * cols c) (screen c)"
    by (simp add: empty_char_def)
  then show ?thesis
    using s(1,2) term_wf_colours(5) [OF wf] by (simp add: csi_insert_lines_def Let_def n)
qed

lemma csi_delete_lines_ok:
  assumes wf: "term_wf c" and n: "n = unat (esc_values c ! 0)"
  shows "\<exists>c'. csi_delete_lines c = Some c' \<and> fb_wf c' \<and> qframe c c' \<and>
    screen c' = take (scroll_top_margin c * cols c) (screen c)
      @ drop (n * cols c) (region (cols c) (scroll_top_margin c) (scroll_bottom_margin c) (screen c))
      @ replicate (min n (scroll_bottom_margin c - scroll_top_margin c) * cols c) (empty_char c)
      @ drop (scroll_bottom_margin c * cols c) (screen c)"
proof -
  note dims = term_wf_dims [OF wf]
  have le: "scroll_bottom_margin c * cols c \<le> length (screen c)" using mult_le_mono1 [OF dims(6)] by simp
  show ?thesis
    using scroll_screens [OF term_wfD(5,2) [OF wf], of n] scroll_rows_pow(1) [OF dims(5) le]
      term_wf_colours(5) [OF wf]
    by (simp add: csi_delete_lines_def n)
qed

text \<open>
  Deleting more characters than the row has right of the cursor: nothing moves, and the blanks
  that follow start left of the cursor.
\<close>

lemma delete_chars_past_end:
  assumes wf: "term_wf c" and x: "x < cols c" and y: "y < rows c"
    and n: "n = unat (esc_values c ! 0)" "cols c \<le> x + n" "n \<le> cols c" "0 < n"
  shows "\<exists>c'. csi_delete_chars c x y = Some c' \<and> cursor_x c' = x \<and> cursor_y c' = y \<and>
     screen c' = overlay (y * cols c + (cols c - n)) (replicate n (empty_char c)) (screen c)"
proof -
  note dims = term_wf_dims [OF wf]
  note len = term_wf_colours(5) [OF wf]
  have sz: "sz_add x n = x + n" "sz_sub (cols c) n = cols c - n"
    using n(3) x dims(4) by (simp_all add: sz_simps SZ_def)
  from erase_row [OF term_wfD(5) [OF wf] y, of "cols c - n" n] n(3,4) dims(2) obtain t where
    t: "puts_blank n (flanterm_fb_set_cursor_pos c (cols c - n) y) = Some t" "fb_wf t" "cframe c t"
    "screen t = overlay (y * cols c + (cols c - n)) (replicate n (empty_char c)) (screen c)" by auto
  have "csi_delete_chars c x y = Some (flanterm_fb_set_cursor_pos t x y)"
    using t(1) len n(2)
    by (simp add: csi_delete_chars_def csi_erase_chars_def n(1) [symmetric] sz flanterm_fb_set_cursor_pos_def)
  then show ?thesis using t x y cframe_geom [OF t(3)] by (simp add: set_cursor_inside)
qed

section \<open>Properties\<close>

text \<open>
  Insert character \<open>ESC [ n @\<close> moves the cells from the cursor on to the right by
  \<open>n\<close>, dropping those that leave the row, fills the gap with blanks in the current colours,
  changes no other row and leaves the cursor where it is.
\<close>

theorem insert_characters:
  assumes "term_wf c" "x < cols c" "y < rows c" "n = unat (esc_values c ! 0)" "0 < n"
  shows "\<exists>c'. csi_insert_chars c x y = Some c' \<and> fb_wf c' \<and> cursor_x c' = x \<and> cursor_y c' = y \<and>
     screen c' = overlay (y * cols c + x)
       (take (cols c - x) (replicate n (empty_char c) @ drop x (row_of c y))) (screen c)"
  using assms by (rule csi_insert_chars_ok)

theorem insert_characters_witness:
  "\<exists>c'. csi_insert_chars (sample_sgr [1]) 0 1 = Some c' \<and> cursor_x c' = 0 \<and> cursor_y c' = 1"
proof -
  have "0 < cols (sample_sgr [1])" "1 < rows (sample_sgr [1])"
    "1 = unat (esc_values (sample_sgr [1]) ! 0)" "(0 :: nat) < 1" by simp_all
  from insert_characters [OF term_wf_sample_sgr this] show ?thesis by blast
qed

text \<open>
  C37: delete character \<open>ESC [ n P\<close>, with at least one and at most as many characters as the row has
  from the cursor on, moves the rest of the row to the left by \<open>n\<close> and fills the end of the row with
  blanks; it changes no other row and leaves the cursor where it is.
\<close>

theorem delete_characters:
  assumes "term_wf c" "x < cols c" "y < rows c" "n = unat (esc_values c ! 0)" "0 < n" "x + n \<le> cols c"
  shows "\<exists>c'. csi_delete_chars c x y = Some c' \<and> fb_wf c' \<and> cursor_x c' = x \<and> cursor_y c' = y \<and>
     screen c' = overlay (y * cols c + x)
       (drop (x + n) (row_of c y) @ replicate n (empty_char c)) (screen c)"
  using assms by (rule csi_delete_chars_ok)

theorem delete_characters_witness:
  "\<exists>c'. csi_delete_chars (sample_sgr [2]) 0 1 = Some c' \<and> cursor_y c' = 1"
proof -
  have "0 < cols (sample_sgr [2])" "1 < rows (sample_sgr [2])"
    "2 = unat (esc_values (sample_sgr [2]) ! 0)" "(0 :: nat) < 2" "0 + 2 \<le> cols (sample_sgr [2])"
    by simp_all
  from delete_characters [OF term_wf_sample_sgr this] show ?thesis by blast
qed

text \<open>
  Deleting more characters than the row has from the cursor on erases text left of the
  cursor: the last \<open>n\<close> cells of the row are blanked, where only those from the cursor on
  should be.
\<close>

theorem delete_characters_left_of_cursor:
  assumes "term_wf c" "x < cols c" "y < rows c"
    and "n = unat (esc_values c ! 0)" "cols c < x + n" "n \<le> cols c"
  shows "\<exists>c'. csi_delete_chars c x y = Some c' \<and> cols c - n < x \<and>
     (\<forall>i. cols c - n \<le> i \<and> i < cols c \<longrightarrow> screen c' ! (y * cols c + i) = empty_char c)"
proof -
  obtain c' where c': "csi_delete_chars c x y = Some c'"
    "screen c' = overlay (y * cols c + (cols c - n)) (replicate n (empty_char c)) (screen c)"
    using delete_chars_past_end [OF assms(1-4)] assms(2,5,6) by auto
  have le: "y * cols c + cols c \<le> length (screen c)" using row_le [OF assms(3)] by simp
  have "screen c' ! (y * cols c + i) = empty_char c" if "cols c - n \<le> i" "i < cols c" for i
  proof -
    have a: "length (take (y * cols c + (cols c - n)) (screen c)) = y * cols c + (cols c - n)"
      using le by simp
    have "y * cols c + i - (y * cols c + (cols c - n)) < n" "\<not> y * cols c + i < y * cols c + (cols c - n)"
      using that assms(6) by linarith+
    then show ?thesis unfolding c'(2) overlay_def nth_append a by simp
  qed
  moreover have "cols c - n < x" using assms(2,5,6) by linarith
  ultimately show ?thesis using c'(1) by blast
qed

theorem delete_characters_left_of_cursor_witness:
  "\<exists>c'. csi_delete_chars ((sample_sgr [2])\<lparr>text_fg := 5\<rparr>) 1 0 = Some c' \<and> char_fg (screen c' ! 0) = 5"
proof -
  let ?c = "(sample_sgr [2])\<lparr>text_fg := 5\<rparr>"
  have "term_wf ?c" using term_wf_sample_sgr by simp
  moreover have "1 < cols ?c" "0 < rows ?c" "2 = unat (esc_values ?c ! 0)"
    "cols ?c < 1 + 2" "2 \<le> cols ?c" by simp_all
  ultimately obtain c' where c': "csi_delete_chars ?c 1 0 = Some c'"
    "\<forall>i. cols ?c - 2 \<le> i \<and> i < cols ?c \<longrightarrow> screen c' ! (0 * cols ?c + i) = empty_char ?c"
    using delete_characters_left_of_cursor [of ?c 1 0 2] by blast
  have "screen c' ! 0 = empty_char ?c" using c'(2) [rule_format, of 0] by simp
  then show ?thesis using c'(1) by (intro exI [of _ c']) (simp add: empty_char_def)
qed

text \<open>
  Erase character \<open>ESC [ n X\<close> blanks the \<open>n\<close> cells from the cursor on, moves nothing
  and leaves the cursor where it is.
\<close>

theorem erase_characters:
  assumes "term_wf c" "cursor_x c < cols c" "cursor_y c < rows c"
    and "n = unat (esc_values c ! 0)" "cursor_x c + n \<le> cols c"
  shows "\<exists>c'. csi_erase_chars c (cursor_x c) (cursor_y c) = Some c' \<and> fb_wf c' \<and>
     cursor_x c' = cursor_x c \<and> cursor_y c' = cursor_y c \<and>
     screen c' = overlay (cursor_y c * cols c + cursor_x c) (replicate n (empty_char c)) (screen c)"
  using csi_erase_chars_ok [OF assms] by (simp add: pos_def)

theorem erase_characters_witness:
  "\<exists>c'. csi_erase_chars (sample_sgr [2]) 0 0 = Some c' \<and> cursor_x c' = 0"
proof -
  have "cursor_x (sample_sgr [2]) < cols (sample_sgr [2])" "cursor_y (sample_sgr [2]) < rows (sample_sgr [2])"
    "2 = unat (esc_values (sample_sgr [2]) ! 0)" "cursor_x (sample_sgr [2]) + 2 \<le> cols (sample_sgr [2])"
    by simp_all
  from erase_characters [OF term_wf_sample_sgr this] show ?thesis unfolding sample_sgr_sel by blast
qed

text \<open>
  Insert line \<open>ESC [ n L\<close>, with the cursor above the bottom margin, moves the rows from
  the cursor's row to the bottom margin down by \<open>n\<close>, blanks the rows that come free, leaves
  the rows above the cursor and below the region alone and restores the top margin.
\<close>

theorem insert_lines:
  assumes "term_wf c" "y < scroll_bottom_margin c" "n = unat (esc_values c ! 0)"
  shows "\<exists>c'. csi_insert_lines c y = Some c' \<and> fb_wf c' \<and> scroll_top_margin c' = scroll_top_margin c \<and>
    screen c' = take (y * cols c) (screen c)
      @ replicate (min n (scroll_bottom_margin c - y) * cols c) (empty_char c)
      @ take ((scroll_bottom_margin c - y - n) * cols c) (region (cols c) y (scroll_bottom_margin c) (screen c))
      @ drop (scroll_bottom_margin c * cols c) (screen c)"
  using assms by (rule csi_insert_lines_ok)

theorem insert_lines_witness:
  "\<exists>c'. csi_insert_lines (sample_sgr [1]) 1 = Some c' \<and> scroll_top_margin c' = 0"
proof -
  have "1 < scroll_bottom_margin (sample_sgr [1])" "1 = unat (esc_values (sample_sgr [1]) ! 0)" by simp_all
  from insert_lines [OF term_wf_sample_sgr this] show ?thesis unfolding sample_sgr_sel by blast
qed

text \<open>
  Delete line \<open>ESC [ n M\<close> scrolls the whole scroll region up by \<open>n\<close> rows: its first
  \<open>n\<close> rows disappear and its last rows are blanked, wherever in the region the cursor is (so
  rows above the cursor are lost, where the command should only delete from its row on).
\<close>

theorem delete_lines_whole_region:
  assumes "term_wf c" "n = unat (esc_values c ! 0)"
  shows "\<exists>c'. csi_delete_lines c = Some c' \<and> fb_wf c' \<and> cursor_y c' = cursor_y c \<and>
    screen c' = take (scroll_top_margin c * cols c) (screen c)
      @ drop (n * cols c) (region (cols c) (scroll_top_margin c) (scroll_bottom_margin c) (screen c))
      @ replicate (min n (scroll_bottom_margin c - scroll_top_margin c) * cols c) (empty_char c)
      @ drop (scroll_bottom_margin c * cols c) (screen c)"
  using csi_delete_lines_ok [OF assms] qframe_geom(5) by blast

theorem delete_lines_whole_region_witness:
  "\<exists>c'. csi_delete_lines (sample_sgr [1]) = Some c' \<and> cursor_y c' = 0"
proof -
  have "1 = unat (esc_values (sample_sgr [1]) ! 0)" by simp
  from delete_lines_whole_region [OF term_wf_sample_sgr this] show ?thesis unfolding sample_sgr_sel by blast
qed

end
