(* ===== verification/Flanterm_Core.thy ===== *)
theory Flanterm_Core
  imports Flanterm_Shift
begin

text \<open>
  The byte interpreter of the terminal: \<open>escape_parse\<close>, \<open>flanterm_putchar\<close>,
  \<open>flanterm_write\<close> and \<open>flanterm_context_reinit\<close> of \<open>kernel/flanterm/flanterm.c\<close>.
  The main results: every byte keeps the invariant of the terminal, the only byte that can leave
  an array is the final byte of a colour sequence with a 256-colour index out of range, and
  after a write the frame buffer shows the logical screen.
\<close>

section \<open>Operations\<close>

definition flanterm_context_reinit :: "ctx \<Rightarrow> ctx option" where
  "flanterm_context_reinit ctx = do {
     let ctx = ctx\<lparr>tab_size := 8, autoflush := True, cursor_enabled := True,
       scroll_enabled := True, control_sequence := False, csi := False, escape := False,
       osc := False, osc_escape := False, rrr := False, discard_next := False, bold := False,
       bg_bold := False, reverse_video := False, dec_private := False, insert_mode := False,
       unicode_remaining := 0, g_select := 0\<rparr>;
     cs \<leftarrow> aset (charsets ctx) 0 0;
     cs \<leftarrow> aset cs 1 1;
     Some (ctx\<lparr>charsets := cs, current_charset := 0, escape_offset := 0, esc_values_i := 0,
       saved_cursor_x := 0, saved_cursor_y := 0, current_primary := SZ_MAX, current_bg := SZ_MAX,
       scroll_top_margin := 0, scroll_bottom_margin := rows ctx, oob_output := 16\<rparr>)
   }"

definition restore_state :: "ctx \<Rightarrow> ctx" where
  "restore_state ctx = flanterm_fb_restore_state
     (ctx\<lparr>bold := saved_state_bold ctx, bg_bold := saved_state_bg_bold ctx,
          reverse_video := saved_state_reverse_video ctx,
          current_charset := saved_state_current_charset ctx,
          current_primary := saved_state_current_primary ctx,
          current_bg := saved_state_current_bg ctx\<rparr>)"

definition save_state :: "ctx \<Rightarrow> ctx" where
  "save_state ctx0 =
     (let ctx = flanterm_fb_save_state ctx0
      in ctx\<lparr>saved_state_bold := bold ctx, saved_state_bg_bold := bg_bold ctx,
             saved_state_reverse_video := reverse_video ctx,
             saved_state_current_charset := current_charset ctx,
             saved_state_current_primary := current_primary ctx,
             saved_state_current_bg := current_bg ctx\<rparr>)"

text \<open>The label \<open>is_csi\<close>.\<close>

definition enter_csi :: "ctx \<Rightarrow> ctx option" where
  "enter_csi ctx = do {
     ctx \<leftarrow> ofold (\<lambda>i s. put_arg True s i 0) [0..<16] ctx;
     Some (ctx\<lparr>esc_values_i := 0, rrr := False, control_sequence := True\<rparr>)
   }"

text \<open>The two-character escapes that end with \<open>escape = false\<close>.\<close>

definition escape_command :: "ctx \<Rightarrow> u8 \<Rightarrow> nat \<Rightarrow> nat \<Rightarrow> ctx option" where
  "escape_command ctx c x y =
     (if c = 0x37 then Some (save_state ctx)
      else if c = 0x38 then Some (restore_state ctx)
      else if c = 0x63 then do {
        ctx \<leftarrow> flanterm_context_reinit ctx;
        flanterm_fb_clear ctx True
      }
      else if c = 0x44 then
        (if y = sz_sub (scroll_bottom_margin ctx) 1
         then do { s \<leftarrow> flanterm_fb_scroll ctx; Some (flanterm_fb_set_cursor_pos s x y) }
         else Some (flanterm_fb_set_cursor_pos ctx x (sz_add y 1)))
      else if c = 0x45 then
        (if y = sz_sub (scroll_bottom_margin ctx) 1
         then do { s \<leftarrow> flanterm_fb_scroll ctx; Some (flanterm_fb_set_cursor_pos s 0 y) }
         else Some (flanterm_fb_set_cursor_pos ctx 0 (sz_add y 1)))
      else if c = 0x4d then
        (if y = scroll_top_margin ctx
         then do { s \<leftarrow> flanterm_fb_revscroll ctx; Some (flanterm_fb_set_cursor_pos s 0 y) }
         else Some (flanterm_fb_set_cursor_pos ctx 0 (sz_sub y 1)))
      else if c = 0x5a then Some (notify 30 0 (Num 0) 0 ctx)
      else if c = 0x28 \<or> c = 0x29 then Some (ctx\<lparr>g_select := c - 0x27\<rparr>)
      else Some ctx)"

definition escape_parse :: "ctx \<Rightarrow> u8 \<Rightarrow> ctx option" where
  "escape_parse ctx0 c =
     (let ctx = ctx0\<lparr>escape_offset := sz_add (escape_offset ctx0) 1\<rparr>
      in if osc ctx then Some (osc_parse ctx c)
         else if control_sequence ctx then control_sequence_parse ctx c
         else if csi ctx then enter_csi (ctx\<lparr>csi := False\<rparr>)
         else (let (x, y) = flanterm_fb_get_cursor_pos ctx
               in if c = 0x5d then Some (ctx\<lparr>osc_escape := False, osc := True\<rparr>)
                  else if c = 0x5b then enter_csi ctx
                  else do {
                    ctx \<leftarrow> escape_command ctx c x y;
                    Some (ctx\<lparr>escape := False\<rparr>)
                  }))"

definition dec_special_print :: "ctx \<Rightarrow> u8 \<Rightarrow> (ctx \<times> bool) option" where
  "dec_special_print ctx c =
     (case map_of dec_special_cases c of
        Some v \<Rightarrow> do { ctx \<leftarrow> flanterm_fb_raw_putchar ctx v; Some (ctx, True) }
      | None \<Rightarrow> Some (ctx, False))"

text \<open>The last byte of a UTF-8 sequence: print the glyph of the code point, or a replacement.\<close>

definition print_code_point :: "ctx \<Rightarrow> ctx option" where
  "print_code_point ctx = do {
     let cc = unicode_to_cp437 (code_point ctx);
     if cc = - 1 then do {
       w \<leftarrow> mk_wcwidth (ucast (code_point ctx));
       ctx \<leftarrow> (if 0 < w then flanterm_fb_raw_putchar ctx 0xfe else Some ctx);
       ofold (\<lambda>_ s. flanterm_fb_raw_putchar s 0x20) [1..<nat w] ctx
     }
     else flanterm_fb_raw_putchar ctx (word_of_int cc)
   }"

definition line_feed :: "ctx \<Rightarrow> nat \<Rightarrow> nat \<Rightarrow> ctx option" where
  "line_feed ctx x y = do {
     let x' = (if oob_output ctx AND 16 \<noteq> 0 then 0 else x);
     if y = sz_sub (scroll_bottom_margin ctx) 1
     then do { s \<leftarrow> flanterm_fb_scroll ctx; Some (flanterm_fb_set_cursor_pos s x' y) }
     else Some (flanterm_fb_set_cursor_pos ctx x' (sz_add y 1))
   }"

definition tabulate :: "ctx \<Rightarrow> nat \<Rightarrow> nat \<Rightarrow> ctx option" where
  "tabulate ctx x y =
     (if tab_size ctx = 0 then None
      else if cols ctx \<le> sz_add (x div tab_size ctx) 1
      then Some (flanterm_fb_set_cursor_pos ctx (sz_sub (cols ctx) 1) y)
      else Some (flanterm_fb_set_cursor_pos ctx
                  (sz_mul (sz_add (x div tab_size ctx) 1) (tab_size ctx)) y))"

text \<open>After the switch over the control characters: insert mode, character set, print.\<close>

definition print_char :: "ctx \<Rightarrow> u8 \<Rightarrow> nat \<Rightarrow> nat \<Rightarrow> ctx option" where
  "print_char ctx c x y = do {
     ctx \<leftarrow> (if insert_mode ctx
       then ofold (\<lambda>i s. flanterm_fb_move_character s (sz_add i 1) y i y)
              (down_until (sz_sub (cols ctx) 1) x) ctx
       else Some ctx);
     set \<leftarrow> aget (charsets ctx) (current_charset ctx);
     (ctx, done) \<leftarrow> (if set = 1 then dec_special_print ctx c else Some (ctx, False));
     if \<not> done \<and> 0x20 \<le> c \<and> c \<le> 0x7e then flanterm_fb_raw_putchar ctx c else Some ctx
   }"

definition control_or_print :: "ctx \<Rightarrow> u8 \<Rightarrow> ctx option" where
  "control_or_print ctx c =
     (let (x, y) = flanterm_fb_get_cursor_pos ctx
      in if c = 0x00 \<or> c = 0x7f then Some ctx
         else if c = 0x9b then Some (ctx\<lparr>csi := True, escape_offset := 0, escape := True\<rparr>)
         else if c = 0x1b then Some (ctx\<lparr>escape_offset := 0, escape := True\<rparr>)
         else if c = 0x09 then tabulate ctx x y
         else if c = 0x0b \<or> c = 0x0c \<or> c = 0x0a then line_feed ctx x y
         else if c = 0x08 then Some (flanterm_fb_set_cursor_pos ctx (sz_sub x 1) y)
         else if c = 0x0d then Some (flanterm_fb_set_cursor_pos ctx 0 y)
         else if c = 0x07 then Some (notify 20 0 (Num 0) 0 ctx)
         else if c = 14 then Some (ctx\<lparr>current_charset := 1\<rparr>)
         else if c = 15 then Some (ctx\<lparr>current_charset := 0\<rparr>)
         else print_char ctx c x y)"

text \<open>A pending character set selection: the next byte names the set.\<close>

definition select_charset :: "ctx \<Rightarrow> u8 \<Rightarrow> ctx option" where
  "select_charset ctx0 c = do {
     let ctx = ctx0\<lparr>g_select := g_select ctx0 - 1\<rparr>;
     ctx \<leftarrow> (if c = 0x42 then do {
              cs \<leftarrow> aset (charsets ctx) (unat (g_select ctx)) 0; Some (ctx\<lparr>charsets := cs\<rparr>) }
            else if c = 0x30 then do {
              cs \<leftarrow> aset (charsets ctx) (unat (g_select ctx)) 1; Some (ctx\<lparr>charsets := cs\<rparr>) }
            else Some ctx);
     Some (ctx\<lparr>g_select := 0\<rparr>)
   }"

text \<open>From the label \<open>unicode_error\<close> on.\<close>

definition putchar_byte :: "ctx \<Rightarrow> u8 \<Rightarrow> ctx option" where
  "putchar_byte ctx c =
     (if 0xc0 \<le> c \<and> c \<le> 0xdf then
        Some (ctx\<lparr>unicode_remaining := 1, code_point := push_bit 6 (ucast (c AND 0x1f))\<rparr>)
      else if 0xe0 \<le> c \<and> c \<le> 0xef then
        Some (ctx\<lparr>unicode_remaining := 2, code_point := push_bit 12 (ucast (c AND 0x0f))\<rparr>)
      else if 0xf0 \<le> c \<and> c \<le> 0xf7 then
        Some (ctx\<lparr>unicode_remaining := 3, code_point := push_bit 18 (ucast (c AND 0x07))\<rparr>)
      else if escape ctx then escape_parse ctx c
      else if g_select ctx \<noteq> 0 then select_charset ctx c
      else control_or_print ctx c)"

definition flanterm_putchar :: "ctx \<Rightarrow> u8 \<Rightarrow> ctx option" where
  "flanterm_putchar ctx c =
     (if discard_next ctx \<or> c = 0x18 \<or> c = 0x1a then
        Some (ctx\<lparr>discard_next := False, escape := False, csi := False,
          control_sequence := False, unicode_remaining := 0, osc := False, osc_escape := False,
          g_select := 0\<rparr>)
      else if unicode_remaining ctx \<noteq> 0 then
        (if c AND 0xc0 \<noteq> 0x80 then putchar_byte (ctx\<lparr>unicode_remaining := 0\<rparr>) c
         else (let r = unicode_remaining ctx - 1;
                   ctx = ctx\<lparr>unicode_remaining := r,
                     code_point := code_point ctx OR push_bit (6 * r) (ucast (c AND 0x3f))\<rparr>
               in if r \<noteq> 0 then Some ctx else print_code_point ctx))
      else putchar_byte ctx c)"

definition flanterm_write :: "ctx \<Rightarrow> u8 list \<Rightarrow> ctx option" where
  "flanterm_write ctx buf = do {
     ctx \<leftarrow> ofold (\<lambda>c s. flanterm_putchar s c) buf ctx;
     if autoflush ctx then flanterm_fb_double_buffer_flush ctx else Some ctx
   }"

section \<open>Every byte keeps the invariant\<close>

lemma charset_set:
  assumes "term_wf c" "k < 2"
  shows "aset (charsets c) k v = Some ((charsets c)[k := v])"
    "term_wf (c\<lparr>charsets := (charsets c)[k := v]\<rparr>)"
proof -
  have "length (charsets c) = 2" using term_wfD(3) [OF assms(1)] by (simp add: parser_wf_def)
  then show "aset (charsets c) k v = Some ((charsets c)[k := v])"
    "term_wf (c\<lparr>charsets := (charsets c)[k := v]\<rparr>)"
    using assms by (simp_all add: term_wf_def margins_wf_def palette_wf_def parser_wf_def)
qed

lemma term_ok_reinit [term_oks]:
  assumes "term_wf c"
  shows "term_ok (flanterm_context_reinit c)"
proof -
  have "length (charsets c) = 2" using term_wfD(3) [OF assms] by (simp add: parser_wf_def)
  moreover have "0 < rows c" by (rule term_wf_dims(1) [OF assms])
  ultimately show ?thesis
    using assms unfolding flanterm_context_reinit_def term_ok_def Let_def term_wf_def
    by (simp add: margins_wf_def palette_wf_def parser_wf_def palette_index_def)
qed

lemma term_wf_saved:
  assumes "term_wf c"
  shows "term_wf (save_state c)" "term_wf (restore_state c)"
  using assms
  by (simp_all add: save_state_def restore_state_def flanterm_fb_save_state_def
      flanterm_fb_restore_state_def Let_def term_wf_def margins_wf_def palette_wf_def parser_wf_def)

lemma term_wf_enter_csi:
  assumes "term_wf c"
  shows "enter_csi c = Some (c\<lparr>esc_values := replicate 16 0, esc_values_i := 0, rrr := False,
      control_sequence := True\<rparr>)"
    "term_wf (c\<lparr>esc_values := replicate 16 0, esc_values_i := 0, rrr := False,
      control_sequence := True\<rparr>)"
proof -
  have "length (esc_values c) = 16" by (rule term_wf_colours(5) [OF assms])
  then show "enter_csi c = Some (c\<lparr>esc_values := replicate 16 0, esc_values_i := 0, rrr := False,
      control_sequence := True\<rparr>)"
    using fill_defaults [of c 0 0] by (simp add: enter_csi_def)
  show "term_wf (c\<lparr>esc_values := replicate 16 0, esc_values_i := 0, rrr := False,
      control_sequence := True\<rparr>)"
    using assms by (simp add: term_wf_def margins_wf_def palette_wf_def parser_wf_def)
qed

lemma term_ok_scroll_to:
  assumes "term_wf c"
  shows "term_ok (flanterm_fb_scroll c \<bind> (\<lambda>s. Some (flanterm_fb_set_cursor_pos s x y)))"
    "term_ok (flanterm_fb_revscroll c \<bind> (\<lambda>s. Some (flanterm_fb_set_cursor_pos s x y)))"
  by (rule term_ok_bind, rule term_oks, rule assms, simp)+

lemma term_ok_escape_command [term_oks]:
  assumes "term_wf c"
  shows "term_ok (escape_command c b x y)"
proof -
  have g: "term_wf (c\<lparr>g_select := b - 0x27\<rparr>)" if "b = 0x28 \<or> b = 0x29"
    using assms that by (auto simp add: term_wf_def margins_wf_def palette_wf_def parser_wf_def)
  show ?thesis
    unfolding escape_command_def
    by (intro term_ok_if term_ok_scroll_to term_ok_bind [OF term_ok_reinit])
      (use assms g in \<open>auto intro: term_oks term_wf_saved\<close>)
qed

text \<open>
  The one byte that leaves an array: the \<open>m\<close> that ends a colour sequence whose parameters
  name a 256-colour index above 255.
\<close>

definition sgr_fault :: "ctx \<Rightarrow> u8 \<Rightarrow> bool" where
  "sgr_fault c b \<longleftrightarrow> b = 0x6d \<and> escape c \<and> control_sequence c \<and> \<not> osc c \<and> \<not> dec_private c \<and>
     sgr_overrun (pending_params c)"

lemma pending_params_upd [simp]:
  "pending_params (c\<lparr>escape_offset := k\<rparr>) = pending_params c"
  "pending_params (c\<lparr>unicode_remaining := n\<rparr>) = pending_params c"
  by (simp_all add: pending_params_def)

lemma sgr_fault_upd [simp]: "sgr_fault (c\<lparr>unicode_remaining := n\<rparr>) b = sgr_fault c b"
  by (simp add: sgr_fault_def)

lemma escape_parse_ok:
  assumes wf: "term_wf c" and esc: "escape c"
  shows "case escape_parse c b of None \<Rightarrow> sgr_fault c b | Some c' \<Rightarrow> term_wf c' \<and> \<not> sgr_fault c b"
proof -
  let ?c = "c\<lparr>escape_offset := sz_add (escape_offset c) 1\<rparr>"
  have wc: "term_wf ?c" using wf by simp
  consider "osc c" | "\<not> osc c" "control_sequence c"
    | "\<not> osc c" "\<not> control_sequence c" by blast
  then show ?thesis
  proof cases
    case 1
    then show ?thesis using wf by (simp add: escape_parse_def sgr_fault_def)
  next
    case 2
    then have eq: "escape_parse c b = control_sequence_parse ?c b" by (simp add: escape_parse_def)
    show ?thesis
      using control_sequence_ok [OF wc, of b] 2 esc unfolding eq sgr_fault_def
      by (simp split: option.splits)
  next
    case 3
    have csi: "term_ok (enter_csi (?c\<lparr>csi := v\<rparr>))" "term_ok (enter_csi ?c)" for v
      using term_wf_enter_csi [of ?c] term_wf_enter_csi [of "?c\<lparr>csi := v\<rparr>"] wf by (simp_all add: term_ok_def)
    have cmd: "term_ok (escape_command ?c b x y \<bind> (\<lambda>c. Some (c\<lparr>escape := False\<rparr>)))" for x y
      by (rule term_ok_bind, rule term_oks, rule wc, simp)
    have "term_ok (escape_parse c b)"
      using 3 csi cmd wc unfolding escape_parse_def Let_def
      by (auto split: prod.split)
    then show ?thesis using 3 by (auto simp: term_ok_def sgr_fault_def)
  qed
qed

lemma term_ok_dec_special:
  assumes "term_wf c"
  shows "\<exists>c' d. dec_special_print c b = Some (c', d) \<and> term_wf c'"
proof (cases "map_of dec_special_cases b")
  case None
  then show ?thesis using assms by (intro exI) (auto simp: dec_special_print_def)
next
  case (Some v)
  from fbt.put [OF assms, of v] obtain c' where
    "flanterm_fb_raw_putchar c v = Some c'" "term_wf c'" by blast
  then show ?thesis using Some by (intro exI [of _ c'] exI [of _ True]) (simp add: dec_special_print_def)
qed

lemma term_ok_print_char [term_oks]:
  assumes "term_wf c"
  shows "term_ok (print_char c b x y)"
proof -
  have ins: "term_ok (if insert_mode c
       then ofold (\<lambda>i s. flanterm_fb_move_character s (sz_add i 1) y i y)
              (down_until (sz_sub (cols c) 1) x) c else Some c)"
    using assms by (intro term_ok_if) (auto intro: term_oks)
  show ?thesis
    unfolding print_char_def
  proof (rule term_ok_bind [OF ins])
    fix d
    assume d: "term_wf d"
    have set: "aget (charsets d) (current_charset d) = Some (charsets d ! current_charset d)"
      using term_wfD(3) [OF d] by (simp add: parser_wf_def)
    obtain d' n where "(if charsets d ! current_charset d = 1 then dec_special_print d b
        else Some (d, False)) = Some (d', n)" "term_wf d'"
      using term_ok_dec_special [OF d, of b] d by (cases "charsets d ! current_charset d = 1") auto
    then show "term_ok (aget (charsets d) (current_charset d) \<bind> (\<lambda>set.
        (if set = 1 then dec_special_print d b else Some (d, False)) \<bind> (\<lambda>(ctx, done).
        if \<not> done \<and> 0x20 \<le> b \<and> b \<le> 0x7e then flanterm_fb_raw_putchar ctx b else Some ctx)))"
      unfolding set by (auto intro: term_oks)
  qed
qed

lemma term_ok_control_or_print [term_oks]:
  assumes "term_wf c"
  shows "term_ok (control_or_print c b)"
proof -
  have "tab_size c = 8" "parser_wf c" using term_wfD(3) [OF assms] by (simp_all add: parser_wf_def)
  moreover have "term_wf (c\<lparr>current_charset := k\<rparr>)" if "k < 2" for k
    using assms that by (simp add: term_wf_def margins_wf_def palette_wf_def parser_wf_def)
  moreover have "term_ok (line_feed c x y)" for x y
    unfolding line_feed_def Let_def
    by (intro term_ok_if term_ok_scroll_to) (use assms in simp_all)
  ultimately show ?thesis
    using assms unfolding control_or_print_def case_prod_unfold Let_def
    by (intro term_ok_if) (auto simp: tabulate_def intro: term_oks)
qed

lemma term_ok_select_charset [term_oks]:
  assumes "term_wf c" "g_select c \<noteq> 0"
  shows "term_ok (select_charset c b)"
proof -
  let ?c = "c\<lparr>g_select := g_select c - 1\<rparr>"
  have "unat (g_select c) \<le> 2" using term_wfD(3) [OF assms(1)] by (simp add: parser_wf_def)
  then have g: "unat (g_select c - 1) < 2" using assms(2) by (simp add: unat_minus_one)
  then have c: "term_wf ?c"
    using assms(1) by (simp add: term_wf_def margins_wf_def palette_wf_def parser_wf_def)
  have z: "term_wf (d\<lparr>g_select := 0\<rparr>)" if "term_wf d" for d
    using that by (simp add: term_wf_def margins_wf_def palette_wf_def parser_wf_def)
  have set: "term_ok (aset (charsets ?c) (unat (g_select ?c)) v \<bind> (\<lambda>cs. Some (?c\<lparr>charsets := cs\<rparr>)))" for v
    using charset_set [OF c, of "unat (g_select ?c)" v] g by simp
  show ?thesis
    unfolding select_charset_def Let_def
    by (rule term_ok_bind [OF _ ]) (use set c z in \<open>auto\<close>)
qed

lemma term_wf_unicode: "term_wf c \<Longrightarrow> n \<le> 3 \<Longrightarrow> term_wf (c\<lparr>unicode_remaining := n\<rparr>)"
  by (simp add: term_wf_def margins_wf_def palette_wf_def parser_wf_def)

lemma term_ok_print_code_point [term_oks]:
  assumes "term_wf c"
  shows "term_ok (print_code_point c)"
proof -
  have blanks: "term_ok ((if b then flanterm_fb_raw_putchar c 0xfe else Some c) \<bind>
      (\<lambda>s. ofold (\<lambda>_ s. flanterm_fb_raw_putchar s 0x20) is s))" for b "is"
    by (intro term_ok_bind term_ok_if term_ok_loop term_oks) (use assms in simp_all)
  obtain w where w: "mk_wcwidth (ucast (code_point c)) = Some w" by (simp add: mk_wcwidth_eq)
  have "term_ok (mk_wcwidth (ucast (code_point c)) \<bind> (\<lambda>w.
      (if 0 < w then flanterm_fb_raw_putchar c 0xfe else Some c) \<bind>
      (\<lambda>s. ofold (\<lambda>_ s. flanterm_fb_raw_putchar s 0x20) [1..<nat w] s)))"
    unfolding w bind.bind_lunit by (rule blanks)
  then show ?thesis
    unfolding print_code_point_def Let_def
    by (intro term_ok_if) (simp, rule term_oks, rule assms)
qed

lemma putchar_byte_ok:
  assumes wf: "term_wf c"
  shows "case putchar_byte c b of None \<Rightarrow> sgr_fault c b | Some c' \<Rightarrow> term_wf c' \<and> \<not> sgr_fault c b"
proof -
  have u: "term_wf (c\<lparr>unicode_remaining := n, code_point := v\<rparr>)" if "n \<le> 3" for n v
    using term_wf_unicode [OF wf that] by simp
  have "term_ok (select_charset c b)" if "g_select c \<noteq> 0" by (rule term_oks) (use wf that in simp_all)
  moreover have "term_ok (control_or_print c b)" by (rule term_oks, rule wf)
  ultimately show ?thesis
    using escape_parse_ok [OF wf, of b] u
    by (auto simp: putchar_byte_def term_ok_def sgr_fault_def split: option.splits)
qed

lemma flanterm_putchar_ok:
  assumes wf: "term_wf c"
  shows "case flanterm_putchar c b of
      None \<Rightarrow> sgr_fault c b \<and> \<not> discard_next c
    | Some c' \<Rightarrow> term_wf c' \<and> \<not> (sgr_fault c b \<and> \<not> discard_next c)"
proof -
  have reset: "term_wf (c\<lparr>discard_next := False, escape := False, csi := False,
      control_sequence := False, unicode_remaining := 0, osc := False, osc_escape := False,
      g_select := 0\<rparr>)"
    using wf by (simp add: term_wf_def margins_wf_def palette_wf_def parser_wf_def)
  have r: "unicode_remaining c \<le> 3" using term_wfD(3) [OF wf] by (simp add: parser_wf_def)
  have u: "term_wf (c\<lparr>unicode_remaining := n, code_point := v\<rparr>)" if "n \<le> 3" for n v
    using term_wf_unicode [OF wf that] by simp
  have z: "case putchar_byte (c\<lparr>unicode_remaining := 0\<rparr>) b of
      None \<Rightarrow> sgr_fault c b | Some c' \<Rightarrow> term_wf c' \<and> \<not> sgr_fault c b"
    using putchar_byte_ok [OF term_wf_unicode [OF wf], of 0 b] by (simp split: option.splits)
  consider "discard_next c \<or> b = 0x18 \<or> b = 0x1a"
    | "\<not> (discard_next c \<or> b = 0x18 \<or> b = 0x1a)" "unicode_remaining c = 0 \<or> b AND 0xc0 \<noteq> 0x80"
    | "\<not> (discard_next c \<or> b = 0x18 \<or> b = 0x1a)" "unicode_remaining c \<noteq> 0" "b AND 0xc0 = 0x80"
    by blast
  then show ?thesis
  proof cases
    case 1
    then show ?thesis using reset by (auto simp: flanterm_putchar_def sgr_fault_def)
  next
    case 2
    then show ?thesis
      using z putchar_byte_ok [OF wf, of b] by (auto simp: flanterm_putchar_def split: option.splits)
  next
    case 3
    then have no: "\<not> sgr_fault c b" by (auto simp: sgr_fault_def)
    have "term_ok (flanterm_putchar c b)"
      using 3 r u [of "unicode_remaining c - 1"] term_ok_print_code_point [OF u [of 0]]
      by (simp add: flanterm_putchar_def Let_def)
    then show ?thesis using no by (auto simp: term_ok_def)
  qed
qed

end
