(* ===== verification/Flanterm_Stream.thy ===== *)
theory Flanterm_Stream
  imports Flanterm_Core
begin

text \<open>
  What streams of bytes do: the terminal as a state machine driven by bytes, its invariant over
  every run, UTF-8 decoding, plain text, and the parsing of control sequences back into the
  parameters they were printed from (\<open>flanterm_putchar\<close>, \<open>flanterm_write\<close> of
  \<open>kernel/flanterm/flanterm.c\<close>).
\<close>

section \<open>Runs\<close>

text \<open>
  The clients of a terminal (\<open>print.c\<close>, \<open>idt.c\<close>) send it bytes, flush it, move its
  cursor, set its colours and switch its cursor off. A run is a sequence of such calls;
  \<open>None\<close> is a run in which one of them leaves an array.
\<close>

datatype call = Byte u8 | Flush | Move nat nat | Colours u32 u32 | Cursor bool

primrec perform :: "call \<Rightarrow> ctx \<Rightarrow> ctx option" where
  "perform (Byte b) c = flanterm_putchar c b"
| "perform Flush c = flanterm_fb_double_buffer_flush c"
| "perform (Move x y) c = Some (flanterm_fb_set_cursor_pos c x y)"
| "perform (Colours f g) c = Some (flanterm_fb_set_text_bg_rgb (flanterm_fb_set_text_fg_rgb c f) g)"
| "perform (Cursor e) c = Some (c\<lparr>cursor_enabled := e\<rparr>)"

definition perform_all :: "call list \<Rightarrow> ctx \<Rightarrow> ctx option" where
  "perform_all calls c = ofold perform calls c"

lemma perform_all_simps [simp]:
  "perform_all [] c = Some c" "perform_all (a # calls) c = perform a c \<bind> perform_all calls"
  by (simp_all add: perform_all_def [abs_def])

text \<open>
  A byte that makes \<open>sgr\<close> read outside the colour table: the \<open>m\<close> of a control sequence
  that is not private, with a 256-colour index above 255 among its parameters.
\<close>

definition overruns :: "ctx \<Rightarrow> u8 \<Rightarrow> bool" where
  "overruns c b \<longleftrightarrow> b = 0x6d \<and> \<not> discard_next c \<and> escape c \<and> control_sequence c \<and> \<not> osc c \<and> \<not> dec_private c \<and>
     sgr_overrun (take (esc_values_i c + (if rrr c then 1 else 0)) (esc_values c))"

lemma overruns_iff: "overruns c b \<longleftrightarrow> sgr_fault c b \<and> \<not> discard_next c"
  by (auto simp: overruns_def sgr_fault_def pending_params_def)

lemma perform_ok:
  assumes "term_wf c"
  shows "case perform a c of None \<Rightarrow> \<exists>b. a = Byte b \<and> overruns c b
    | Some c' \<Rightarrow> term_wf c' \<and> (\<forall>b. a = Byte b \<longrightarrow> \<not> overruns c b)"
proof (cases a)
  case (Byte b)
  then show ?thesis using flanterm_putchar_ok [OF assms, of b] by (simp add: overruns_iff split: option.splits)
next
  case Flush
  then show ?thesis using fbt.flush [OF assms] by auto
qed (use assms in \<open>simp_all add: flanterm_fb_set_text_bg_rgb_def flanterm_fb_set_text_fg_rgb_def\<close>)

text \<open>A run that comes to such a byte.\<close>

definition faults_in :: "call list \<Rightarrow> ctx \<Rightarrow> bool" where
  "faults_in calls c \<longleftrightarrow>
     (\<exists>pre b post s. calls = pre @ Byte b # post \<and> perform_all pre c = Some s \<and> overruns s b)"

lemma faults_in_Nil [simp]: "\<not> faults_in [] c"
  by (simp add: faults_in_def)

lemma faults_in_Cons:
  "faults_in (a # calls) c \<longleftrightarrow>
    (\<exists>b. a = Byte b \<and> overruns c b) \<or> (\<exists>s. perform a c = Some s \<and> faults_in calls s)"
  (is "?l \<longleftrightarrow> ?r")
proof
  assume ?l
  then obtain pre b post s where f: "a # calls = pre @ Byte b # post" "perform_all pre c = Some s" "overruns s b"
    by (auto simp: faults_in_def)
  show ?r
  proof (cases pre)
    case (Cons a' pre')
    with f obtain y where "perform a c = Some y" "perform_all pre' y = Some s" "calls = pre' @ Byte b # post"
      by (auto simp: bind_eq_Some_conv)
    then show ?thesis using f(3) unfolding faults_in_def by blast
  qed (use f in auto)
next
  assume ?r
  then show ?l
  proof
    assume "\<exists>b. a = Byte b \<and> overruns c b"
    then show ?l unfolding faults_in_def by (intro exI [of _ "[]"]) auto
  next
    assume "\<exists>s. perform a c = Some s \<and> faults_in calls s"
    then obtain s pre b post t where "perform a c = Some s" "calls = pre @ Byte b # post"
      "perform_all pre s = Some t" "overruns t b" by (auto simp: faults_in_def)
    then show ?l unfolding faults_in_def by (intro exI [of _ "a # pre"]) auto
  qed
qed

lemma perform_all_ok:
  "term_wf c \<Longrightarrow> case perform_all calls c of None \<Rightarrow> faults_in calls c | Some c' \<Rightarrow> term_wf c' \<and> \<not> faults_in calls c"
proof (induction calls arbitrary: c)
  case (Cons a calls)
  show ?case
  proof (cases "perform a c")
    case None
    then show ?thesis using perform_ok [OF Cons.prems, of a] by (auto simp: faults_in_Cons)
  next
    case (Some s)
    then show ?thesis using perform_ok [OF Cons.prems, of a] Cons.IH [of s]
      by (auto simp: faults_in_Cons split: option.split)
  qed
qed simp

definition puts :: "u8 list \<Rightarrow> ctx \<Rightarrow> ctx option" where
  "puts bs c = ofold (\<lambda>b s. flanterm_putchar s b) bs c"

lemma puts_simps [simp]:
  "puts [] = Some" "puts (b # bs) c = flanterm_putchar c b \<bind> puts bs"
  by (rule ext, simp add: puts_def) (simp add: puts_def [abs_def])

lemma ofold_nil [simp]: "ofold f [] = Some"
  by (rule ext) simp

lemma puts_append: "puts (as @ bs) c = puts as c \<bind> puts bs"
  by (simp add: puts_def [abs_def] ofold_append)

lemma puts_safe:
  assumes "term_wf c" "0x6d \<notin> set bs"
  shows "term_ok (puts bs c)"
  using assms
proof (induction bs arbitrary: c)
  case (Cons b bs)
  from Cons.prems have "b \<noteq> 0x6d" by auto
  with flanterm_putchar_ok [OF Cons.prems(1), of b] obtain c' where
    "flanterm_putchar c b = Some c'" "term_wf c'" by (auto simp: sgr_fault_def split: option.splits)
  with Cons show ?case by simp
qed simp

section \<open>UTF-8\<close>

definition utf8_encode :: "nat \<Rightarrow> u8 list" where
  "utf8_encode n = map of_nat
     (if n < 0x80 then [n]
      else if n < 0x800 then [0xc0 + n div 64, 0x80 + n mod 64]
      else if n < 0x10000 then [0xe0 + n div 4096, 0x80 + n div 64 mod 64, 0x80 + n mod 64]
      else [0xf0 + n div 262144, 0x80 + n div 4096 mod 64, 0x80 + n div 64 mod 64,
            0x80 + n mod 64])"

lemma or_low: "j < 2 ^ n \<Longrightarrow> push_bit n k OR j = k * 2 ^ n + (j :: nat)"
proof -
  assume j: "j < 2 ^ n"
  have "\<not> bit j m" if "n \<le> m" for m
    using j that by (metis bit_take_bit_iff not_le take_bit_nat_eq_self_iff)
  then have "push_bit n k + j = push_bit n k OR j"
    by (intro disjunctive_add) (auto simp: bit_push_bit_iff)
  then show ?thesis by (simp add: push_bit_eq_mult)
qed

lemma byte_payload:
  assumes "k < 2 ^ m" "2 ^ m dvd b" "b + k < 256"
  shows "(of_nat (b + k) :: u8) AND mask m = of_nat k"
proof -
  have "take_bit m (b + k) = k"
    using assms by (auto simp: take_bit_eq_mod elim!: dvdE)
  then show ?thesis by (simp only: of_nat_take_bit take_bit_eq_mask [symmetric] flip: of_nat_take_bit)
qed

lemma byte_cast: "k < 256 \<Longrightarrow> ucast (of_nat k :: u8) = (of_nat k :: u64)"
  by (simp add: unsigned_of_nat take_bit_nat_eq_self)

text \<open>A continuation byte adds six bits below the ones that are there.\<close>

lemma continuation:
  assumes "\<not> discard_next c" "unicode_remaining c = Suc r" "j < 64"
    "code_point c = of_nat (a * 2 ^ (6 * Suc r))"
  shows "flanterm_putchar c (of_nat (0x80 + j)) =
    (let c' = c\<lparr>unicode_remaining := r, code_point := of_nat ((a * 64 + j) * 2 ^ (6 * r))\<rparr>
     in if r \<noteq> 0 then Some c' else print_code_point c')"
proof -
  let ?b = "of_nat (0x80 + j) :: u8"
  have u: "unat ?b = 0x80 + j" using assms(3) by (simp add: unat_of_nat take_bit_nat_eq_self del: of_nat_add)
  have ctl: "?b \<noteq> 0x18" "?b \<noteq> 0x1a" by (simp_all add: word_unat_eq_iff u del: of_nat_add)
  have low: "?b AND 0x3f = of_nat j"
    using byte_payload [of j 6 "0x80"] assms(3) by (simp add: mask_eq_exp_minus_1)
  have disjoint: "(v AND 0xc0) AND (v AND 0x3f) = 0" for v :: u8
  proof -
    have "(v AND 0xc0) AND (v AND 0x3f) = v AND (0xc0 AND 0x3f)"
      by (simp only: ac_simps and.left_idem)
    then show ?thesis by simp
  qed
  have "(?b AND 0xc0) + (?b AND 0x3f) = (?b AND 0xc0) OR (?b AND 0x3f)"
    by (rule disjunctive_add_eq_or) (simp only: disjoint)
  also have "\<dots> = ?b AND (0xc0 OR 0x3f)" by (simp only: bit.conj_disj_distrib)
  also have "\<dots> = take_bit 8 ?b" by (simp add: take_bit_eq_mask mask_eq_exp_minus_1)
  also have "\<dots> = ?b" by (rule take_bit_word_eq_self) simp
  finally have top2: "?b AND 0xc0 = 0x80" unfolding low by simp
  have "j * 2 ^ (6 * r) < 2 ^ (6 * Suc r)" using assms(3) by (simp add: power_add)
  then have n: "(a * 2 ^ (6 * Suc r)) OR (j * 2 ^ (6 * r)) = (a * 64 + j) * 2 ^ (6 * r)"
    using or_low [of "j * 2 ^ (6 * r)" "6 * Suc r" a] by (simp add: push_bit_eq_mult power_add algebra_simps)
  have p: "push_bit (6 * r) (of_nat j :: u64) = of_nat (j * 2 ^ (6 * r))"
    by (simp add: push_bit_eq_mult)
  have "(of_nat (a * 2 ^ (6 * Suc r)) :: u64) OR push_bit (6 * r) (of_nat j)
      = of_nat ((a * 64 + j) * 2 ^ (6 * r))"
    unfolding p of_nat_or_eq [symmetric] n ..
  then show ?thesis
    using assms ctl top2 low byte_cast [of j]
    by (cases r) (simp_all add: flanterm_putchar_def Let_def)
qed

text \<open>The three kinds of first byte.\<close>

lemma lead:
  assumes "\<not> discard_next c" "unicode_remaining c = 0"
  shows "k < 32 \<Longrightarrow> flanterm_putchar c (of_nat (0xc0 + k)) =
      Some (c\<lparr>unicode_remaining := 1, code_point := of_nat (k * 2 ^ 6)\<rparr>)"
    "k < 16 \<Longrightarrow> flanterm_putchar c (of_nat (0xe0 + k)) =
      Some (c\<lparr>unicode_remaining := 2, code_point := of_nat (k * 2 ^ 12)\<rparr>)"
    "k < 8 \<Longrightarrow> flanterm_putchar c (of_nat (0xf0 + k)) =
      Some (c\<lparr>unicode_remaining := 3, code_point := of_nat (k * 2 ^ 18)\<rparr>)"
proof -
  have u: "unat (of_nat (b + k) :: u8) = b + k" if "b + k < 256" for b k
    using that by (simp add: unat_of_nat take_bit_nat_eq_self del: of_nat_add)
  have p: "push_bit m (of_nat k :: u64) = of_nat (k * 2 ^ m)" for m
    by (simp add: push_bit_eq_mult)
  have m: "(0x1f :: u8) = mask 5" "(0x0f :: u8) = mask 4" "(0x07 :: u8) = mask 3"
    by (simp_all add: mask_eq_exp_minus_1)
  have ne: "of_nat (b + k) \<noteq> (0x18 :: u8)" "of_nat (b + k) \<noteq> (0x1a :: u8)"
    if "192 \<le> b" "b + k < 256" for b k
    using that(1) by (simp_all add: word_unat_eq_iff u [OF that(2)] del: of_nat_add)
  note defs = flanterm_putchar_def putchar_byte_def word_le_nat_alt
  show "flanterm_putchar c (of_nat (0xc0 + k)) =
      Some (c\<lparr>unicode_remaining := 1, code_point := of_nat (k * 2 ^ 6)\<rparr>)" if "k < 32"
    using assms that u [of "0xc0" k] ne [of "0xc0" k] byte_payload [of k 5 "0xc0"] p [of 6] byte_cast [of k]
    unfolding defs m by (simp del: of_nat_add)
  show "flanterm_putchar c (of_nat (0xe0 + k)) =
      Some (c\<lparr>unicode_remaining := 2, code_point := of_nat (k * 2 ^ 12)\<rparr>)" if "k < 16"
    using assms that u [of "0xe0" k] ne [of "0xe0" k] byte_payload [of k 4 "0xe0"] p [of 12] byte_cast [of k]
    unfolding defs m by (simp del: of_nat_add)
  show "flanterm_putchar c (of_nat (0xf0 + k)) =
      Some (c\<lparr>unicode_remaining := 3, code_point := of_nat (k * 2 ^ 18)\<rparr>)" if "k < 8"
    using assms that u [of "0xf0" k] ne [of "0xf0" k] byte_payload [of k 3 "0xf0"] p [of 18] byte_cast [of k]
    unfolding defs m by (simp del: of_nat_add)
qed

lemma utf8_decode:
  assumes "\<not> discard_next c" "unicode_remaining c = 0" "0x80 \<le> n" "n < 0x200000"
  shows "puts (utf8_encode n) c = print_code_point (c\<lparr>unicode_remaining := 0, code_point := of_nat n\<rparr>)"
proof -
  have d: "n div 64 = n div 4096 * 64 + n div 64 mod 64"
    "n div 4096 = n div 262144 * 64 + n div 4096 mod 64" "n = n div 64 * 64 + n mod 64"
    by (simp_all add: div_mult2_eq [of n 64 64, simplified] div_mult2_eq [of n 4096 64, simplified])
  consider "n < 0x800" | "0x800 \<le> n" "n < 0x10000" | "0x10000 \<le> n" by linarith
  then show ?thesis
  proof cases
    case 1
    then have "utf8_encode n = [of_nat (0xc0 + n div 64), of_nat (0x80 + n mod 64)]"
      using assms by (simp add: utf8_encode_def)
    moreover have "n div 64 < 32" using 1 by simp
    ultimately show ?thesis
      using assms d(3) continuation [of "c\<lparr>unicode_remaining := 1, code_point := of_nat (n div 64 * 2 ^ 6)\<rparr>" 0 "n mod 64" "n div 64"]
      by (simp add: lead(1) Let_def del: of_nat_add)
  next
    case 2
    let ?c1 = "c\<lparr>unicode_remaining := 2, code_point := of_nat (n div 4096 * 2 ^ 12)\<rparr>"
    let ?c2 = "c\<lparr>unicode_remaining := 1, code_point := of_nat (n div 64 * 2 ^ 6)\<rparr>"
    have e: "utf8_encode n = [of_nat (0xe0 + n div 4096), of_nat (0x80 + n div 64 mod 64), of_nat (0x80 + n mod 64)]"
      using assms 2 by (simp add: utf8_encode_def)
    have "n div 4096 < 16" using 2 by simp
    then have 1: "flanterm_putchar c (of_nat (0xe0 + n div 4096)) = Some ?c1"
      using lead(2) [OF assms(1,2)] by simp
    have 2: "flanterm_putchar ?c1 (of_nat (0x80 + n div 64 mod 64)) = Some ?c2"
      using assms d(1) continuation [of ?c1 1 "n div 64 mod 64" "n div 4096"] by (simp del: of_nat_add)
    show ?thesis
      using assms d(3) continuation [of ?c2 0 "n mod 64" "n div 64"] unfolding e puts_simps 1 2 bind.bind_lunit
      by (simp add: Let_def del: of_nat_add)
  next
    case 3
    let ?c1 = "c\<lparr>unicode_remaining := 3, code_point := of_nat (n div 262144 * 2 ^ 18)\<rparr>"
    let ?c2 = "c\<lparr>unicode_remaining := 2, code_point := of_nat (n div 4096 * 2 ^ 12)\<rparr>"
    let ?c3 = "c\<lparr>unicode_remaining := 1, code_point := of_nat (n div 64 * 2 ^ 6)\<rparr>"
    have e: "utf8_encode n = [of_nat (0xf0 + n div 262144), of_nat (0x80 + n div 4096 mod 64),
        of_nat (0x80 + n div 64 mod 64), of_nat (0x80 + n mod 64)]"
      using assms 3 by (simp add: utf8_encode_def)
    have "n div 262144 < 8" using assms by simp
    then have 1: "flanterm_putchar c (of_nat (0xf0 + n div 262144)) = Some ?c1"
      using lead(3) [OF assms(1,2)] by simp
    have 2: "flanterm_putchar ?c1 (of_nat (0x80 + n div 4096 mod 64)) = Some ?c2"
      using assms d(2) continuation [of ?c1 2 "n div 4096 mod 64" "n div 262144"] by (simp del: of_nat_add)
    have 3: "flanterm_putchar ?c2 (of_nat (0x80 + n div 64 mod 64)) = Some ?c3"
      using assms d(1) continuation [of ?c2 1 "n div 64 mod 64" "n div 4096"] by (simp del: of_nat_add)
    show ?thesis
      using assms d(3) continuation [of ?c3 0 "n mod 64" "n div 64"] unfolding e puts_simps 1 2 3 bind.bind_lunit
      by (simp add: Let_def del: of_nat_add)
  qed
qed

section \<open>Plain text\<close>

text \<open>No escape sequence, UTF-8 sequence or insert mode, and the ASCII character set.\<close>

definition text_mode :: "ctx \<Rightarrow> bool" where
  "text_mode c \<longleftrightarrow> \<not> discard_next c \<and> unicode_remaining c = 0 \<and> \<not> escape c \<and> g_select c = 0 \<and>
     \<not> insert_mode c \<and> charsets c ! current_charset c = 0"

definition printable :: "u8 \<Rightarrow> bool" where
  "printable b \<longleftrightarrow> 0x20 \<le> b \<and> b \<le> 0x7e"

lemma text_mode_cframe: "cframe c c' \<Longrightarrow> text_mode c' = text_mode c"
  by (rule cframe_sel) (simp_all add: text_mode_def forget_cursor_def forget_queue_def)

lemma printable_ne:
  assumes "printable b"
  shows "b \<notin> {0x18, 0x1a, 0, 0x7f, 0x9b, 0x1b, 9, 0xb, 0xc, 0xa, 8, 0xd, 7, 14, 15}" "b < 0xc0"
  using assms by (auto simp: printable_def word_le_nat_alt word_less_nat_alt)

lemma not_lead: "b < (0xc0 :: u8) \<Longrightarrow> \<not> 0xc0 \<le> b \<and> \<not> 0xe0 \<le> b \<and> \<not> 0xf0 \<le> b"
  by (auto simp: word_le_nat_alt word_less_nat_alt)

lemma putchar_plain:
  assumes "parser_wf c" "text_mode c" "printable b"
  shows "flanterm_putchar c b = flanterm_fb_raw_putchar c b"
proof -
  have "aget (charsets c) (current_charset c) = Some 0"
    using assms(1,2) by (simp add: text_mode_def parser_wf_def)
  then show ?thesis
    using assms(2,3) printable_ne(1) [OF assms(3)] not_lead [OF printable_ne(2) [OF assms(3)]]
    by (simp add: flanterm_putchar_def putchar_byte_def control_or_print_def print_char_def
        text_mode_def printable_def case_prod_unfold)
qed

lemma putchar_text:
  "term_wf c \<Longrightarrow> text_mode c \<Longrightarrow> printable b \<Longrightarrow> flanterm_putchar c b = flanterm_fb_raw_putchar c b"
  by (rule putchar_plain [OF term_wfD(3)])

lemma puts_text:
  assumes "term_wf c" "text_mode c" "\<forall>b \<in> set bs. printable b"
  shows "puts bs c = ofold (\<lambda>b s. flanterm_fb_raw_putchar s b) bs c"
    "\<exists>c'. puts bs c = Some c' \<and> term_wf c' \<and> cframe c c'"
  using assms
proof (induction bs arbitrary: c)
  case (Cons b bs)
  {
    case 1
    from fbt.put [OF 1(1), of b] obtain s where
      s: "flanterm_fb_raw_putchar c b = Some s" "term_wf s" "cframe c s" by blast
    have "text_mode s" using text_mode_cframe [OF s(3)] 1(2) by simp
    then show ?case using Cons.IH(1) [OF s(2)] 1 s(1) by (simp add: putchar_text)
  next
    case 2
    from fbt.put [OF 2(1), of b] obtain s where
      s: "flanterm_fb_raw_putchar c b = Some s" "term_wf s" "cframe c s" by blast
    have "text_mode s" using text_mode_cframe [OF s(3)] 2(2) by simp
    then obtain c' where "puts bs s = Some c'" "term_wf c'" "cframe s c'"
      using Cons.IH(2) [OF s(2)] 2(3) by auto
    then show ?case using 2 s by (auto simp: putchar_text intro: cframe_trans)
  }
qed simp_all

text \<open>The flush at the end of a write.\<close>

lemma write_flushes:
  assumes "puts bs c = Some s" "term_wf s" "autoflush s"
  shows "\<exists>c'. flanterm_write c bs = Some c' \<and> term_wf c' \<and> dframe s c' \<and> screen c' = screen s \<and>
     flushed c' \<and> (\<forall>x < cols c'. \<forall>y < rows c'. displays c' (cell_shown c' x y) x y)"
proof -
  from flush_ok [OF term_wfD(1) [OF assms(2)]] obtain c' where
    c': "flanterm_fb_double_buffer_flush s = Some c'" "drawn c'" "screen c' = screen s"
    "queue_i c' = 0" "dframe s c'" "\<forall>x < cols s. \<forall>y < rows s. displays c' (cell_shown s x y) x y"
    "old_cursor_x c' = cursor_x s" "old_cursor_y c' = cursor_y s" by blast
  moreover have "cell_shown c' x y = cell_shown s x y" for x y
    using c'(3) dframe_geom [OF c'(5)] by (simp add: cell_shown_def)
  moreover have "flanterm_write c bs = Some c'"
    using assms(1,3) c'(1) by (simp add: flanterm_write_def puts_def)
  ultimately show ?thesis
    using term_wf_dframe [OF assms(2) c'(5,2)] dframe_geom [OF c'(5)] c'(7,8) by (auto simp: flushed_def)
qed

section \<open>Control sequences\<close>

text \<open>
  The sequences a program sends: \<open>ESC [\<close>, decimal parameters separated by semicolons, a final
  byte.
\<close>

fun dec_digits :: "nat \<Rightarrow> u8 list" where
  "dec_digits n = (if n < 10 then [] else dec_digits (n div 10)) @ [of_nat (0x30 + n mod 10)]"

declare dec_digits.simps [simp del]

fun csi_params :: "nat list \<Rightarrow> u8 list" where
  "csi_params [] = []"
| "csi_params [n] = dec_digits n"
| "csi_params (n # m # ns) = dec_digits n @ 0x3b # csi_params (m # ns)"

definition csi_bytes :: "nat list \<Rightarrow> u8 \<Rightarrow> u8 list" where
  "csi_bytes ns f = [0x1b, 0x5b] @ csi_params ns @ [f]"

text \<open>The context while a sequence is read: \<open>k\<close> values are complete, \<open>r\<close> is \<open>rrr\<close>.\<close>

definition in_csi :: "ctx \<Rightarrow> nat \<Rightarrow> nat \<Rightarrow> u32 list \<Rightarrow> bool \<Rightarrow> ctx" where
  "in_csi c off k vs r = c\<lparr>escape := True, control_sequence := True, esc_values := vs,
     esc_values_i := k, rrr := r, escape_offset := off\<rparr>"

definition ground :: "ctx \<Rightarrow> bool" where
  "ground c \<longleftrightarrow> \<not> discard_next c \<and> unicode_remaining c = 0 \<and> \<not> escape c \<and> \<not> csi c \<and>
     \<not> control_sequence c \<and> \<not> osc c \<and> g_select c = 0"

lemma in_csi_byte:
  assumes "ground c" "b \<noteq> 0x18" "b \<noteq> 0x1a" "b < 0xc0" "Suc off < SZ"
  shows "flanterm_putchar (in_csi c off k vs r) b = control_sequence_parse (in_csi c (Suc off) k vs r) b"
  using assms not_lead [OF assms(4)]
  by (simp add: flanterm_putchar_def putchar_byte_def escape_parse_def in_csi_def ground_def sz_simps
      Let_def)

lemma in_csi_sel [simp]:
  "escape_offset (in_csi c off k vs r) = off" "esc_values_i (in_csi c off k vs r) = k"
  "rrr (in_csi c off k vs r) = r" "esc_values (in_csi c off k vs r) = vs"
  by (simp_all add: in_csi_def)

lemma in_csi_next: "(in_csi c off k vs r)\<lparr>esc_values_i := k', rrr := r'\<rparr> = in_csi c off k' vs r'"
  by (rule flanterm_fb_context.equality) (simp_all add: in_csi_def)

lemma in_csi_digit:
  assumes "ground c" "d < 10" "k < 16" "length vs = 16" "Suc off < SZ"
  shows "flanterm_putchar (in_csi c off k vs r) (of_nat (0x30 + d)) =
    Some (in_csi c (Suc off) k (vs[k := vs ! k * 10 + of_nat d]) True)"
proof -
  let ?b = "of_nat (0x30 + d) :: u8"
  have u: "unat ?b = 0x30 + d" using assms(2) by (simp add: unat_of_nat take_bit_nat_eq_self del: of_nat_add)
  have b: "?b \<noteq> 0x18" "?b \<noteq> 0x1a" "?b < 0xc0" "?b \<noteq> 0x5b" "?b \<noteq> 0x3f" "0x30 \<le> ?b" "?b \<le> 0x39"
    using assms(2) by (simp_all add: word_unat_eq_iff word_less_nat_alt word_le_nat_alt u del: of_nat_add)
  have v: "ucast (?b - 0x30) = (of_nat d :: u32)"
    using assms(2) by (simp add: unsigned_of_nat take_bit_nat_eq_self)
  show ?thesis
    unfolding in_csi_byte [OF assms(1) b(1-3) assms(5)]
    using assms b(4-7) v
    by (simp add: control_sequence_parse_def in_csi_def put_arg_in del: of_nat_add)
qed

lemma in_csi_digits:
  assumes "ground c" "k < 16" "length vs = 16" "vs ! k = 0" "off + length (dec_digits n) < SZ"
  shows "puts (dec_digits n) (in_csi c off k vs r) =
    Some (in_csi c (off + length (dec_digits n)) k (vs[k := of_nat n]) True)"
  using assms(5)
proof (induction n arbitrary: r rule: less_induct)
  case (less n)
  have last: "flanterm_putchar (in_csi c off' k vs' r') (of_nat (0x30 + n mod 10)) =
      Some (in_csi c (Suc off') k (vs'[k := vs' ! k * 10 + of_nat (n mod 10)]) True)"
    if "length vs' = 16" "Suc off' < SZ" for off' vs' r'
    using that by (intro in_csi_digit) (simp_all add: assms)
  show ?case
  proof (cases "n < 10")
    case True
    then show ?thesis
      using last [OF assms(3), of off r] less.prems assms(4) by (simp add: dec_digits.simps [of n] del: of_nat_add)
  next
    case False
    then have d: "dec_digits n = dec_digits (n div 10) @ [of_nat (0x30 + n mod 10)]"
      by (simp add: dec_digits.simps [of n])
    have "(of_nat (n div 10) * 10 + of_nat (n mod 10) :: u32) = of_nat (n div 10 * 10 + n mod 10)"
      by (simp only: of_nat_add of_nat_mult of_nat_numeral)
    then have v: "(of_nat (n div 10) * 10 + of_nat (n mod 10) :: u32) = of_nat n" by simp
    have "puts (dec_digits (n div 10)) (in_csi c off k vs r) =
        Some (in_csi c (off + length (dec_digits (n div 10))) k (vs[k := of_nat (n div 10)]) True)"
      by (rule less.IH) (use False less.prems in \<open>simp_all add: d\<close>)
    then show ?thesis
      using last [of "vs[k := of_nat (n div 10)]" "off + length (dec_digits (n div 10))" True]
        less.prems assms(2,3) v
      by (simp add: d puts_append del: of_nat_add)
  qed
qed

lemma in_csi_separator:
  assumes "ground c" "k < 16" "1 < off" "Suc off < SZ"
  shows "flanterm_putchar (in_csi c off k vs True) 0x3b = Some (in_csi c (Suc off) (Suc k) vs False)"
proof -
  have "sz_add k 1 = Suc k" using assms(2) by (simp add: sz_simps SZ_def)
  then show ?thesis
    using assms by (subst in_csi_byte) (simp_all add: control_sequence_parse_def in_csi_def)
qed

lemma dec_digits_nonempty: "0 < length (dec_digits n)"
  by (subst dec_digits.simps) simp

lemma update_zeros:
  "length done + Suc m = 16 \<Longrightarrow> (done @ replicate (Suc m) 0)[length done := v] = (done @ [v]) @ replicate m (0 :: u32)"
  by simp

lemma in_csi_params:
  assumes "ground c" "ns \<noteq> []" "length done + length ns \<le> 16" "0 < off"
    "off + length (csi_params ns) < SZ"
  shows "puts (csi_params ns) (in_csi c off (length done) (done @ replicate (16 - length done) 0) r) =
    Some (in_csi c (off + length (csi_params ns)) (length done + length ns - 1)
      (done @ map of_nat ns @ replicate (16 - length done - length ns) 0) True)"
  using assms(2-5)
proof (induction ns arbitrary: "done" off r rule: csi_params.induct)
  case (2 n)
  obtain m where m: "16 - length done = Suc m" using 2 by (cases "16 - length done") auto
  then show ?case
    using 2 in_csi_digits [OF assms(1), of "length done" "done @ replicate (16 - length done) 0" off n r]
    by (simp add: nth_append)
next
  case (3 n k ns)
  obtain m where m: "16 - length done = Suc m" using 3 by (cases "16 - length done") auto
  let ?off = "off + length (dec_digits n)"
  have m': "m = 15 - length done" using m by simp
  have gt: "1 < ?off" using "3.prems" dec_digits_nonempty [of n] by linarith
  have "puts (dec_digits n) (in_csi c off (length done) (done @ replicate (16 - length done) 0) r) =
      Some (in_csi c ?off (length done) (done @ of_nat n # replicate m 0) True)"
    using 3 m in_csi_digits [OF assms(1), of "length done" "done @ replicate (16 - length done) 0" off n r]
    by (simp add: nth_append)
  moreover have "flanterm_putchar (in_csi c ?off (length done) (done @ of_nat n # replicate m 0) True) 0x3b =
      Some (in_csi c (Suc ?off) (Suc (length done)) (done @ of_nat n # replicate m 0) False)"
    using "3.prems" by (intro in_csi_separator assms gt) auto
  ultimately show ?case
    using 3 m' "3.IH" [of "done @ [of_nat n]" "Suc ?off" False] by (simp add: puts_append add.assoc)
qed simp

text \<open>The final byte of a sequence.\<close>

definition final_byte :: "u8 \<Rightarrow> bool" where
  "final_byte f \<longleftrightarrow> 0x40 \<le> f \<and> f \<le> 0x7e \<and> f \<noteq> 0x5b"

lemma final_byte_ne:
  assumes "final_byte f"
  shows "f \<noteq> 0x18" "f \<noteq> 0x1a" "f < 0xc0" "f \<noteq> 0x3f" "f \<noteq> 0x3b" "\<not> f \<le> 0x39" "f \<noteq> 0x5b"
  using assms by (auto simp: final_byte_def word_le_nat_alt word_less_nat_alt)

lemma in_csi_final:
  assumes "ground c" "final_byte f" "Suc off < SZ" "k \<le> 16" "r \<longrightarrow> k < 16"
  shows "flanterm_putchar (in_csi c off k vs r) f =
    csi_execute (in_csi c (Suc off) (if r then Suc k else k) vs False) f"
proof -
  note f = final_byte_ne [OF assms(2)]
  have "sz_add k 1 = Suc k" using assms(4) by (simp add: sz_simps SZ_def)
  then show ?thesis
    unfolding in_csi_byte [OF assms(1) f(1-3) assms(3)]
    using f by (simp add: control_sequence_parse_def in_csi_next)
qed

lemma enter_csi_bytes:
  assumes "term_wf c" "ground c"
  shows "puts [0x1b, 0x5b] c = Some (in_csi c 1 0 (replicate 16 0) False)"
proof -
  let ?c = "c\<lparr>escape_offset := 0, escape := True\<rparr>"
  have 1: "flanterm_putchar c 0x1b = Some ?c"
    using assms(2) by (simp add: flanterm_putchar_def putchar_byte_def control_or_print_def
        ground_def case_prod_unfold)
  have "enter_csi (?c\<lparr>escape_offset := 1\<rparr>) = Some (in_csi c 1 0 (replicate 16 0) False)"
    using term_wf_enter_csi(1) [of "?c\<lparr>escape_offset := 1\<rparr>"] assms(1)
    by (simp add: in_csi_def)
  then have "flanterm_putchar ?c 0x5b = Some (in_csi c 1 0 (replicate 16 0) False)"
    using assms(2) by (simp add: flanterm_putchar_def putchar_byte_def escape_parse_def
        ground_def case_prod_unfold Let_def sz_add_def SZ_def)
  with 1 show ?thesis by simp
qed

lemma csi_bytes_run:
  assumes "term_wf c" "ground c" "length ns \<le> 16" "length (csi_params ns) < 2 ^ 31" "final_byte f"
  shows "puts (csi_bytes ns f) c = csi_execute (in_csi c (2 + length (csi_params ns)) (length ns)
      (map of_nat ns @ replicate (16 - length ns) 0) False) f"
proof -
  have sz: "Suc (1 + length (csi_params ns)) < SZ" using assms(4) by (simp add: SZ_def)
  have "puts (csi_bytes ns f) c =
      puts (csi_params ns) (in_csi c 1 0 (replicate 16 0) False) \<bind> puts [f]"
    unfolding csi_bytes_def puts_append enter_csi_bytes [OF assms(1,2)] by simp
  also have "\<dots> = csi_execute (in_csi c (2 + length (csi_params ns)) (length ns)
      (map of_nat ns @ replicate (16 - length ns) 0) False) f"
  proof (cases "ns = []")
    case True
    moreover have "Suc 1 < SZ" by (simp add: SZ_def)
    ultimately show ?thesis
      using in_csi_final [OF assms(2,5), of 1 0 False] by (simp add: numeral_2_eq_2)
  next
    case False
    have "puts (csi_params ns) (in_csi c 1 0 (replicate 16 0) False) =
        Some (in_csi c (1 + length (csi_params ns)) (length ns - 1)
          (map of_nat ns @ replicate (16 - length ns) 0) True)"
      using in_csi_params [OF assms(2) False, of "[]" 1 False] assms(3) sz by simp
    then show ?thesis
      using False assms(3) in_csi_final [OF assms(2,5) sz, of "length ns - 1" True] by simp
  qed
  finally show ?thesis .
qed

text \<open>The length of a printed parameter, so that the bound above holds for machine integers.\<close>

lemma dec_digits_length: "n < 10 ^ Suc k \<Longrightarrow> length (dec_digits n) \<le> Suc k"
proof (induction k arbitrary: n)
  case (Suc k)
  then have "n div 10 < 10 ^ Suc k" by (simp add: less_mult_imp_div_less mult.commute)
  with Suc.IH [of "n div 10"] show ?case by (subst dec_digits.simps) simp
qed (subst dec_digits.simps, simp)

lemma csi_params_length:
  "\<forall>n \<in> set ns. n < 2 ^ 32 \<Longrightarrow> length (csi_params ns) \<le> 11 * length ns"
proof (induction ns rule: csi_params.induct)
  case (2 n)
  then show ?case using dec_digits_length [of n 9] by simp
next
  case (3 n m ns)
  then show ?case using dec_digits_length [of n 9] by simp
qed simp

lemma term_wf_in_csi:
  "term_wf c \<Longrightarrow> length vs = 16 \<Longrightarrow> k \<le> 16 \<Longrightarrow> term_wf (in_csi c off k vs False)"
  by (simp add: in_csi_def term_wf_def margins_wf_def palette_wf_def parser_wf_def)

text \<open>How a complete sequence is executed: defaults, dispatch, clean-up.\<close>

lemma csi_execute_run:
  assumes "term_wf c" "\<not> dec_private c" "length ns \<le> 16"
  shows "csi_execute (in_csi c off (length ns) (map of_nat ns @ replicate (16 - length ns) 0) False) f =
    (let d = (if f = 0x4a \<or> f = 0x4b \<or> f = 0x71 then 0 else 1);
         s = (in_csi c off (length ns) (map of_nat ns @ replicate (16 - length ns) d) False)
               \<lparr>scroll_enabled := False\<rparr>;
         (x, y) = flanterm_fb_get_cursor_pos c
     in map_option (\<lambda>c'. csi_cleanup (c'\<lparr>scroll_enabled := scroll_enabled c\<rparr>)) (csi_dispatch s f x y))"
proof -
  let ?c = "in_csi c off (length ns) (map of_nat ns @ replicate (16 - length ns) 0) False"
  define d :: u32 where "d = (if f = 0x4a \<or> f = 0x4b \<or> f = 0x71 then 0 else 1)"
  have "ofold (\<lambda>i s. put_arg True s i d) [length ns..<16] ?c
      = Some (in_csi c off (length ns) (map of_nat ns @ replicate (16 - length ns) d) False)"
    using assms(3) by (subst fill_defaults) (auto simp: in_csi_def intro: flanterm_fb_context.equality)
  moreover have "flanterm_fb_get_cursor_pos ((in_csi c off n vs False)\<lparr>scroll_enabled := b\<rparr>)
      = flanterm_fb_get_cursor_pos c" for n vs b
    by (simp add: flanterm_fb_get_cursor_pos_def in_csi_def)
  moreover have "\<not> dec_private (in_csi c off n vs False)" "scroll_enabled (in_csi c off n vs False) = scroll_enabled c"
    for n vs using assms(2) by (simp_all add: in_csi_def)
  ultimately show ?thesis
    by (cases "flanterm_fb_get_cursor_pos c")
      (simp add: csi_execute_def d_def Let_def map_option_case split: option.splits)
qed

text \<open>The context a command is dispatched in, and what a whole sequence does.\<close>

definition csi_ready :: "ctx \<Rightarrow> nat list \<Rightarrow> u32 \<Rightarrow> ctx" where
  "csi_ready c ns d = (in_csi c (2 + length (csi_params ns)) (length ns)
     (map of_nat ns @ replicate (16 - length ns) d) False)\<lparr>scroll_enabled := False\<rparr>"

lemma csi_ready_sel [simp]:
  "esc_values (csi_ready c ns d) = map of_nat ns @ replicate (16 - length ns) d"
  "rows (csi_ready c ns d) = rows c" "cols (csi_ready c ns d) = cols c"
  "screen (csi_ready c ns d) = screen c" "esc_values_i (csi_ready c ns d) = length ns"
  "cursor_x (csi_ready c ns d) = cursor_x c" "cursor_y (csi_ready c ns d) = cursor_y c"
  by (simp_all add: csi_ready_def) (simp_all add: in_csi_def)

lemma term_wf_csi_ready: "term_wf c \<Longrightarrow> length ns \<le> 16 \<Longrightarrow> term_wf (csi_ready c ns d)"
  by (simp add: csi_ready_def term_wf_in_csi)

lemma csi_run:
  assumes "term_wf c" "ground c" "\<not> dec_private c" "length ns \<le> 16" "\<forall>n \<in> set ns. n < 2 ^ 32" "final_byte f"
    and "flanterm_fb_get_cursor_pos c = (x, y)"
    and "csi_dispatch (csi_ready c ns (if f = 0x4a \<or> f = 0x4b \<or> f = 0x71 then 0 else 1)) f x y = Some c'"
  shows "puts (csi_bytes ns f) c = Some (csi_cleanup (c'\<lparr>scroll_enabled := scroll_enabled c\<rparr>))"
proof -
  have "length (csi_params ns) < 2 ^ 31" using csi_params_length [OF assms(5)] assms(4) by simp
  from csi_bytes_run [OF assms(1,2,4) this assms(6)] csi_execute_run [OF assms(1,3,4)] assms(7,8)
  show ?thesis by (simp add: csi_ready_def Let_def)
qed

lemma ground_cleanup:
  "ground c \<Longrightarrow> ground (csi_cleanup ((csi_ready c ns d)\<lparr>esc_values := vs, cursor_x := x, cursor_y := y,
     scroll_enabled := b\<rparr>))"
  by (simp add: csi_cleanup_def csi_ready_def in_csi_def ground_def)

lemma cup_run:
  assumes wf: "term_wf c" and g: "ground c" and p: "\<not> dec_private c" and n: "r < 2 ^ 32" "k < 2 ^ 32"
  shows "\<exists>c'. puts (csi_bytes [r, k] 0x48) c = Some c' \<and> term_wf c' \<and> ground c' \<and>
     screen c' = screen c \<and> cursor_x c' = min (k - 1) (cols c - 1) \<and>
     cursor_y c' = min (r - 1) (rows c - 1)"
proof -
  let ?s = "csi_ready c [r, k] 1"
  have wfs: "term_wf ?s" using term_wf_csi_ready [OF wf] by simp
  have sel: "unat (esc_values ?s ! 1) = k" "unat (esc_values ?s ! 0) = r" "cols ?s = cols c" "rows ?s = rows c"
    using n by (simp_all add: unat_small)
  from csi_position_eq [OF wfs] obtain vs where
    vs: "csi_position ?s = Some (?s\<lparr>esc_values := vs, cursor_x := min (k - 1) (cols c - 1),
      cursor_y := min (r - 1) (rows c - 1)\<rparr>)"
    unfolding sel by blast
  let ?c = "?s\<lparr>esc_values := vs, cursor_x := min (k - 1) (cols c - 1), cursor_y := min (r - 1) (rows c - 1)\<rparr>"
  have wfc: "term_wf ?c" using term_ok_cursor_commands(5) [OF wfs] vs by simp
  obtain x y where xy: "flanterm_fb_get_cursor_pos c = (x, y)" by fastforce
  have fb: "final_byte 0x48" by (simp add: final_byte_def)
  have d: "csi_dispatch ?s 0x48 x y = Some ?c" using vs by (simp add: csi_dispatch_def)
  have "puts (csi_bytes [r, k] 0x48) c = Some (csi_cleanup (?c\<lparr>scroll_enabled := scroll_enabled c\<rparr>))"
    by (rule csi_run [OF wf g p _ _ fb xy]) (use d n in simp_all)
  then show ?thesis
    using wfc ground_cleanup [OF g] by (simp add: csi_cleanup_def)
qed

section \<open>Properties\<close>

text \<open>
  C7: one byte. From a well-formed terminal, \<open>flanterm_putchar\<close> stays inside every array and
  leaves a well-formed terminal, with one exception: it reads outside the 256-colour table
  exactly when the byte is the \<open>m\<close> that ends a colour sequence with a 256-colour index
  above 255.
\<close>

theorem putchar_safe:
  assumes "term_wf c"
  shows "(flanterm_putchar c b = None \<longleftrightarrow>
       b = 0x6d \<and> \<not> discard_next c \<and> escape c \<and> control_sequence c \<and> \<not> osc c \<and> \<not> dec_private c \<and>
       sgr_overrun (take (esc_values_i c + (if rrr c then 1 else 0)) (esc_values c))) \<and>
     (\<forall>c'. flanterm_putchar c b = Some c' \<longrightarrow> term_wf c')"
  using flanterm_putchar_ok [OF assms, of b]
  unfolding sgr_fault_def pending_params_def by (cases "flanterm_putchar c b") auto

theorem putchar_safe_witness:
  "flanterm_putchar ((sample_sgr [38, 5, 256])\<lparr>escape := True, control_sequence := True\<rparr>) 0x6d = None"
proof -
  let ?c = "(sample_sgr [38, 5, 256])\<lparr>escape := True, control_sequence := True\<rparr>"
  have "term_wf ?c" using term_wf_sample_sgr by simp
  moreover have "\<not> discard_next ?c" "\<not> osc ?c" "\<not> dec_private ?c" "\<not> rrr ?c"
    by (simp_all add: sample_sgr_def sample_ctx_def)
  ultimately show ?thesis using putchar_safe [of ?c "0x6d"] by simp
qed

text \<open>
  C6: every run. Take any sequence of calls, bytes mixed with what the clients do in between (flush,
  move the cursor, set colours, hide the cursor), from any well-formed terminal. Either all of
  them stay inside every array and the terminal is well-formed at the end: the scroll region is not
  empty and on the screen, the parser registers are inside their arrays, the pending queue is not over
  full, and a flush shows the logical screen in the frame buffer. Or the run stops, and that happens
  exactly when one of its bytes is an \<open>m\<close> that ends a colour sequence with a 256-colour index
  above 255. In particular a run without the byte \<open>m\<close> never stops.
\<close>

theorem all_runs_safe:
  assumes "term_wf c"
  shows "(perform_all calls c = None \<longleftrightarrow>
       (\<exists>pre b post s. calls = pre @ Byte b # post \<and> perform_all pre c = Some s \<and> overruns s b)) \<and>
     (\<forall>s. perform_all calls c = Some s \<longrightarrow> term_wf s \<and>
        scroll_top_margin s < scroll_bottom_margin s \<and> scroll_bottom_margin s \<le> rows s \<and>
        esc_values_i s \<le> 16 \<and> queue_i s \<le> rows s * cols s \<and>
        (\<exists>c'. flanterm_fb_double_buffer_flush s = Some c' \<and> screen c' = screen s \<and>
           (\<forall>x < cols s. \<forall>y < rows s. displays c' (cell_shown s x y) x y)))"
proof (intro conjI allI impI)
  show "perform_all calls c = None \<longleftrightarrow>
       (\<exists>pre b post s. calls = pre @ Byte b # post \<and> perform_all pre c = Some s \<and> overruns s b)"
    using perform_all_ok [OF assms, of calls] by (auto simp: faults_in_def split: option.splits)
next
  fix s
  assume "perform_all calls c = Some s"
  then have wf: "term_wf s" using perform_all_ok [OF assms, of calls] by simp
  then show "term_wf s" "scroll_top_margin s < scroll_bottom_margin s" "scroll_bottom_margin s \<le> rows s"
    using term_wf_dims(5,6) by blast+
  show "esc_values_i s \<le> 16" using term_wfD(3) [OF wf] by (simp add: parser_wf_def)
  show "queue_i s \<le> rows s * cols s" using term_wfD(5) [OF wf] by (simp add: fb_wf_def queue_wf_def)
  show "\<exists>c'. flanterm_fb_double_buffer_flush s = Some c' \<and> screen c' = screen s \<and>
      (\<forall>x < cols s. \<forall>y < rows s. displays c' (cell_shown s x y) x y)"
    using flush_ok [OF term_wfD(1) [OF wf]] by blast
qed

text \<open>A run that ends well, and the shortest one that does not.\<close>

theorem all_runs_safe_witness:
  "(\<exists>s. perform_all [Byte 0x48, Move 1 1, Byte 0x1b, Byte 0x5b, Byte 0x4a, Colours 0x330000 0xb25757, Flush] (sample_ctx 2 2)
      = Some s \<and> term_wf s \<and> esc_values_i s \<le> 16) \<and>
   perform_all [Byte 0x6d] ((sample_sgr [38, 5, 256])\<lparr>escape := True, control_sequence := True\<rparr>) = None"
proof -
  let ?run = "[Byte 0x48, Move 1 1, Byte 0x1b, Byte 0x5b, Byte 0x4a, Colours 0x330000 0xb25757, Flush]"
  have "\<not> (\<exists>pre b post s. ?run = pre @ Byte b # post \<and> perform_all pre (sample_ctx 2 2) = Some s \<and> overruns s b)"
  proof
    assume "\<exists>pre b post s. ?run = pre @ Byte b # post \<and> perform_all pre (sample_ctx 2 2) = Some s \<and> overruns s b"
    then obtain pre b post where "?run = pre @ Byte b # post" "b = 0x6d" by (auto simp: overruns_def)
    then have "Byte 0x6d \<in> set ?run" by simp
    then show False by simp
  qed
  then have 1: "\<exists>s. perform_all ?run (sample_ctx 2 2) = Some s \<and> term_wf s \<and> esc_values_i s \<le> 16"
    using all_runs_safe [OF term_wf_sample, of ?run] by (cases "perform_all ?run (sample_ctx 2 2)") blast+
  let ?c = "(sample_sgr [38, 5, 256])\<lparr>escape := True, control_sequence := True\<rparr>"
  have "term_wf ?c" using term_wf_sample_sgr by simp
  moreover have "overruns ?c 0x6d" by (simp add: overruns_def sample_sgr_def sample_ctx_def)
  then have "\<exists>pre b post s. [Byte 0x6d] = pre @ Byte b # post \<and> perform_all pre ?c = Some s \<and> overruns s b"
    by (intro exI [of _ "[]"]) auto
  ultimately have "perform_all [Byte 0x6d] ?c = None" using all_runs_safe [of ?c "[Byte 0x6d]"] by blast
  with 1 show ?thesis by blast
qed

lemma text_laid_out:
  assumes "term_wf c" "text_mode c" "\<forall>b \<in> set bs. printable b"
    and "rows c \<le> cols c" "cursor_x c \<le> cols c" "cursor_y c < scroll_bottom_margin c"
    and "pos c + length bs \<le> scroll_bottom_margin c * cols c"
  shows "\<exists>s. puts bs c = Some s \<and> term_wf s \<and> cframe c s \<and>
    screen s = overlay (pos c) (map (glyph_cell c) bs) (screen c) \<and> pos s = pos c + length bs \<and>
    cursor_x s \<le> cols c \<and> cursor_y s < scroll_bottom_margin c"
proof -
  obtain s where s: "puts bs c = Some s" "term_wf s" "cframe c s"
    using puts_text(2) [OF assms(1-3)] by blast
  have "ofold (\<lambda>b s. flanterm_fb_raw_putchar s b) bs c = Some s"
    using puts_text(1) [OF assms(1-3)] s(1) by simp
  with put_text [OF term_wfD(5,2) [OF assms(1)] assms(4-7)] s show ?thesis by auto
qed

text \<open>
  C9: plain text. On a terminal with no more rows than columns, which flushes after each write and is in
  text mode (no sequence under way, no insert mode, the ASCII character set), printable ASCII for which
  there is room between the cursor and the end of the scroll region is laid out linearly from the
  cursor, in the current colours; nothing else changes on the logical screen, and when
  \<open>flanterm_write\<close> returns the frame buffer shows the result. With more rows than columns the code
  continues on a wrong row (\<open>raw_putchar_wrong_row\<close>), so that the condition is needed.
\<close>

theorem write_text:
  assumes "term_wf c" "text_mode c" "autoflush c" "\<forall>b \<in> set bs. 0x20 \<le> b \<and> b \<le> 0x7e"
    and "rows c \<le> cols c" "cursor_x c \<le> cols c" "cursor_y c < scroll_bottom_margin c"
    and "pos c + length bs \<le> scroll_bottom_margin c * cols c"
  shows "\<exists>c'. flanterm_write c bs = Some c' \<and> term_wf c' \<and>
     screen c' = overlay (pos c)
       (map (\<lambda>b. \<lparr>char_c = ucast b, char_fg = text_fg c, char_bg = text_bg c\<rparr>) bs) (screen c) \<and>
     pos c' = pos c + length bs \<and>
     (\<forall>x < cols c. \<forall>y < rows c. displays c' (cell_shown c' x y) x y)"
proof -
  have p: "\<forall>b \<in> set bs. printable b" using assms(4) by (simp add: printable_def)
  from text_laid_out [OF assms(1,2) p assms(5-8)] obtain s where
    s: "puts bs c = Some s" "term_wf s" "cframe c s" and
    scr: "screen s = overlay (pos c) (map (glyph_cell c) bs) (screen c)" "pos s = pos c + length bs"
    by blast
  have "autoflush s" using cframe_sel [OF s(3), of autoflush] assms(3)
    by (simp add: forget_cursor_def forget_queue_def)
  from write_flushes [OF s(1,2) this] obtain c' where
    c': "flanterm_write c bs = Some c'" "term_wf c'" "dframe s c'" "screen c' = screen s"
    "\<forall>x < cols c'. \<forall>y < rows c'. displays c' (cell_shown c' x y) x y" by blast
  have "pos c' = pos s" "cols c' = cols c" "rows c' = rows c"
    using dframe_geom [OF c'(3)] cframe_geom [OF s(3)] by (simp_all add: pos_def)
  then show ?thesis using c' scr by (auto simp: glyph_cell_def [abs_def])
qed

theorem write_text_witness:
  "\<exists>c'. flanterm_write (sample_ctx 2 2) [0x48, 0x69, 0x21] = Some c' \<and> pos c' = 3 \<and>
     char_c (screen c' ! 2) = 0x21"
proof -
  have "text_mode (sample_ctx 2 2)" by (simp add: text_mode_def sample_ctx_def)
  from write_text [OF term_wf_sample this, of "[0x48, 0x69, 0x21]"]
  obtain c' where "flanterm_write (sample_ctx 2 2) [0x48, 0x69, 0x21] = Some c'" "pos c' = 3"
    "screen c' = overlay 0 [\<lparr>char_c = 0x48, char_fg = 0xaaaaaa, char_bg = 0xffffffff\<rparr>,
      \<lparr>char_c = 0x69, char_fg = 0xaaaaaa, char_bg = 0xffffffff\<rparr>,
      \<lparr>char_c = 0x21, char_fg = 0xaaaaaa, char_bg = 0xffffffff\<rparr>] (screen (sample_ctx 2 2))"
    by (auto simp: pos_def)
  then show ?thesis by (simp add: overlay_def)
qed

text \<open>
  C17: UTF-8. The encoding of a code point of two, three or four bytes, sent with no other sequence under
  way and with the cursor on a cell of the screen (not waiting behind a full row), is decoded to that
  code point: when it has a glyph in the font, that glyph is put at the cursor and the cursor moves on
  by one, and when it has none and is of width one, the glyph 0xfe is put there instead.
\<close>

theorem utf8_prints:
  assumes "term_wf c" "\<not> discard_next c" "unicode_remaining c = 0" "0x80 \<le> n" "n < 0x200000"
    and "cursor_x c < cols c" "cursor_y c < rows c"
    and "(g :: u8) = (if unicode_to_cp437 (of_nat n) = - 1 then 0xfe else word_of_int (unicode_to_cp437 (of_nat n)))"
    and "unicode_to_cp437 (of_nat n) = - 1 \<longrightarrow> mk_wcwidth (of_nat n) = Some 1"
  shows "\<exists>c'. ofold (\<lambda>b s. flanterm_putchar s b) (utf8_encode n) c = Some c' \<and>
     screen c' = (screen c)[cursor_y c * cols c + cursor_x c :=
       \<lparr>char_c = ucast g, char_fg = text_fg c, char_bg = text_bg c\<rparr>] \<and>
     cursor_x c' = Suc (cursor_x c) \<and> cursor_y c' = cursor_y c"
proof -
  let ?c = "c\<lparr>unicode_remaining := 0, code_point := of_nat n\<rparr>"
  have cast: "ucast (of_nat n :: u64) = (of_nat n :: u32)"
    using assms(5) by (simp add: unsigned_of_nat take_bit_nat_eq_self)
  have wf: "fb_wf ?c" using term_wfD(5) [OF assms(1)] by simp
  have "print_code_point ?c = flanterm_fb_raw_putchar ?c g"
    using assms(8,9) cast by (auto simp: print_code_point_def Let_def)
  moreover have "ofold (\<lambda>b s. flanterm_putchar s b) (utf8_encode n) c = print_code_point ?c"
    using utf8_decode [OF assms(2-5)] by (simp add: puts_def)
  ultimately show ?thesis
    using raw_putchar_no_wrap [OF wf, of g] assms(6,7) by (auto simp: glyph_cell_def)
qed

theorem utf8_prints_witness:
  "\<exists>c'. ofold (\<lambda>b s. flanterm_putchar s b) (utf8_encode 0x2588) (sample_ctx 2 2) = Some c' \<and>
     screen c' ! 0 = \<lparr>char_c = 219, char_fg = 0xaaaaaa, char_bg = 0xffffffff\<rparr>"
proof -
  have g: "unicode_to_cp437 (of_nat 0x2588) = 219"
    by (simp add: unicode_to_cp437_def cp437_cases_def)
  have "\<not> discard_next (sample_ctx 2 2)" "unicode_remaining (sample_ctx 2 2) = 0"
    by (simp_all add: sample_ctx_def)
  from utf8_prints [OF term_wf_sample this, of "0x2588" 219] g show ?thesis by auto
qed

text \<open>
  C16: parsing is inverse to printing for control sequences. In the ground state, and unless a cancelled
  \<open>ESC [ ?\<close> has left the flag \<open>dec_private\<close> set, \<open>ESC [\<close>, the decimal numerals of at
  most 16 parameters below \<open>2 ^ 32\<close>, separated by semicolons, and a final byte (0x40 to 0x7e, but
  not \<open>[\<close>) run the command of that byte, with the cursor where it was, on the terminal that differs from the one before in its parser registers only:
  the argument array holds exactly those parameters and the default of the command behind them (0 for
  \<open>J\<close>, \<open>K\<close> and \<open>q\<close>, 1 for the others), and scrolling is off while the command runs. With the
  flag set the sequence is swallowed (\<open>cancelled_private_sequence\<close>).
\<close>

theorem control_sequence_roundtrip:
  assumes "term_wf c" "ground c" "\<not> dec_private c" "length ns \<le> 16" "\<forall>n \<in> set ns. n < 2 ^ 32" "final_byte f"
    and "flanterm_fb_get_cursor_pos c = (x, y)"
  shows "ofold (\<lambda>b s. flanterm_putchar s b) (csi_bytes ns f) c =
    map_option (\<lambda>c'. csi_cleanup (c'\<lparr>scroll_enabled := scroll_enabled c\<rparr>))
      (csi_dispatch (c\<lparr>escape := True, control_sequence := True,
         esc_values := map of_nat ns @ replicate (16 - length ns) (if f \<in> {0x4a, 0x4b, 0x71} then 0 else 1),
         esc_values_i := length ns, rrr := False, escape_offset := 2 + length (csi_params ns),
         scroll_enabled := False\<rparr>) f x y)"
proof -
  have "length (csi_params ns) < 2 ^ 31" using csi_params_length [OF assms(5)] assms(4) by simp
  from csi_bytes_run [OF assms(1,2,4) this assms(6)] csi_execute_run [OF assms(1,3,4)] assms(7) show ?thesis
    by (simp add: puts_def Let_def in_csi_def)
qed

lemma ground_sample [simp]: "ground (sample_ctx h w)" "\<not> dec_private (sample_ctx h w)"
  by (simp_all add: ground_def sample_ctx_def)

theorem control_sequence_roundtrip_witness:
  "csi_bytes [12, 5] 0x48 = [0x1b, 0x5b, 0x31, 0x32, 0x3b, 0x35, 0x48] \<and>
   (\<exists>s. ofold (\<lambda>b s. flanterm_putchar s b) (csi_bytes [12, 5] 0x48) (sample_ctx 2 2)
       = map_option (\<lambda>c'. csi_cleanup (c'\<lparr>scroll_enabled := True\<rparr>)) (csi_dispatch s 0x48 0 0) \<and>
     take (esc_values_i s) (esc_values s) = [12, 5])"
proof -
  have f: "final_byte 0x48" by (simp add: final_byte_def)
  have b: "csi_bytes [12, 5] 0x48 = [0x1b, 0x5b, 0x31, 0x32, 0x3b, 0x35, 0x48]"
    by (simp add: csi_bytes_def dec_digits.simps)
  have "flanterm_fb_get_cursor_pos (sample_ctx 2 2) = (0, 0)" "scroll_enabled (sample_ctx 2 2)"
    by (simp_all add: flanterm_fb_get_cursor_pos_def sample_ctx_def)
  with control_sequence_roundtrip [OF term_wf_sample ground_sample(1,2) _ _ f, of "[12, 5]" 0 0] b
  show ?thesis by (intro conjI exI) auto
qed

text \<open>
  C35: the bytes \<open>ESC [ row ; column H\<close>, with numbers below \<open>2 ^ 32\<close>, sent in the ground state
  with \<open>dec_private\<close> clear, put
  the cursor on that row and column, counted from one (0 counts as 1, values past the edge are the
  last row or column), change nothing on the screen and leave the parser in its ground state.
\<close>

theorem cursor_position:
  assumes "term_wf c" "ground c" "\<not> dec_private c" "row < 2 ^ 32" "col < 2 ^ 32"
  shows "\<exists>c'. ofold (\<lambda>b s. flanterm_putchar s b) (csi_bytes [row, col] 0x48) c = Some c' \<and>
     term_wf c' \<and> ground c' \<and> screen c' = screen c \<and>
     cursor_x c' = min (col - 1) (cols c - 1) \<and> cursor_y c' = min (row - 1) (rows c - 1)"
  using cup_run [OF assms] by (simp add: puts_def)

theorem cursor_position_witness:
  "\<exists>c'. ofold (\<lambda>b s. flanterm_putchar s b) (csi_bytes [2, 9] 0x48) (sample_ctx 2 2) = Some c' \<and>
     cursor_x c' = 1 \<and> cursor_y c' = 1"
  using cursor_position [OF term_wf_sample ground_sample(1,2), of 2 9] by auto

text \<open>
  The eight-bit control sequence introducer 0x9b loses a byte: the byte after it is
  thrown away, whatever it is (unless it starts a UTF-8 sequence or cancels), instead of being
  the first byte of the sequence.
\<close>

theorem csi_8bit_drops_byte:
  assumes "term_wf c" "ground c" "b < 0xc0" "b \<noteq> 0x18" "b \<noteq> 0x1a"
  shows "ofold (\<lambda>b s. flanterm_putchar s b) [0x9b, b] c =
     Some (c\<lparr>escape := True, control_sequence := True, esc_values := replicate 16 0,
       escape_offset := 1, esc_values_i := 0, rrr := False\<rparr>)"
proof -
  let ?c = "c\<lparr>csi := True, escape_offset := 0, escape := True\<rparr>"
  have 1: "flanterm_putchar c 0x9b = Some ?c"
    using assms(2) by (simp add: flanterm_putchar_def putchar_byte_def control_or_print_def
        ground_def case_prod_unfold)
  have "enter_csi (?c\<lparr>escape_offset := 1, csi := False\<rparr>) =
      Some (c\<lparr>csi := False, escape := True, control_sequence := True, esc_values := replicate 16 0,
       escape_offset := 1, esc_values_i := 0, rrr := False\<rparr>)"
    using term_wf_enter_csi(1) [of "?c\<lparr>escape_offset := 1, csi := False\<rparr>"] assms(1)
    by (simp add: flanterm_fb_context.equality)
  moreover have "c\<lparr>csi := False\<rparr> = c" using assms(2) by (simp add: ground_def)
  ultimately have "flanterm_putchar ?c b = Some (c\<lparr>escape := True, control_sequence := True,
      esc_values := replicate 16 0, escape_offset := 1, esc_values_i := 0, rrr := False\<rparr>)"
    using assms(2-5) not_lead [OF assms(3)]
    by (simp add: flanterm_putchar_def putchar_byte_def escape_parse_def
        ground_def Let_def sz_add_def SZ_def)
  with 1 show ?thesis by simp
qed

theorem csi_8bit_drops_byte_witness:
  "ofold (\<lambda>b s. flanterm_putchar s b) [0x9b, 0x32] (sample_ctx 2 2) =
   ofold (\<lambda>b s. flanterm_putchar s b) [0x9b, 0x4a] (sample_ctx 2 2)"
proof -
  note drop = csi_8bit_drops_byte [OF term_wf_sample ground_sample(1)]
  show ?thesis by (subst drop, simp, simp, simp, subst drop) simp_all
qed

text \<open>
  Cancelling a private sequence is not complete: after \<open>ESC [ ?\<close> has been cancelled by the
  CAN byte, the next control sequence is still taken for a private one, so that none of the
  commands on the cursor, the screen or the colours takes effect.
\<close>

theorem cancelled_private_sequence:
  assumes "term_wf c" "ground c" "length ns \<le> 16" "\<forall>n \<in> set ns. n < 2 ^ 32" "final_byte f"
  shows "\<exists>c'. ofold (\<lambda>b s. flanterm_putchar s b) ([0x1b, 0x5b, 0x3f, 0x18] @ csi_bytes ns f) c = Some c' \<and>
     screen c' = screen c \<and> cursor_x c' = cursor_x c \<and> cursor_y c' = cursor_y c \<and>
     text_fg c' = text_fg c \<and> text_bg c' = text_bg c"
proof -
  let ?v = "replicate 16 0 :: u32 list"
  let ?p = "(in_csi c 2 0 ?v False)\<lparr>dec_private := True\<rparr>"
  let ?q = "?p\<lparr>discard_next := False, escape := False, csi := False, control_sequence := False,
    unicode_remaining := 0, osc := False, osc_escape := False, g_select := 0\<rparr>"
  have sz: "Suc 1 < SZ" and two: "Suc 1 = 2" by (simp_all add: SZ_def)
  have "flanterm_putchar (in_csi c 1 0 ?v False) 0x3f = control_sequence_parse (in_csi c 2 0 ?v False) 0x3f"
    using in_csi_byte [OF assms(2) _ _ _ sz, of "0x3f", unfolded two] by simp
  then have "flanterm_putchar (in_csi c 1 0 ?v False) 0x3f = Some ?p"
    by (simp add: control_sequence_parse_def)
  moreover have "flanterm_putchar ?p 0x18 = Some ?q" by (simp add: flanterm_putchar_def)
  ultimately have 1: "puts [0x1b, 0x5b, 0x3f, 0x18] c = Some ?q"
    using enter_csi_bytes [OF assms(1,2)] puts_append [of "[0x1b, 0x5b]" "[0x3f, 0x18]" c] by simp
  have wf: "term_wf ?q" "ground ?q" "dec_private ?q"
    using term_wf_in_csi [OF assms(1), of ?v 0 2]
    by (simp_all add: term_wf_def margins_wf_def palette_wf_def parser_wf_def ground_def)
  let ?s = "in_csi ?q (2 + length (csi_params ns)) (length ns) (map of_nat ns @ replicate (16 - length ns) 0) False"
  have "length (csi_params ns) < 2 ^ 31" using csi_params_length [OF assms(4)] assms(3) by simp
  from csi_bytes_run [OF wf(1,2) assms(3) this assms(5)]
  have 2: "puts (csi_bytes ns f) ?q = csi_execute ?s f" .
  have len: "length (map of_nat ns @ replicate (16 - length ns) (d :: u32)) = 16" for d
    using assms(3) by simp
  have p: "dec_private ?s" "length (esc_values ?s) = 16" using wf(3) len by (simp_all add: in_csi_def)
  have sel: "screen ?s = screen c" "cursor_x ?s = cursor_x c" "cursor_y ?s = cursor_y c"
    "text_fg ?s = text_fg c" "text_bg ?s = text_bg c" by (simp_all add: in_csi_def)
  have "\<exists>c'. csi_execute ?s f = Some c' \<and> screen c' = screen ?s \<and> cursor_x c' = cursor_x ?s \<and>
      cursor_y c' = cursor_y ?s \<and> text_fg c' = text_fg ?s \<and> text_bg c' = text_bg ?s"
    using p assms(3)
    by (simp add: csi_execute_def fill_defaults Let_def dec_private_parse_def csi_cleanup_def notify_def)
  then have "\<exists>c'. puts ([0x1b, 0x5b, 0x3f, 0x18] @ csi_bytes ns f) c = Some c' \<and>
      screen c' = screen c \<and> cursor_x c' = cursor_x c \<and> cursor_y c' = cursor_y c \<and>
      text_fg c' = text_fg c \<and> text_bg c' = text_bg c"
    unfolding puts_append 1 bind.bind_lunit 2 sel .
  then show ?thesis by (simp only: puts_def)
qed

theorem cancelled_private_sequence_witness:
  "\<exists>c'. ofold (\<lambda>b s. flanterm_putchar s b) ([0x1b, 0x5b, 0x3f, 0x18] @ csi_bytes [2, 2] 0x48)
     (sample_ctx 2 2) = Some c' \<and> cursor_x c' = 0 \<and> cursor_y c' = 0"
proof -
  have "final_byte 0x48" by (simp add: final_byte_def)
  from cancelled_private_sequence [OF term_wf_sample ground_sample(1) _ _ this, of "[2, 2]"]
  show ?thesis by auto
qed

text \<open>
  The full reset \<open>ESC c\<close> clears the screen, homes the cursor, restores the scroll region and
  the attribute flags, but keeps the text colours: the blank cells and all further text have the
  colours that were selected before the reset, although the flags say that the defaults are.
\<close>

theorem reset_keeps_colours:
  assumes "term_wf c" "ground c"
  shows "\<exists>c'. ofold (\<lambda>b s. flanterm_putchar s b) [0x1b, 0x63] c = Some c' \<and> term_wf c' \<and> ground c' \<and>
     screen c' = replicate (rows c * cols c) \<lparr>char_c = 0x20, char_fg = text_fg c, char_bg = text_bg c\<rparr> \<and>
     cursor_x c' = 0 \<and> cursor_y c' = 0 \<and> scroll_top_margin c' = 0 \<and> scroll_bottom_margin c' = rows c \<and>
     \<not> bold c' \<and> \<not> reverse_video c' \<and> current_primary c' = SZ_MAX \<and> current_bg c' = SZ_MAX \<and>
     text_fg c' = text_fg c \<and> text_bg c' = text_bg c"
proof -
  let ?c = "c\<lparr>escape_offset := 0, escape := True\<rparr>" and ?d = "c\<lparr>escape := True, escape_offset := 1\<rparr>"
  have 1: "flanterm_putchar c 0x1b = Some ?c"
    using assms(2) by (simp add: flanterm_putchar_def putchar_byte_def control_or_print_def
        ground_def case_prod_unfold)
  have d: "term_wf ?d" using assms(1) by simp
  from term_ok_reinit [OF d] obtain e where e: "flanterm_context_reinit ?d = Some e" "term_wf e"
    by (auto simp: term_ok_def)
  have "length (charsets c) = 2" using term_wfD(3) [OF assms(1)] by (simp add: parser_wf_def)
  with e(1) have re: "screen e = screen c" "rows e = rows c" "cols e = cols c" "text_fg e = text_fg c"
    "text_bg e = text_bg c" "scroll_top_margin e = 0" "scroll_bottom_margin e = rows c" "\<not> bold e"
    "\<not> reverse_video e" "current_primary e = SZ_MAX" "current_bg e = SZ_MAX"
    "ground (e\<lparr>escape := False\<rparr>)"
    by (auto simp: flanterm_context_reinit_def Let_def ground_def)
  from drawn_clear [OF term_wfD(1) [OF e(2)], of True] obtain c' where
    c': "flanterm_fb_clear e True = Some c'" "drawn c'" "cframe e c'" "cursor_x c' = 0" "cursor_y c' = 0"
    "screen c' = replicate (rows e * cols e) (empty_char e)" by auto
  note g = cframe_geom [OF c'(3)]
  have fr: "bold c' = bold e" "reverse_video c' = reverse_video e" "current_primary c' = current_primary e"
    "current_bg c' = current_bg e" "ground (c'\<lparr>escape := False\<rparr>) = ground (e\<lparr>escape := False\<rparr>)"
    by (rule cframe_sel [OF c'(3)], simp add: forget_cursor_def forget_queue_def ground_def)+
  have "flanterm_putchar ?c 0x63 = Some (c'\<lparr>escape := False\<rparr>)"
    using assms(2) e(1) c'(1)
    by (simp add: flanterm_putchar_def putchar_byte_def escape_parse_def escape_command_def
        ground_def case_prod_unfold Let_def sz_add_def SZ_def)
  then show ?thesis
    using 1 c' re g fr term_wf_cframe [OF e(2) c'(3,2)]
    by (simp add: empty_char_def)
qed

theorem reset_keeps_colours_witness:
  "\<exists>c'. ofold (\<lambda>b s. flanterm_putchar s b) [0x1b, 0x63] ((sample_ctx 2 2)\<lparr>text_fg := 5\<rparr>) = Some c' \<and>
     current_primary c' = SZ_MAX \<and> text_fg c' = 5"
proof -
  have "term_wf ((sample_ctx 2 2)\<lparr>text_fg := 5\<rparr>)" "ground ((sample_ctx 2 2)\<lparr>text_fg := 5\<rparr>)"
    using term_wf_sample ground_sample(1) [of 2 2] by (simp_all add: ground_def)
  from reset_keeps_colours [OF this] show ?thesis by auto
qed

lemma line_feed_ok:
  assumes "term_wf c" "ground c" "cursor_x c < cols c" "cursor_y c < rows c"
  shows "\<exists>c'. flanterm_putchar c 0x0a = Some c' \<and> cframe c c' \<and>
     cursor_x c' = (if oob_output c AND 16 \<noteq> 0 then 0 else cursor_x c) \<and>
     cursor_y c' = (if Suc (cursor_y c) = scroll_bottom_margin c then cursor_y c
       else min (Suc (cursor_y c)) (rows c - 1)) \<and>
     screen c' = (if Suc (cursor_y c) = scroll_bottom_margin c
       then scroll_rows (cols c) (scroll_top_margin c) (scroll_bottom_margin c) (empty_char c) (screen c)
       else screen c)"
proof -
  note dims = term_wf_dims [OF assms(1)]
  have pos: "flanterm_fb_get_cursor_pos c = (cursor_x c, cursor_y c)"
    using assms(3,4) by (rule get_cursor_pos_inside)
  have eq: "flanterm_putchar c 0x0a = line_feed c (cursor_x c) (cursor_y c)"
    using assms(2) pos by (simp add: flanterm_putchar_def putchar_byte_def control_or_print_def ground_def)
  have b: "cursor_y c = sz_sub (scroll_bottom_margin c) 1 \<longleftrightarrow> Suc (cursor_y c) = scroll_bottom_margin c"
    using dims(5) by (auto simp: sz_simps)
  have y: "clamp_pos (sz_add (cursor_y c) 1) (rows c) = min (Suc (cursor_y c)) (rows c - 1)"
  proof (cases "Suc (cursor_y c) < rows c")
    case True
    then show ?thesis using dims(3) by (simp add: sz_simps SZ_def clamp_pos_id)
  next
    case False
    then have "Suc (cursor_y c) = rows c" using assms(4) by simp
    then show ?thesis using dims(1,3) by (simp add: sz_simps SZ_def clamp_pos_over)
  qed
  from flanterm_fb_scroll_ok [OF term_wfD(5) [OF assms(1)] dims(5,6)] obtain s where
    s: "flanterm_fb_scroll c = Some s" "qframe c s"
    "screen s = scroll_rows (cols c) (scroll_top_margin c) (scroll_bottom_margin c) (empty_char c) (screen c)"
    by blast
  have x: "clamp_pos (if a then 0 else cursor_x c) (cols c) = (if a then 0 else cursor_x c)" for a
    using dims(2) assms(3) by (simp add: clamp_pos_id)
  show ?thesis
    unfolding eq line_feed_def b Let_def flanterm_fb_set_cursor_pos_def
    using s(1,3) qframe_geom [OF s(2)] x y assms(4) cframe_qframe [OF s(2)]
    by (auto simp: clamp_pos_id cframe_def forget_cursor_def forget_queue_def)
qed

text \<open>
  C34: a line feed moves the cursor to the next row, to its first column when the output mode
  translates line feeds; on the last row of the scroll region it scrolls the region up by one
  row instead, filling the new row with blanks, and on the last row of the screen below the
  region it stays.
\<close>

theorem line_feed_moves_or_scrolls:
  assumes "term_wf c" "ground c" "cursor_x c < cols c" "cursor_y c < rows c"
  shows "\<exists>c'. flanterm_putchar c 0x0a = Some c' \<and>
     cursor_x c' = (if oob_output c AND 16 \<noteq> 0 then 0 else cursor_x c) \<and>
     cursor_y c' = (if Suc (cursor_y c) = scroll_bottom_margin c then cursor_y c
       else min (Suc (cursor_y c)) (rows c - 1)) \<and>
     screen c' = (if Suc (cursor_y c) = scroll_bottom_margin c
       then scroll_rows (cols c) (scroll_top_margin c) (scroll_bottom_margin c) (empty_char c) (screen c)
       else screen c)"
  using line_feed_ok [OF assms] by blast

theorem line_feed_moves_or_scrolls_witness:
  "\<exists>c'. flanterm_putchar (sample_ctx 2 2) 0x0a = Some c' \<and> cursor_y c' = 1"
  using line_feed_moves_or_scrolls [OF term_wf_sample ground_sample(1)] by auto

end
