(* ===== verification/FB_Init.thy ===== *)
theory FB_Init
  imports Flanterm_Stream FB_Font
begin

text \<open>
  The construction of a terminal: \<open>bump_alloc\<close> and \<open>flanterm_fb_init\<close> of
  \<open>kernel/flanterm/backends/fb.c\<close>, called with \<open>_malloc = NULL\<close> as the kernel does. Memory
  comes from the static pool, of which only the fill level matters. The result is \<open>None\<close> for
  an access outside an array or a division by zero, and otherwise the fill level with the new
  terminal, or with \<open>None\<close> for the \<open>NULL\<close> the function returns when the pool is exhausted.
\<close>

section \<open>Operations\<close>

definition BUMP_ALLOC_POOL_SIZE :: nat where
  "BUMP_ALLOC_POOL_SIZE = 64 * 1024 * 1024"

definition bump_alloc :: "nat \<Rightarrow> nat \<Rightarrow> nat option" where
  "bump_alloc s bump_alloc_ptr =
     (let next_ptr = sz_add bump_alloc_ptr s
      in if BUMP_ALLOC_POOL_SIZE < next_ptr then None else Some next_ptr)"

text \<open>
  The sizes of the structs on x86-64, where pointers and \<open>size_t\<close> have 8 bytes.
\<close>

definition SIZEOF_CONTEXT :: nat where "SIZEOF_CONTEXT = 784"

definition SIZEOF_CHAR :: nat where "SIZEOF_CHAR = 12"

definition SIZEOF_QUEUE_ITEM :: nat where "SIZEOF_QUEUE_ITEM = 32"

definition SIZEOF_POINTER :: nat where "SIZEOF_POINTER = 8"

text \<open>The parameters; a pointer that may be \<open>NULL\<close> is an option.\<close>

record fb_args =
  a_framebuffer :: "u32 list"
  a_width :: nat
  a_height :: nat
  a_pitch :: nat
  a_canvas :: "u32 list option"
  a_ansi_colours :: "u32 list option"
  a_ansi_bright_colours :: "u32 list option"
  a_default_bg :: "u32 option"
  a_default_fg :: "u32 option"
  a_default_bg_bright :: "u32 option"
  a_default_fg_bright :: "u32 option"
  a_font :: "u8 list option"
  a_font_width :: nat
  a_font_height :: nat
  a_font_spacing :: nat
  a_font_scale_x :: nat
  a_font_scale_y :: nat
  a_margin :: nat

text \<open>\<open>memcpy\<close> of \<open>n\<close> elements from an array of the caller.\<close>

definition copy_in :: "nat \<Rightarrow> 'a list \<Rightarrow> 'a list option" where
  "copy_in n xs = (if n \<le> length xs then Some (take n xs) else None)"

definition default_ansi_colours :: "u32 list" where
  "default_ansi_colours =
     [0x00000000, 0x00aa0000, 0x0000aa00, 0x00aa5500, 0x000000aa, 0x00aa00aa, 0x0000aaaa, 0x00aaaaaa]"

definition default_ansi_bright_colours :: "u32 list" where
  "default_ansi_bright_colours =
     [0x00555555, 0x00ff5555, 0x0055ff55, 0x00ffff55, 0x005555ff, 0x00ff55ff, 0x0055ffff, 0x00ffffff]"

text \<open>The colours of the context, \<open>memset\<close> to zero before.\<close>

definition init_colours :: "fb_args \<Rightarrow> ctx \<Rightarrow> ctx option" where
  "init_colours a ctx = do {
     ansi \<leftarrow> (case a_ansi_colours a of Some cs \<Rightarrow> copy_in 8 cs | None \<Rightarrow> Some default_ansi_colours);
     bright \<leftarrow> (case a_ansi_bright_colours a of Some cs \<Rightarrow> copy_in 8 cs
                 | None \<Rightarrow> Some default_ansi_bright_colours);
     let fg = (case a_default_fg a of Some v \<Rightarrow> v | None \<Rightarrow> 0x00aaaaaa);
     Some (ctx\<lparr>ansi_colours := ansi, ansi_bright_colours := bright,
       default_bg := (case a_default_bg a of Some v \<Rightarrow> v | None \<Rightarrow> 0x00000000),
       default_fg := fg,
       default_bg_bright := (case a_default_bg_bright a of Some v \<Rightarrow> v | None \<Rightarrow> 0x00555555),
       default_fg_bright := (case a_default_fg_bright a of Some v \<Rightarrow> v | None \<Rightarrow> 0x00ffffff),
       text_fg := fg, text_bg := 0xffffffff, framebuffer := a_framebuffer a,
       fb_width := a_width a, fb_height := a_height a, fb_pitch := a_pitch a\<rparr>)
   }"

text \<open>The font with its size and spacing: the built-in one where none is passed.\<close>

definition init_font :: "fb_args \<Rightarrow> nat \<times> nat \<times> nat \<times> u8 list" where
  "init_font a = (case a_font a of
       Some f \<Rightarrow> (a_font_width a, a_font_height a, a_font_spacing a, f)
     | None \<Rightarrow> (8, 16, 1, builtin_font))"

definition FONT_BYTES :: "nat \<Rightarrow> nat \<Rightarrow> nat" where
  "FONT_BYTES font_w font_h = sz_mul (sz_mul font_w font_h) 256 div 8"

text \<open>The expansion of the font bitmap: one \<open>bool\<close> per dot, the columns from 8 on filled.\<close>

definition expand_row :: "nat \<Rightarrow> nat \<Rightarrow> u8 list \<Rightarrow> nat \<Rightarrow> nat \<Rightarrow> bool list \<Rightarrow> bool list option" where
  "expand_row font_h font_w bits i y fb = do {
     g \<leftarrow> aget bits (sz_add (sz_mul i font_h) y);
     fb \<leftarrow> ofold (\<lambda>x fb. aset fb
              (sz_add (sz_add (sz_mul (sz_mul i font_h) font_w) (sz_mul y font_w)) x)
              (g AND drop_bit x 0x80 \<noteq> 0)) [0..<8] fb;
     ofold (\<lambda>x fb. aset fb
              (sz_add (sz_add (sz_mul (sz_mul i font_h) font_w) (sz_mul y font_w)) x)
              (if 0xc0 \<le> i \<and> i \<le> 0xdf then g AND 1 \<noteq> 0 else False)) [8..<font_w] fb
   }"

definition expand_font :: "nat \<Rightarrow> nat \<Rightarrow> u8 list \<Rightarrow> bool list \<Rightarrow> bool list option" where
  "expand_font font_h font_w bits fb =
     ofold (\<lambda>i fb. ofold (\<lambda>y fb. expand_row font_h font_w bits i y fb) [0..<font_h] fb) [0..<256] fb"

text \<open>The cells, the queue, the map and the canvas, once the memory for them is there.\<close>

definition init_canvas :: "fb_args \<Rightarrow> u32 \<Rightarrow> u32 list option" where
  "init_canvas a bg =
     (let n = sz_mul (a_width a) (a_height a)
      in case a_canvas a of Some cs \<Rightarrow> copy_in n cs | None \<Rightarrow> Some (replicate n bg))"

text \<open>The geometry: glyph size, rows and columns, offsets.\<close>

definition init_geometry :: "fb_args \<Rightarrow> nat \<Rightarrow> nat \<Rightarrow> ctx \<Rightarrow> ctx option" where
  "init_geometry a font_w font_h ctx =
     (let gw = sz_mul font_w (a_font_scale_x a); gh = sz_mul font_h (a_font_scale_y a);
          m2 = sz_mul (a_margin a) 2;
          w = sz_sub (a_width a) m2; h = sz_sub (a_height a) m2
      in if gw = 0 \<or> gh = 0 then None
         else Some (ctx\<lparr>font_scale_x := a_font_scale_x a, font_scale_y := a_font_scale_y a,
           glyph_width := gw, glyph_height := gh, cols := w div gw, rows := h div gh,
           offset_x := sz_add (a_margin a) (w mod gw div 2),
           offset_y := sz_add (a_margin a) (h mod gh div 2)\<rparr>))"

definition zero_context :: ctx where
  "zero_context = \<lparr>
     tab_size = 0, autoflush = False, cursor_enabled = False, scroll_enabled = False,
     control_sequence = False, csi = False, escape = False, osc = False, osc_escape = False,
     rrr = False, discard_next = False, bold = False, bg_bold = False, reverse_video = False,
     dec_private = False, insert_mode = False, code_point = 0, unicode_remaining = 0,
     g_select = 0, charsets = [0, 0], current_charset = 0, escape_offset = 0, esc_values_i = 0,
     saved_cursor_x = 0, saved_cursor_y = 0, current_primary = 0, current_bg = 0,
     scroll_top_margin = 0, scroll_bottom_margin = 0, esc_values = replicate 16 0,
     oob_output = 0, saved_state_bold = False, saved_state_bg_bold = False,
     saved_state_reverse_video = False, saved_state_current_charset = 0,
     saved_state_current_primary = 0, saved_state_current_bg = 0, rows = 0, cols = 0,
     callback = False, callback_log = [], font_width = 0, font_height = 0, glyph_width = 0,
     glyph_height = 0, font_scale_x = 0, font_scale_y = 0, offset_x = 0, offset_y = 0,
     framebuffer = [], fb_pitch = 0, fb_width = 0, fb_height = 0, font_bits = [],
     font_bool = [], ansi_colours = replicate 8 0, ansi_bright_colours = replicate 8 0,
     default_fg = 0, default_bg = 0, default_fg_bright = 0, default_bg_bright = 0, canvas = [],
     grid = [], queue = [], queue_i = 0, fb_map = [], text_fg = 0, text_bg = 0, cursor_x = 0,
     cursor_y = 0, saved_state_text_fg = 0, saved_state_text_bg = 0, saved_state_cursor_x = 0,
     saved_state_cursor_y = 0, old_cursor_x = 0, old_cursor_y = 0\<rparr>"

text \<open>
  \<open>ctx->p = _malloc(size); if (ctx->p == NULL) goto fail;\<close> - the label \<open>fail\<close> resets the
  pool to the level before the call.
\<close>

definition allocating ::
    "nat \<Rightarrow> nat \<Rightarrow> nat \<Rightarrow> (nat \<Rightarrow> (nat \<times> ctx option) option) \<Rightarrow> (nat \<times> ctx option) option" where
  "allocating orig n p k =
     (case bump_alloc n p of None \<Rightarrow> Some (orig, None) | Some p' \<Rightarrow> k p')"

definition init_grid :: "ctx \<Rightarrow> ctx" where
  "init_grid ctx = ctx\<lparr>grid := replicate (sz_mul (rows ctx) (cols ctx))
     \<lparr>char_c = 0x20, char_fg = text_fg ctx, char_bg = text_bg ctx\<rparr>\<rparr>"

definition init_queue :: "ctx \<Rightarrow> ctx" where
  "init_queue ctx = ctx\<lparr>queue := replicate (sz_mul (rows ctx) (cols ctx))
     \<lparr>q_x = 0, q_y = 0, q_c = \<lparr>char_c = 0, char_fg = 0, char_bg = 0\<rparr>\<rparr>, queue_i := 0\<rparr>"

definition init_map :: "ctx \<Rightarrow> ctx" where
  "init_map ctx = ctx\<lparr>fb_map := replicate (sz_mul (rows ctx) (cols ctx)) None\<rparr>"

text \<open>The end of the function, once the memory is there: filling the arrays and the start.\<close>

definition start_arrays :: "fb_args \<Rightarrow> ctx \<Rightarrow> ctx option" where
  "start_arrays a ctx = do {
     cv \<leftarrow> init_canvas a (default_bg ctx);
     ctx \<leftarrow> flanterm_context_reinit ((init_map (init_queue (init_grid ctx)))\<lparr>canvas := cv\<rparr>);
     flanterm_fb_full_refresh ctx
   }"

text \<open>The four arrays whose size depends on the number of cells and pixels, and the start.\<close>

definition init_arrays :: "nat \<Rightarrow> fb_args \<Rightarrow> ctx \<Rightarrow> nat \<Rightarrow> (nat \<times> ctx option) option" where
  "init_arrays orig a ctx p =
     (let n = sz_mul (rows ctx) (cols ctx)
      in allocating orig (sz_mul n SIZEOF_CHAR) p (\<lambda>p.
         allocating orig (sz_mul n SIZEOF_QUEUE_ITEM) p (\<lambda>p.
         allocating orig (sz_mul n SIZEOF_POINTER) p (\<lambda>p.
         allocating orig (sz_mul (sz_mul (a_width a) (a_height a)) 4) p (\<lambda>p. do {
           ctx \<leftarrow> start_arrays a ctx;
           Some (p, Some ctx)
         })))))"

definition flanterm_fb_init :: "nat \<Rightarrow> fb_args \<Rightarrow> (nat \<times> ctx option) option" where
  "flanterm_fb_init bump_alloc_ptr a =
     (let orig_bump_alloc_ptr = bump_alloc_ptr
      in allocating orig_bump_alloc_ptr SIZEOF_CONTEXT bump_alloc_ptr (\<lambda>p. do {
           ctx \<leftarrow> init_colours a zero_context;
           let (fw, fh, spacing, font) = init_font a;
           allocating orig_bump_alloc_ptr (FONT_BYTES fw fh) p (\<lambda>p. do {
             bits \<leftarrow> copy_in (FONT_BYTES fw fh) font;
             let font_w = sz_add fw spacing;
             let total = sz_mul (sz_mul 256 fh) font_w;
             allocating orig_bump_alloc_ptr total p (\<lambda>p. do {
               fb \<leftarrow> expand_font fh font_w bits (replicate total False);
               ctx \<leftarrow> init_geometry a font_w fh (ctx\<lparr>font_width := font_w, font_height := fh,
                 font_bits := bits, font_bool := fb\<rparr>);
               init_arrays orig_bump_alloc_ptr a ctx p
             })
           })
         }))"

section \<open>The font\<close>

lemma fill_block:
  assumes "lo \<le> hi" "b + hi \<le> length fb"
  shows "ofold (\<lambda>x fb. aset fb (b + x) (v x)) [lo..<hi] fb =
    Some (take (b + lo) fb @ map v [lo..<hi] @ drop (b + hi) fb)"
  using assms
proof (induction "hi - lo" arbitrary: lo fb)
  case (Suc n)
  then have lt: "lo < hi" and b: "b + lo < length fb" by simp_all
  let ?fb = "fb[b + lo := v lo]"
  have "ofold (\<lambda>x fb. aset fb (b + x) (v x)) [Suc lo..<hi] ?fb =
      Some (take (b + Suc lo) ?fb @ map v [Suc lo..<hi] @ drop (b + hi) ?fb)"
    by (rule Suc.hyps(1)) (use Suc.hyps(2) Suc.prems lt in simp_all)
  moreover have "take (b + Suc lo) ?fb = take (b + lo) fb @ [v lo]"
    using b by (simp add: take_Suc_conv_app_nth)
  moreover have "drop (b + hi) ?fb = drop (b + hi) fb" using lt by simp
  ultimately show ?case using lt b by (simp add: upt_conv_Cons)
qed simp

text \<open>The dot in column \<open>x\<close> of row \<open>y\<close> of glyph \<open>i\<close>.\<close>

definition dot :: "nat \<Rightarrow> u8 list \<Rightarrow> nat \<Rightarrow> nat \<Rightarrow> nat \<Rightarrow> bool" where
  "dot font_h bits i y x =
     (let g = bits ! (i * font_h + y)
      in if x < 8 then bit g (7 - x) else 0xc0 \<le> i \<and> i \<le> 0xdf \<and> bit g 0)"

lemma column_bit:
  assumes "x < 8"
  shows "(g AND drop_bit x 0x80 \<noteq> (0 :: u8)) = bit g (7 - x)"
proof -
  have "x = 0 \<or> x = 1 \<or> x = 2 \<or> x = 3 \<or> x = 4 \<or> x = 5 \<or> x = 6 \<or> x = 7" using assms by auto
  then show ?thesis
    by (elim disjE) (simp_all add: bit_iff_and_push_bit_not_eq_0)
qed

lemma cell_bound: "i < (m :: nat) \<Longrightarrow> y < n \<Longrightarrow> i * n + y < m * n"
proof -
  assume "i < m" "y < n"
  then have "i * n + y < Suc i * n" "Suc i * n \<le> m * n" by (simp_all only: mult_le_mono1 Suc_le_eq) simp
  then show ?thesis by (rule less_le_trans)
qed

lemma expand_row_eq:
  assumes "8 \<le> fw" "i < 256" "y < fh" "256 * fh \<le> length bits" "256 * fh * fw < 2 ^ 62"
    "length fb = 256 * fh * fw"
  shows "expand_row fh fw bits i y fb =
    Some (take ((i * fh + y) * fw) fb @ map (dot fh bits i y) [0..<fw] @ drop (Suc (i * fh + y) * fw) fb)"
proof -
  have r: "i * fh + y < 256 * fh" using assms(2,3) by (rule cell_bound)
  then have "Suc (i * fh + y) * fw \<le> 256 * fh * fw" by (intro mult_le_mono1) simp
  then have le: "(i * fh + y) * fw + fw \<le> 256 * fh * fw" by simp
  then have small: "i * fh * fw + y * fw + fw < 2 ^ 62"
    using assms(5) by (simp add: add_mult_distrib)
  have "256 * fh \<le> 256 * fh * fw" using assms(1) by simp
  then have "i * fh + y < 2 ^ 62" using r assms(5) by linarith
  then have sz: "sz_mul i fh = i * fh" "sz_add (i * fh) y = i * fh + y"
    "sz_mul (i * fh) fw = i * fh * fw" "sz_mul y fw = y * fw"
    "sz_add (i * fh * fw) (y * fw) = i * fh * fw + y * fw"
    and add: "\<And>x. x < fw \<Longrightarrow> sz_add (i * fh * fw + y * fw) x = (i * fh + y) * fw + x"
    using small r assms(1,3) by (simp_all add: sz_simps SZ_def add_mult_distrib)
  let ?g = "bits ! (i * fh + y)" and ?b = "(i * fh + y) * fw"
  have "ofold (\<lambda>x fb. aset fb (sz_add (sz_add (sz_mul (sz_mul i fh) fw) (sz_mul y fw)) x)
         (?g AND drop_bit x 0x80 \<noteq> 0)) [0..<8] fb
     = ofold (\<lambda>x fb. aset fb (?b + x) (dot fh bits i y x)) [0..<8] fb"
    using assms(1) by (intro ofold_cong_set) (auto simp: sz add column_bit dot_def Let_def)
  also have "\<dots> = Some (take ?b fb @ map (dot fh bits i y) [0..<8] @ drop (?b + 8) fb)"
    using fill_block [of 0 8 ?b fb] assms(1,6) le by simp
  finally have 1: "ofold (\<lambda>x fb. aset fb (sz_add (sz_add (sz_mul (sz_mul i fh) fw) (sz_mul y fw)) x)
         (?g AND drop_bit x 0x80 \<noteq> 0)) [0..<8] fb
     = Some (take ?b fb @ map (dot fh bits i y) [0..<8] @ drop (?b + 8) fb)" .
  let ?fb = "take ?b fb @ map (dot fh bits i y) [0..<8] @ drop (?b + 8) fb"
  have bfw: "?b + fw \<le> length fb" unfolding assms(6) by (rule le)
  with add_left_mono [OF assms(1)] have b8: "?b + 8 \<le> length fb" by (rule order_trans)
  then have len: "length ?fb = length fb" "?b + 8 \<le> length fb" "?b \<le> length fb" by simp_all
  have g1: "(?g AND 1 \<noteq> 0) = bit ?g 0" by (simp add: bit_0 and_one_eq odd_iff_mod_2_eq_one)
  have "ofold (\<lambda>x fb. aset fb (sz_add (sz_add (sz_mul (sz_mul i fh) fw) (sz_mul y fw)) x)
         (if 0xc0 \<le> i \<and> i \<le> 0xdf then ?g AND 1 \<noteq> 0 else False)) [8..<fw] ?fb
     = ofold (\<lambda>x fb. aset fb (?b + x) (dot fh bits i y x)) [8..<fw] ?fb"
    by (intro ofold_cong_set) (auto simp: sz add g1 dot_def Let_def)
  also have "\<dots> = Some (take (?b + 8) ?fb @ map (dot fh bits i y) [8..<fw] @ drop (?b + fw) ?fb)"
    by (rule fill_block [OF assms(1)]) (unfold len(1), rule bfw)
  also have "take (?b + 8) ?fb = take ?b fb @ map (dot fh bits i y) [0..<8]" using len by simp
  also have "drop (?b + fw) ?fb = drop (?b + fw) fb" using len assms(1) by (simp add: add.commute)
  finally have 2: "ofold (\<lambda>x fb. aset fb (sz_add (sz_add (sz_mul (sz_mul i fh) fw) (sz_mul y fw)) x)
         (if 0xc0 \<le> i \<and> i \<le> 0xdf then ?g AND 1 \<noteq> 0 else False)) [8..<fw] ?fb
     = Some (take ?b fb @ (map (dot fh bits i y) [0..<8] @ map (dot fh bits i y) [8..<fw]) @ drop (?b + fw) fb)"
    by simp
  have 3: "map (dot fh bits i y) [0..<8] @ map (dot fh bits i y) [8..<fw] = map (dot fh bits i y) [0..<fw]"
    using upt_add_eq_append [of 0 8 "fw - 8"] assms(1) by (simp flip: map_append)
  have get: "aget bits (sz_add (sz_mul i fh) y) = Some ?g" using r assms(4) sz(1,2) by simp
  have "?b + fw = Suc (i * fh + y) * fw" by simp
  then show ?thesis
    unfolding expand_row_def get bind.bind_lunit 1 2 3 by (simp add: add.commute)
qed

text \<open>The whole table, dot by dot.\<close>

definition dots :: "nat \<Rightarrow> nat \<Rightarrow> u8 list \<Rightarrow> nat \<Rightarrow> bool" where
  "dots fh fw bits j = dot fh bits (j div fw div fh) (j div fw mod fh) (j mod fw)"

lemma dots_row:
  assumes "y < fh"
  shows "map (dot fh bits i y) [0..<fw] = map (dots fh fw bits) [(i * fh + y) * fw..<Suc (i * fh + y) * fw]"
proof (rule nth_equalityI)
  fix x
  assume "x < length (map (dot fh bits i y) [0..<fw])"
  then have x: "x < fw" by simp
  then have "((i * fh + y) * fw + x) div fw = i * fh + y" "((i * fh + y) * fw + x) mod fw = x" by simp_all
  then show "map (dot fh bits i y) [0..<fw] ! x
      = map (dots fh fw bits) [(i * fh + y) * fw..<Suc (i * fh + y) * fw] ! x"
    using x assms by (simp add: dots_def)
qed simp

text \<open>The rows before row \<open>n\<close> of the table are done.\<close>

definition expanded :: "nat \<Rightarrow> nat \<Rightarrow> u8 list \<Rightarrow> bool list \<Rightarrow> nat \<Rightarrow> bool list" where
  "expanded fh fw bits fb n = map (dots fh fw bits) [0..<n * fw] @ drop (n * fw) fb"

lemma expand_step:
  assumes "8 \<le> fw" "i < 256" "y < fh" "256 * fh \<le> length bits" "256 * fh * fw < 2 ^ 62"
    "length fb = 256 * fh * fw"
  shows "expand_row fh fw bits i y (expanded fh fw bits fb (i * fh + y))
    = Some (expanded fh fw bits fb (Suc (i * fh + y)))"
proof -
  let ?n = "i * fh + y"
  have "?n < 256 * fh" using assms(2,3) by (rule cell_bound)
  then have "Suc ?n * fw \<le> 256 * fh * fw" by (intro mult_le_mono1) simp
  then have le: "?n * fw + fw \<le> length fb" unfolding assms(6) by simp
  let ?fb = "expanded fh fw bits fb ?n"
  have len: "length ?fb = length fb" using le unfolding expanded_def by simp
  have "take (?n * fw) ?fb = map (dots fh fw bits) [0..<?n * fw]" by (simp add: expanded_def)
  moreover have "drop (Suc ?n * fw) ?fb = drop (Suc ?n * fw) fb"
    unfolding expanded_def using le by (simp add: add.commute)
  moreover have "[0..<?n * fw] @ [?n * fw..<Suc ?n * fw] = [0..<Suc ?n * fw]"
    using upt_add_eq_append [of 0 "?n * fw" fw] by (simp add: add.commute)
  ultimately show ?thesis
    using expand_row_eq [OF assms(1-5), of ?fb] len assms(6)
    unfolding dots_row [OF assms(3)] expanded_def [of _ _ _ _ "Suc ?n"]
    by (simp only: flip: append_assoc map_append)
qed

lemma expand_glyph:
  assumes "8 \<le> fw" "i < 256" "256 * fh \<le> length bits" "256 * fh * fw < 2 ^ 62"
    "length fb = 256 * fh * fw" "n \<le> fh"
  shows "ofold (\<lambda>y fb. expand_row fh fw bits i y fb) [0..<n] (expanded fh fw bits fb (i * fh))
    = Some (expanded fh fw bits fb (i * fh + n))"
  using assms(6)
proof (induction n)
  case (Suc n)
  then show ?case using expand_step [OF assms(1,2) _ assms(3-5), of n] by (simp add: ofold_append)
qed simp

lemma expand_font_eq:
  assumes "8 \<le> fw" "256 * fh \<le> length bits" "256 * fh * fw < 2 ^ 62" "length fb = 256 * fh * fw"
  shows "expand_font fh fw bits fb = Some (map (dots fh fw bits) [0..<256 * fh * fw])"
proof -
  have "ofold (\<lambda>i fb. ofold (\<lambda>y fb. expand_row fh fw bits i y fb) [0..<fh] fb) [0..<m]
      (expanded fh fw bits fb 0) = Some (expanded fh fw bits fb (m * fh))" if "m \<le> 256" for m
    using that
  proof (induction m)
    case (Suc m)
    then show ?case
      using expand_glyph [OF assms(1) _ assms(2-4) order.refl, of m] by (simp add: ofold_append add.commute)
  qed (simp add: expanded_def)
  from this [of 256] show ?thesis using assms(4) by (simp add: expand_font_def expanded_def)
qed

section \<open>The parameters a terminal can be built from\<close>

definition font_fits :: "nat \<Rightarrow> nat \<Rightarrow> nat \<Rightarrow> u8 list \<Rightarrow> bool" where
  "font_fits fw fh spacing f \<longleftrightarrow> 8 \<le> fw \<and> 0 < fh \<and> fh \<le> 256 \<and> fw + spacing < 2 ^ 31 \<and>
     fw * fh * 32 \<le> length f"

definition frame_fits :: "fb_args \<Rightarrow> nat \<Rightarrow> nat \<Rightarrow> bool" where
  "frame_fits a font_w font_h \<longleftrightarrow> 0 < a_font_scale_x a \<and> 0 < a_font_scale_y a \<and>
     2 * a_margin a + font_w * a_font_scale_x a \<le> a_width a \<and>
     2 * a_margin a + font_h * a_font_scale_y a \<le> a_height a \<and>
     a_width a \<le> a_pitch a div 4 \<and> a_width a * a_height a < 2 ^ 31 \<and>
     length (a_framebuffer a) = a_height a * (a_pitch a div 4) \<and> length (a_framebuffer a) < 2 ^ 62"

definition arrays_fit :: "fb_args \<Rightarrow> bool" where
  "arrays_fit a \<longleftrightarrow>
     (case a_canvas a of None \<Rightarrow> True | Some cs \<Rightarrow> a_width a * a_height a \<le> length cs) \<and>
     (case a_ansi_colours a of None \<Rightarrow> True | Some cs \<Rightarrow> 8 \<le> length cs) \<and>
     (case a_ansi_bright_colours a of None \<Rightarrow> True | Some cs \<Rightarrow> 8 \<le> length cs)"

definition fb_fits :: "fb_args \<Rightarrow> bool" where
  "fb_fits a = (case init_font a of (fw, fh, spacing, f) \<Rightarrow>
     font_fits fw fh spacing f \<and> frame_fits a (fw + spacing) fh \<and> arrays_fit a)"

definition fb_cols :: "fb_args \<Rightarrow> nat" where
  "fb_cols a = (case init_font a of (fw, fh, spacing, f) \<Rightarrow>
     (a_width a - 2 * a_margin a) div ((fw + spacing) * a_font_scale_x a))"

definition fb_rows :: "fb_args \<Rightarrow> nat" where
  "fb_rows a = (case init_font a of (fw, fh, spacing, f) \<Rightarrow>
     (a_height a - 2 * a_margin a) div (fh * a_font_scale_y a))"

text \<open>The bytes the terminal takes from the pool.\<close>

definition fb_bytes :: "fb_args \<Rightarrow> nat" where
  "fb_bytes a = (case init_font a of (fw, fh, spacing, f) \<Rightarrow>
     SIZEOF_CONTEXT + fw * fh * 32 + 256 * fh * (fw + spacing)
     + fb_rows a * fb_cols a * (SIZEOF_CHAR + SIZEOF_QUEUE_ITEM + SIZEOF_POINTER)
     + a_width a * a_height a * 4)"

lemma allocating_eq:
  assumes "p + n < SZ"
  shows "allocating orig n p k =
    (if p + n \<le> BUMP_ALLOC_POOL_SIZE then k (p + n) else Some (orig, None))"
  using assms by (simp add: allocating_def bump_alloc_def sz_simps)

text \<open>The state \<open>flanterm_context_reinit\<close> leaves is a terminal.\<close>

definition start_ok :: "ctx \<Rightarrow> bool" where
  "start_ok c \<longleftrightarrow> draw_ok c \<and> queue_i c = 0 \<and> cursor_x c = old_cursor_x c \<and>
     cursor_y c = old_cursor_y c \<and> length (esc_values c) = 16 \<and> length (charsets c) = 2 \<and>
     saved_state_current_charset c < 2 \<and>
     length (ansi_colours c) = 8 \<and> length (ansi_bright_colours c) = 8 \<and>
     palette_index (saved_state_current_primary c) \<and> palette_index (saved_state_current_bg c)"

lemma start_terminal:
  assumes "start_ok c"
  shows "\<exists>d c'. flanterm_context_reinit c = Some d \<and> flanterm_fb_full_refresh d = Some c' \<and>
    term_wf c' \<and> text_mode c' \<and> ground c' \<and> autoflush c' \<and> scroll_enabled c' \<and> screen c' = screen c \<and>
    oob_output c' = 16 \<and> scroll_bottom_margin c' = rows c \<and> scroll_top_margin c' = 0 \<and> dframe d c' \<and>
    cursor_x c' = cursor_x c \<and> cursor_y c' = cursor_y c \<and> rows c' = rows c \<and> cols c' = cols c \<and> flushed c'"
proof -
  from assms have ok: "draw_ok c" and q: "queue_i c = 0"
    and cur: "cursor_x c = old_cursor_x c" "cursor_y c = old_cursor_y c"
    and cs: "length (charsets c) = 2" by (simp_all add: start_ok_def)
  from cs obtain d where d: "flanterm_context_reinit c = Some d"
    unfolding flanterm_context_reinit_def by simp
  then have d_eq: "d = c\<lparr>tab_size := 8, autoflush := True, cursor_enabled := True,
       scroll_enabled := True, control_sequence := False, csi := False, escape := False,
       osc := False, osc_escape := False, rrr := False, discard_next := False, bold := False,
       bg_bold := False, reverse_video := False, dec_private := False, insert_mode := False,
       unicode_remaining := 0, g_select := 0,
       charsets := (charsets c)[0 := 0, 1 := 1], current_charset := 0, escape_offset := 0, esc_values_i := 0,
       saved_cursor_x := 0, saved_cursor_y := 0, current_primary := SZ_MAX, current_bg := SZ_MAX,
       scroll_top_margin := 0, scroll_bottom_margin := rows c, oob_output := 16\<rparr>"
    using cs unfolding flanterm_context_reinit_def by simp
  have sel: "queue_i d = 0" "cursor_x d = old_cursor_x d" "cursor_y d = old_cursor_y d"
    "cursor_enabled d" "rows d = rows c" "cols d = cols c" "grid d = grid c" "queue d = queue c" "fb_map d = fb_map c"
    "cursor_x d = cursor_x c" "cursor_y d = cursor_y c"
    using q cur unfolding d_eq by simp_all
  have "draw_ok d = draw_ok c" unfolding d_eq
    by (simp add: draw_ok_def draw_wf_def pending_wf_def geom_wf_def glyphs_ok_def q_off_def)
  with ok have "draw_ok d" by simp
  from full_refresh_ok [OF this] sel obtain c' where c': "flanterm_fb_full_refresh d = Some c'"
    "draw_ok c'" "screen c' = screen d" "dframe d c'" "queue_i c' = 0"
    "old_cursor_x c' = old_cursor_x d" "old_cursor_y c' = old_cursor_y d"
    "shown_except c' {(old_cursor_x d, old_cursor_y d)}" by auto
  have scr: "screen d = screen c" by (rule fb_wf_cong) (simp_all add: sel q)
  have "fb_wf c'" using c'(2,5) by (auto simp: fb_wf_def queue_wf_def draw_ok_def pending_wf_def)
  then have "drawn c'" using c' by (simp add: drawn_def draw_ok_def)
  moreover have "0 < rows c" using ok by (simp add: draw_ok_def pending_wf_def geom_wf_def)
  then have "margins_wf d" "parser_wf d" "palette_wf d" using assms unfolding d_eq
    by (simp_all add: margins_wf_def parser_wf_def palette_wf_def start_ok_def palette_index_def)
  moreover have "margins_wf c' = margins_wf d" "parser_wf c' = parser_wf d" "palette_wf c' = palette_wf d"
    by (rule dframe_sel [OF c'(4)],
        simp add: margins_wf_def parser_wf_def palette_wf_def forget_draw_def)+
  ultimately have "term_wf c'" by (simp add: term_wf_def)
  moreover have "text_mode c' = text_mode d" "ground c' = ground d" "autoflush c' = autoflush d"
    "scroll_enabled c' = scroll_enabled d" "oob_output c' = oob_output d"
    "scroll_bottom_margin c' = scroll_bottom_margin d" "scroll_top_margin c' = scroll_top_margin d"
    by (rule dframe_sel [OF c'(4)], simp add: forget_draw_def text_mode_def ground_def)+
  moreover have "text_mode d" "ground d" "autoflush d" "scroll_enabled d" "oob_output d = 16"
    "scroll_bottom_margin d = rows c" "scroll_top_margin d = 0"
    using cs unfolding d_eq by (simp_all add: text_mode_def ground_def)
  ultimately show ?thesis
    using d c' scr sel dframe_geom [OF c'(4)] by (auto simp: flushed_def)
qed

text \<open>The arrays of the cells are the ones a terminal starts with.\<close>

lemma start_ok_arrays:
  fixes cv
  defines "d c \<equiv> (init_map (init_queue (init_grid c)))\<lparr>canvas := cv\<rparr>"
  assumes "draw_wf (c\<lparr>canvas := cv\<rparr>)" "0 < cols c" "0 < rows c" "rows c * cols c < 2 ^ 31"
    and "cursor_x c = old_cursor_x c" "cursor_y c = old_cursor_y c" "length (esc_values c) = 16"
    and "length (charsets c) = 2" "saved_state_current_charset c < 2"
    and "length (ansi_colours c) = 8" "length (ansi_bright_colours c) = 8"
    and "palette_index (saved_state_current_primary c)" "palette_index (saved_state_current_bg c)"
  shows "start_ok (d c)"
    and "screen (d c) = replicate (rows c * cols c) \<lparr>char_c = 0x20, char_fg = text_fg c, char_bg = text_bg c\<rparr>"
proof -
  have n: "sz_mul (rows c) (cols c) = rows c * cols c" using assms(5) by (simp add: sz_simps SZ_def)
  have "draw_wf (d c) = draw_wf (c\<lparr>canvas := cv\<rparr>)"
    by (simp add: d_def draw_wf_def init_map_def init_queue_def init_grid_def)
  then have "draw_ok (d c)" using assms(2-5)
    by (simp add: d_def draw_ok_def pending_wf_def geom_wf_def glyphs_ok_def glyph_ok_def
        init_map_def init_queue_def init_grid_def n)
  then show "start_ok (d c)" using assms(6-)
    by (simp add: start_ok_def d_def init_map_def init_queue_def init_grid_def)
  show "screen (d c) = replicate (rows c * cols c) \<lparr>char_c = 0x20, char_fg = text_fg c, char_bg = text_bg c\<rparr>"
    by (rule nth_equalityI)
      (simp_all add: d_def cell_at_def init_map_def init_queue_def init_grid_def n)
qed

lemma init_canvas_ok:
  assumes "arrays_fit a" "a_width a * a_height a < 2 ^ 31"
  shows "\<exists>cv. init_canvas a bg = Some cv \<and> length cv = a_width a * a_height a"
  using assms by (auto simp: init_canvas_def arrays_fit_def copy_in_def sz_simps SZ_def split: option.splits)

lemma init_colours_ok:
  assumes "arrays_fit a"
  shows "\<exists>ansi bright bg fg bg' fg'. length ansi = 8 \<and> length bright = 8 \<and>
    init_colours a zero_context = Some (zero_context\<lparr>ansi_colours := ansi, ansi_bright_colours := bright,
       default_bg := bg, default_fg := fg, default_bg_bright := bg', default_fg_bright := fg',
       text_fg := fg, text_bg := 0xffffffff, framebuffer := a_framebuffer a,
       fb_width := a_width a, fb_height := a_height a, fb_pitch := a_pitch a\<rparr>) \<and>
    fg = (case a_default_fg a of Some v \<Rightarrow> v | None \<Rightarrow> 0xaaaaaa)"
proof -
  obtain ansi bright where
    "(case a_ansi_colours a of Some cs \<Rightarrow> copy_in 8 cs | None \<Rightarrow> Some default_ansi_colours) = Some ansi"
    "(case a_ansi_bright_colours a of Some cs \<Rightarrow> copy_in 8 cs | None \<Rightarrow> Some default_ansi_bright_colours) = Some bright"
    "length ansi = 8" "length bright = 8"
    using assms by (auto simp: arrays_fit_def copy_in_def default_ansi_colours_def
        default_ansi_bright_colours_def split: option.splits)
  moreover from this(1,2) have "init_colours a zero_context = Some (zero_context\<lparr>ansi_colours := ansi,
       ansi_bright_colours := bright,
       default_bg := case a_default_bg a of Some v \<Rightarrow> v | None \<Rightarrow> 0x00000000,
       default_fg := case a_default_fg a of Some v \<Rightarrow> v | None \<Rightarrow> 0x00aaaaaa,
       default_bg_bright := case a_default_bg_bright a of Some v \<Rightarrow> v | None \<Rightarrow> 0x00555555,
       default_fg_bright := case a_default_fg_bright a of Some v \<Rightarrow> v | None \<Rightarrow> 0x00ffffff,
       text_fg := case a_default_fg a of Some v \<Rightarrow> v | None \<Rightarrow> 0x00aaaaaa, text_bg := 0xffffffff,
       framebuffer := a_framebuffer a, fb_width := a_width a, fb_height := a_height a,
       fb_pitch := a_pitch a\<rparr>)"
    by (simp add: init_colours_def Let_def)
  ultimately show ?thesis by blast
qed

lemma init_geometry_ok:
  assumes "frame_fits a fw fh" "0 < fw" "0 < fh"
  shows "init_geometry a fw fh c = Some (c\<lparr>font_scale_x := a_font_scale_x a,
      font_scale_y := a_font_scale_y a, glyph_width := fw * a_font_scale_x a,
      glyph_height := fh * a_font_scale_y a,
      cols := (a_width a - 2 * a_margin a) div (fw * a_font_scale_x a),
      rows := (a_height a - 2 * a_margin a) div (fh * a_font_scale_y a),
      offset_x := a_margin a + (a_width a - 2 * a_margin a) mod (fw * a_font_scale_x a) div 2,
      offset_y := a_margin a + (a_height a - 2 * a_margin a) mod (fh * a_font_scale_y a) div 2\<rparr>)"
proof -
  note fits = assms(1) [unfolded frame_fits_def]
  have gpos: "0 < fw * a_font_scale_x a" "0 < fh * a_font_scale_y a" using fits assms(2,3) by simp_all
  then have w: "0 < a_width a" "0 < a_height a" using fits by linarith+
  then have "a_width a * 1 \<le> a_width a * a_height a" "1 * a_height a \<le> a_width a * a_height a"
    by (intro mult_le_mono; simp)+
  then have wh: "a_width a < 2 ^ 31" "a_height a < 2 ^ 31" using fits by linarith+
  then have sz: "sz_mul fw (a_font_scale_x a) = fw * a_font_scale_x a"
    "sz_mul fh (a_font_scale_y a) = fh * a_font_scale_y a" "sz_mul (a_margin a) 2 = 2 * a_margin a"
    "sz_sub (a_width a) (2 * a_margin a) = a_width a - 2 * a_margin a"
    "sz_sub (a_height a) (2 * a_margin a) = a_height a - 2 * a_margin a"
    using fits by (simp_all add: sz_simps SZ_def)
  have "(a_width a - 2 * a_margin a) mod (fw * a_font_scale_x a) div 2 \<le> a_width a"
    "(a_height a - 2 * a_margin a) mod (fh * a_font_scale_y a) div 2 \<le> a_height a"
    by (meson div_le_dividend mod_less_eq_dividend diff_le_self le_trans)+
  moreover have "a_margin a \<le> a_width a" using fits by linarith
  ultimately have "sz_add (a_margin a) ((a_width a - 2 * a_margin a) mod (fw * a_font_scale_x a) div 2)
      = a_margin a + (a_width a - 2 * a_margin a) mod (fw * a_font_scale_x a) div 2"
    "sz_add (a_margin a) ((a_height a - 2 * a_margin a) mod (fh * a_font_scale_y a) div 2)
      = a_margin a + (a_height a - 2 * a_margin a) mod (fh * a_font_scale_y a) div 2"
    using wh by (simp_all add: sz_simps SZ_def)
  then show ?thesis using gpos by (simp add: init_geometry_def sz Let_def)
qed

text \<open>The columns of cells with their offset stay within the frame.\<close>

lemma centred:
  fixes w g m :: nat
  assumes "2 * m + g \<le> w" "0 < g"
  shows "m + (w - 2 * m) mod g div 2 + (w - 2 * m) div g * g \<le> w" "0 < (w - 2 * m) div g"
    "(w - 2 * m) div g \<le> w div g"
proof -
  have "(w - 2 * m) mod g div 2 \<le> (w - 2 * m) mod g" by simp
  moreover have "(w - 2 * m) div g * g + (w - 2 * m) mod g = w - 2 * m" by simp
  ultimately show "m + (w - 2 * m) mod g div 2 + (w - 2 * m) div g * g \<le> w" using assms by linarith
  show "0 < (w - 2 * m) div g" using assms by (simp add: div_greater_zero_iff)
  show "(w - 2 * m) div g \<le> w div g" by (rule div_le_mono) simp
qed

section \<open>The terminal the call returns\<close>

text \<open>The frame buffer a terminal draws to, in pixels and bytes.\<close>

definition surface :: "ctx \<Rightarrow> nat \<times> nat \<times> nat" where
  "surface c = (fb_width c, fb_height c, fb_pitch c)"

definition fresh_terminal :: "ctx \<Rightarrow> bool" where
  "fresh_terminal c \<longleftrightarrow> term_wf c \<and> text_mode c \<and> ground c \<and> autoflush c \<and> scroll_enabled c \<and>
     oob_output c = 16 \<and> scroll_top_margin c = 0 \<and> scroll_bottom_margin c = rows c \<and>
     cursor_x c = 0 \<and> cursor_y c = 0 \<and> flushed c \<and>
     screen c = replicate (rows c * cols c) \<lparr>char_c = 0x20, char_fg = text_fg c, char_bg = text_bg c\<rparr>"

lemma start_fresh:
  assumes "start_ok c" "cursor_x c = 0" "cursor_y c = 0"
    and "screen c = replicate (rows c * cols c) \<lparr>char_c = 0x20, char_fg = text_fg c, char_bg = text_bg c\<rparr>"
  shows "\<exists>d c'. flanterm_context_reinit c = Some d \<and> flanterm_fb_full_refresh d = Some c' \<and>
    fresh_terminal c' \<and> rows c' = rows c \<and> cols c' = cols c \<and> text_fg c' = text_fg c \<and>
    text_bg c' = text_bg c \<and> font_bool c' = font_bool c \<and> surface c' = surface c"
proof -
  from start_terminal [OF assms(1)] obtain d c' where d: "flanterm_context_reinit c = Some d"
    "flanterm_fb_full_refresh d = Some c'" "dframe d c'" and rest: "term_wf c'" "text_mode c'" "ground c'"
    "autoflush c'" "scroll_enabled c'" "screen c' = screen c" "oob_output c' = 16"
    "scroll_bottom_margin c' = rows c" "scroll_top_margin c' = 0" "cursor_x c' = cursor_x c"
    "cursor_y c' = cursor_y c" "rows c' = rows c" "cols c' = cols c" "flushed c'" by blast
  have "text_fg d = text_fg c" "text_bg d = text_bg c" "font_bool d = font_bool c" "surface d = surface c"
    using d(1) unfolding flanterm_context_reinit_def Let_def surface_def by (auto split: bind_splits)
  moreover have "text_fg c' = text_fg d" "text_bg c' = text_bg d" "font_bool c' = font_bool d" "surface c' = surface d"
    by (rule dframe_sel [OF d(3)], simp add: forget_draw_def surface_def)+
  ultimately show ?thesis using d(1,2) rest assms(2-4) by (simp add: fresh_terminal_def)
qed

lemma start_arrays_ok:
  fixes a ctx
  defines "n \<equiv> rows ctx * cols ctx" and "wh \<equiv> a_width a * a_height a"
  assumes fits: "arrays_fit a" "wh < 2 ^ 31" "n < 2 ^ 31" "0 < rows ctx" "0 < cols ctx"
    and wf: "\<And>cv. length cv = wh \<Longrightarrow> draw_wf (ctx\<lparr>canvas := cv\<rparr>)"
    and zero: "cursor_x ctx = 0" "cursor_y ctx = 0" "old_cursor_x ctx = 0" "old_cursor_y ctx = 0"
    "length (esc_values ctx) = 16" "length (charsets ctx) = 2" "saved_state_current_charset ctx < 2"
    "length (ansi_colours ctx) = 8" "length (ansi_bright_colours ctx) = 8"
    "palette_index (saved_state_current_primary ctx)" "palette_index (saved_state_current_bg ctx)"
  shows "\<exists>c'. start_arrays a ctx = Some c' \<and> fresh_terminal c' \<and>
      rows c' = rows ctx \<and> cols c' = cols ctx \<and> text_fg c' = text_fg ctx \<and> text_bg c' = text_bg ctx \<and>
      font_bool c' = font_bool ctx \<and> surface c' = surface ctx"
proof -
  obtain cv where cv: "init_canvas a (default_bg ctx) = Some cv" "length cv = wh"
    using init_canvas_ok [OF fits(1)] fits(2) unfolding wh_def by blast
  let ?c = "(init_map (init_queue (init_grid ctx)))\<lparr>canvas := cv\<rparr>"
  have sel: "cursor_x ?c = 0" "cursor_y ?c = 0" "rows ?c = rows ctx" "cols ?c = cols ctx"
    "text_fg ?c = text_fg ctx" "text_bg ?c = text_bg ctx" "font_bool ?c = font_bool ctx" "surface ?c = surface ctx"
    using zero by (simp_all add: init_map_def init_queue_def init_grid_def surface_def)
  have st: "start_ok ?c"
    "screen ?c = replicate n \<lparr>char_c = 0x20, char_fg = text_fg ctx, char_bg = text_bg ctx\<rparr>"
    using start_ok_arrays [OF wf [OF cv(2)]] fits zero unfolding n_def by simp_all
  from start_fresh [OF st(1)] st(2) obtain d c' where "flanterm_context_reinit ?c = Some d"
    "flanterm_fb_full_refresh d = Some c'" "fresh_terminal c'" "rows c' = rows ctx" "cols c' = cols ctx"
    "text_fg c' = text_fg ctx" "text_bg c' = text_bg ctx" "font_bool c' = font_bool ctx" "surface c' = surface ctx"
    unfolding sel n_def by auto
  then show ?thesis using cv(1) by (simp add: start_arrays_def)
qed

lemma init_arrays_eq:
  fixes a ctx
  defines "n \<equiv> rows ctx * cols ctx" and "wh \<equiv> a_width a * a_height a"
  assumes fits: "wh < 2 ^ 31" "n < 2 ^ 31" and start: "start_arrays a ctx = Some c'"
    and p: "p \<le> BUMP_ALLOC_POOL_SIZE"
  shows "init_arrays orig a ctx p = (if p + n * 52 + wh * 4 \<le> BUMP_ALLOC_POOL_SIZE
    then Some (p + n * 52 + wh * 4, Some c') else Some (orig, None))"
proof -
  have sz0: "sz_mul n 12 = n * 12" "sz_mul n 32 = n * 32" "sz_mul n 8 = n * 8" "sz_mul wh 4 = wh * 4"
    using fits by (simp_all add: sz_simps SZ_def)
  have "sz_mul (rows ctx) (cols ctx) = n" "sz_mul (a_width a) (a_height a) = wh"
    using fits by (simp_all add: n_def wh_def sz_simps SZ_def)
  note sz = this sz0
  define q1 q2 q3 q4 where q: "q1 = p + n * 12" "q2 = q1 + n * 32" "q3 = q2 + n * 8" "q4 = q3 + wh * 4"
  have "q4 < SZ" "q1 \<le> q2" "q2 \<le> q3" "q3 \<le> q4" and q4: "q4 = p + n * 52 + wh * 4"
    using fits p by (simp_all add: q BUMP_ALLOC_POOL_SIZE_def SZ_def)
  then have alloc: "allocating orig (n * 12) p k = (if q1 \<le> BUMP_ALLOC_POOL_SIZE then k q1 else Some (orig, None))"
    "allocating orig (n * 32) q1 k = (if q2 \<le> BUMP_ALLOC_POOL_SIZE then k q2 else Some (orig, None))"
    "allocating orig (n * 8) q2 k = (if q3 \<le> BUMP_ALLOC_POOL_SIZE then k q3 else Some (orig, None))"
    "allocating orig (wh * 4) q3 k = (if q4 \<le> BUMP_ALLOC_POOL_SIZE then k q4 else Some (orig, None))"
    and mono: "q4 \<le> BUMP_ALLOC_POOL_SIZE \<Longrightarrow> q1 \<le> BUMP_ALLOC_POOL_SIZE \<and> q2 \<le> BUMP_ALLOC_POOL_SIZE \<and> q3 \<le> BUMP_ALLOC_POOL_SIZE"
    for k using allocating_eq by (auto simp: q)
  show ?thesis
    unfolding q4 [symmetric] init_arrays_def SIZEOF_CHAR_def SIZEOF_QUEUE_ITEM_def SIZEOF_POINTER_def
    using mono by (auto simp: sz alloc start Let_def)
qed

text \<open>
  Parameters that fit: every step of the call between the requests for memory succeeds, and the last
  one returns the terminal.
\<close>

lemma build_ok:
  assumes "fb_fits a" "init_font a = (fw, fh, spacing, f)"
  defines "w \<equiv> fw + spacing" and "bits \<equiv> take (fw * fh * 32) f" and "tot \<equiv> 256 * fh * (fw + spacing)"
  shows "FONT_BYTES fw fh = fw * fh * 32" "sz_add fw spacing = w" "sz_mul (sz_mul 256 fh) w = tot"
    "fw * fh < 2 ^ 40" "tot < 2 ^ 48" "copy_in (fw * fh * 32) f = Some bits"
    "expand_font fh w bits (replicate tot False) = Some (map (dots fh w bits) [0..<tot])"
    "a_width a * a_height a < 2 ^ 31" "fb_rows a * fb_cols a < 2 ^ 31"
    "\<exists>c0 c2 c. init_colours a zero_context = Some c0 \<and>
      init_geometry a w fh (c0\<lparr>font_width := w, font_height := fh, font_bits := bits,
        font_bool := map (dots fh w bits) [0..<tot]\<rparr>) = Some c2 \<and> rows c2 = fb_rows a \<and> cols c2 = fb_cols a \<and>
      start_arrays a c2 = Some c \<and> fresh_terminal c \<and> rows c = fb_rows a \<and> cols c = fb_cols a \<and>
      text_bg c = 0xffffffff \<and> text_fg c = (case a_default_fg a of Some v \<Rightarrow> v | None \<Rightarrow> 0xaaaaaa) \<and>
      font_bool c = map (dots fh w bits) [0..<tot] \<and> surface c = (a_width a, a_height a, a_pitch a)"
proof -
  have font: "font_fits fw fh spacing f" and frame: "frame_fits a w fh" and arr: "arrays_fit a"
    using assms(1,2) by (simp_all add: fb_fits_def w_def)
  note ff = font [unfolded font_fits_def, folded w_def] and fr = frame [unfolded frame_fits_def]
  let ?n = "fb_rows a * fb_cols a" and ?wh = "a_width a * a_height a"
  have fw31: "fw < 2 ^ 31" "w < 2 ^ 31" and "0 < w" using ff by (simp_all add: w_def)
  have prod: "fw * fh \<le> 2 ^ 31 * 256" "fh * w \<le> 256 * 2 ^ 31"
    using ff fw31 by (intro mult_le_mono; simp)+
  then show "fw * fh < 2 ^ 40" "tot < 2 ^ 48" by (simp_all add: tot_def mult.assoc flip: w_def)
  have "sz_mul fw fh = fw * fh" using prod by (simp add: sz_simps SZ_def)
  moreover have "fw * fh * 256 < SZ" using mult_le_mono1 [OF prod(1), of 256] by (simp add: SZ_def)
  then have "sz_mul (fw * fh) 256 = fw * fh * 256" by (rule sz_mul_id)
  ultimately show "FONT_BYTES fw fh = fw * fh * 32" by (simp add: FONT_BYTES_def)
  have "sz_mul 256 fh = 256 * fh" using ff by (simp add: sz_simps SZ_def)
  moreover have "256 * fh * w < SZ" using prod by (simp add: SZ_def mult.assoc)
  ultimately show "sz_mul (sz_mul 256 fh) w = tot" by (simp add: sz_simps tot_def flip: w_def)
  show "sz_add fw spacing = w" using fw31 by (simp add: sz_simps SZ_def w_def)
  show "copy_in (fw * fh * 32) f = Some bits" using ff by (simp add: copy_in_def bits_def)
  have "256 * fh \<le> fw * fh * 32" using ff mult_le_mono1 [of 8 fw "fh * 32"] by simp
  then show "expand_font fh w bits (replicate tot False) = Some (map (dots fh w bits) [0..<tot])"
    unfolding tot_def w_def [symmetric]
    using ff prod by (intro expand_font_eq) (simp_all add: mult.assoc bits_def w_def)
  define g h where g: "g = w * a_font_scale_x a" and h: "h = fh * a_font_scale_y a"
  have gpos: "0 < g" "0 < h" and mg: "2 * a_margin a + g \<le> a_width a" "2 * a_margin a + h \<le> a_height a"
    using fr ff by (simp_all add: g h w_def)
  note cx = centred [OF mg(1) gpos(1)] and cy = centred [OF mg(2) gpos(2)]
  have cells: "fb_cols a = (a_width a - 2 * a_margin a) div g" "fb_rows a = (a_height a - 2 * a_margin a) div h"
    by (simp_all add: fb_cols_def fb_rows_def assms(2) g h w_def)
  show wh31: "?wh < 2 ^ 31" using fr by simp
  have "fb_rows a \<le> a_height a" "fb_cols a \<le> a_width a"
    unfolding cells by (meson div_le_dividend diff_le_self le_trans)+
  then have "?n \<le> a_height a * a_width a" by (rule mult_le_mono)
  then show n31: "?n < 2 ^ 31" using fr by (simp add: mult.commute)
  let ?fb = "map (dots fh w bits) [0..<tot]"
  from init_colours_ok [OF arr] obtain ansi bright bg fg bg' fg' where col:
    "length ansi = 8" "length bright = 8"
    "init_colours a zero_context = Some (zero_context\<lparr>ansi_colours := ansi, ansi_bright_colours := bright,
       default_bg := bg, default_fg := fg, default_bg_bright := bg', default_fg_bright := fg',
       text_fg := fg, text_bg := 0xffffffff, framebuffer := a_framebuffer a,
       fb_width := a_width a, fb_height := a_height a, fb_pitch := a_pitch a\<rparr>)"
    "fg = (case a_default_fg a of Some v \<Rightarrow> v | None \<Rightarrow> 0xaaaaaa)" by blast
  define c1 where "c1 = zero_context\<lparr>ansi_colours := ansi, ansi_bright_colours := bright,
       default_bg := bg, default_fg := fg, default_bg_bright := bg', default_fg_bright := fg',
       text_fg := fg, text_bg := 0xffffffff, framebuffer := a_framebuffer a,
       fb_width := a_width a, fb_height := a_height a, fb_pitch := a_pitch a,
       font_width := w, font_height := fh, font_bits := bits, font_bool := ?fb\<rparr>"
  obtain c2 where c2: "init_geometry a w fh c1 = Some c2" and c2_eq: "c2 = c1\<lparr>font_scale_x := a_font_scale_x a,
      font_scale_y := a_font_scale_y a, glyph_width := w * a_font_scale_x a,
      glyph_height := fh * a_font_scale_y a, cols := fb_cols a, rows := fb_rows a,
      offset_x := a_margin a + (a_width a - 2 * a_margin a) mod (w * a_font_scale_x a) div 2,
      offset_y := a_margin a + (a_height a - 2 * a_margin a) mod (fh * a_font_scale_y a) div 2\<rparr>"
    using init_geometry_ok [OF frame, of c1] ff by (simp add: fb_cols_def fb_rows_def assms(2) w_def)
  have wf: "draw_wf (c2\<lparr>canvas := cv\<rparr>)" if "length cv = ?wh" for cv
    using that ff fr prod cx(1) cy(1) \<open>0 < w\<close>
    by (simp add: draw_wf_def c2_eq c1_def tot_def w_def [symmetric] flip: g h cells)
  have sel: "rows c2 = fb_rows a" "cols c2 = fb_cols a" "cursor_x c2 = 0" "cursor_y c2 = 0"
    "old_cursor_x c2 = 0" "old_cursor_y c2 = 0" "length (esc_values c2) = 16" "length (charsets c2) = 2"
    "length (ansi_colours c2) = 8" "length (ansi_bright_colours c2) = 8"
    "text_fg c2 = fg" "text_bg c2 = 0xffffffff" "font_bool c2 = ?fb" "surface c2 = (a_width a, a_height a, a_pitch a)"
    and saved: "saved_state_current_charset c2 < 2" "palette_index (saved_state_current_primary c2)"
    "palette_index (saved_state_current_bg c2)"
    using col(1,2) by (simp_all add: c2_eq c1_def zero_context_def palette_index_def surface_def)
  have "0 < fb_rows a" "0 < fb_cols a" using cx(2) cy(2) unfolding cells by simp_all
  then obtain c where c: "start_arrays a c2 = Some c" "fresh_terminal c" "rows c = fb_rows a" "cols c = fb_cols a"
    "text_fg c = fg" "text_bg c = 0xffffffff" "font_bool c = ?fb" "surface c = (a_width a, a_height a, a_pitch a)"
    using start_arrays_ok [of a c2, OF arr wh31 _ _ _ wf] n31 saved unfolding sel by auto
  show "\<exists>c0 c2 c. init_colours a zero_context = Some c0 \<and>
      init_geometry a w fh (c0\<lparr>font_width := w, font_height := fh, font_bits := bits,
        font_bool := map (dots fh w bits) [0..<tot]\<rparr>) = Some c2 \<and> rows c2 = fb_rows a \<and> cols c2 = fb_cols a \<and>
      start_arrays a c2 = Some c \<and> fresh_terminal c \<and> rows c = fb_rows a \<and> cols c = fb_cols a \<and>
      text_bg c = 0xffffffff \<and> text_fg c = (case a_default_fg a of Some v \<Rightarrow> v | None \<Rightarrow> 0xaaaaaa) \<and>
      font_bool c = map (dots fh w bits) [0..<tot] \<and> surface c = (a_width a, a_height a, a_pitch a)"
    using c2 [unfolded c1_def] c col(3,4) sel(1,2)
    by (intro exI conjI; assumption?) (simp_all only: )
qed

lemma flanterm_fb_init_eq:
  assumes "fb_fits a" "p \<le> BUMP_ALLOC_POOL_SIZE" "init_font a = (fw, fh, spacing, f)"
  shows "if p + fb_bytes a \<le> BUMP_ALLOC_POOL_SIZE
    then \<exists>c. flanterm_fb_init p a = Some (p + fb_bytes a, Some c) \<and> fresh_terminal c \<and>
      rows c = fb_rows a \<and> cols c = fb_cols a \<and> text_bg c = 0xffffffff \<and>
      text_fg c = (case a_default_fg a of Some v \<Rightarrow> v | None \<Rightarrow> 0xaaaaaa) \<and>
      font_bool c = map (dots fh (fw + spacing) (take (fw * fh * 32) f)) [0..<256 * fh * (fw + spacing)] \<and>
      surface c = (a_width a, a_height a, a_pitch a)
    else flanterm_fb_init p a = Some (p, None)"
proof -
  note b = build_ok [OF assms(1,3)]
  from b(10) obtain c0 c2 c where c0: "init_colours a zero_context = Some c0"
    and c2: "init_geometry a (fw + spacing) fh (c0\<lparr>font_width := fw + spacing, font_height := fh,
      font_bits := take (fw * fh * 32) f, font_bool := map (dots fh (fw + spacing) (take (fw * fh * 32) f))
        [0..<256 * fh * (fw + spacing)]\<rparr>) = Some c2" "rows c2 = fb_rows a" "cols c2 = fb_cols a"
    and c: "start_arrays a c2 = Some c" "fresh_terminal c" "rows c = fb_rows a" "cols c = fb_cols a"
    "text_bg c = 0xffffffff" "text_fg c = (case a_default_fg a of Some v \<Rightarrow> v | None \<Rightarrow> 0xaaaaaa)"
    "font_bool c = map (dots fh (fw + spacing) (take (fw * fh * 32) f)) [0..<256 * fh * (fw + spacing)]"
    "surface c = (a_width a, a_height a, a_pitch a)" by blast
  let ?n = "fb_rows a * fb_cols a" and ?wh = "a_width a * a_height a"
  define p1 p2 p3 where q: "p1 = p + SIZEOF_CONTEXT" "p2 = p1 + fw * fh * 32" "p3 = p2 + 256 * fh * (fw + spacing)"
  have "p3 < SZ" "p1 \<le> p2" "p2 \<le> p3"
    using b(4,5) assms(2) by (simp_all add: q BUMP_ALLOC_POOL_SIZE_def SZ_def SIZEOF_CONTEXT_def)
  then have alloc: "allocating p SIZEOF_CONTEXT p k = (if p1 \<le> BUMP_ALLOC_POOL_SIZE then k p1 else Some (p, None))"
    "allocating p (fw * fh * 32) p1 k = (if p2 \<le> BUMP_ALLOC_POOL_SIZE then k p2 else Some (p, None))"
    "allocating p (256 * fh * (fw + spacing)) p2 k = (if p3 \<le> BUMP_ALLOC_POOL_SIZE then k p3 else Some (p, None))"
    and mono: "p3 \<le> BUMP_ALLOC_POOL_SIZE \<Longrightarrow> p1 \<le> BUMP_ALLOC_POOL_SIZE \<and> p2 \<le> BUMP_ALLOC_POOL_SIZE"
    for k using allocating_eq by (auto simp: q)
  have call: "flanterm_fb_init p a =
      (if p3 \<le> BUMP_ALLOC_POOL_SIZE then init_arrays p a c2 p3 else Some (p, None))"
    using mono by (auto simp: flanterm_fb_init_def alloc c0 assms(3) b(1-3,6,7) c2(1) Let_def)
  have bytes: "p + fb_bytes a = p3 + ?n * 52 + ?wh * 4"
    by (simp add: fb_bytes_def assms(3) q SIZEOF_CHAR_def SIZEOF_QUEUE_ITEM_def SIZEOF_POINTER_def)
  show ?thesis
  proof (cases "p3 \<le> BUMP_ALLOC_POOL_SIZE")
    case True
    have "init_arrays p a c2 p3 = (if p3 + ?n * 52 + ?wh * 4 \<le> BUMP_ALLOC_POOL_SIZE
        then Some (p3 + ?n * 52 + ?wh * 4, Some c) else Some (p, None))"
      using init_arrays_eq [of a c2 c p3 p, OF b(8) _ c(1) True] b(9) unfolding c2(2,3) by simp
    then show ?thesis using True c(2-8) by (simp add: call bytes)
  next
    case False
    then show ?thesis by (simp add: call bytes)
  qed
qed

text \<open>
  C11: a terminal from any parameters that fit. When the pool has the bytes for it, the call
  returns a terminal with every invariant the other operations need, in the ground state, of
  the computed size, blank in the default colours, its font expanded dot by dot; when the pool
  has not, the call returns \<open>NULL\<close> and gives back what it took.
\<close>

theorem init_terminal:
  assumes "fb_fits a" "p \<le> BUMP_ALLOC_POOL_SIZE" "init_font a = (fw, fh, spacing, f)"
  shows "if p + fb_bytes a \<le> BUMP_ALLOC_POOL_SIZE
    then \<exists>c. flanterm_fb_init p a = Some (p + fb_bytes a, Some c) \<and> fresh_terminal c \<and>
      rows c = fb_rows a \<and> cols c = fb_cols a \<and> text_bg c = 0xffffffff \<and>
      text_fg c = (case a_default_fg a of Some v \<Rightarrow> v | None \<Rightarrow> 0xaaaaaa) \<and>
      font_bool c = map (dots fh (fw + spacing) (take (fw * fh * 32) f)) [0..<256 * fh * (fw + spacing)] \<and>
      surface c = (a_width a, a_height a, a_pitch a)
    else flanterm_fb_init p a = Some (p, None)"
  by (rule flanterm_fb_init_eq [OF assms])

text \<open>The call of the kernel: no font, no palette, no canvas, scale one and no margin.\<close>

definition plain_args :: "u32 list \<Rightarrow> nat \<Rightarrow> nat \<Rightarrow> nat \<Rightarrow> fb_args" where
  "plain_args fb w h pitch = \<lparr>
     a_framebuffer = fb, a_width = w, a_height = h, a_pitch = pitch, a_canvas = None,
     a_ansi_colours = None, a_ansi_bright_colours = None, a_default_bg = None, a_default_fg = None,
     a_default_bg_bright = None, a_default_fg_bright = None, a_font = None, a_font_width = 0,
     a_font_height = 0, a_font_spacing = 1, a_font_scale_x = 1, a_font_scale_y = 1, a_margin = 0\<rparr>"

lemma plain_args_font: "init_font (plain_args fb w h pitch) = (8, 16, 1, builtin_font)"
  by (simp add: init_font_def plain_args_def)

lemma plain_args_fits:
  assumes "9 \<le> w" "16 \<le> h" "w \<le> pitch div 4" "w * h < 2 ^ 31" "length fb = h * (pitch div 4)"
    "length fb < 2 ^ 62"
  shows "fb_fits (plain_args fb w h pitch)" "fb_rows (plain_args fb w h pitch) = h div 16"
    "fb_cols (plain_args fb w h pitch) = w div 9"
    "fb_bytes (plain_args fb w h pitch) = 41744 + (h div 16) * (w div 9) * 52 + w * h * 4"
  using assms
  by (simp_all add: fb_fits_def plain_args_font font_fits_def frame_fits_def arrays_fit_def
      length_builtin_font fb_rows_def fb_cols_def fb_bytes_def SIZEOF_CONTEXT_def SIZEOF_CHAR_def
      SIZEOF_QUEUE_ITEM_def SIZEOF_POINTER_def) (simp_all add: plain_args_def)

theorem init_terminal_witness:
  "\<exists>c. flanterm_fb_init 0 (plain_args (replicate 576 0) 18 32 72) = Some (44256, Some c) \<and>
     fresh_terminal c \<and> rows c = 2 \<and> cols c = 2"
proof -
  let ?a = "plain_args (replicate 576 0) 18 32 72"
  have fits: "fb_fits ?a" and r: "fb_rows ?a = 2" "fb_cols ?a = 2" and b: "fb_bytes ?a = 44256"
    using plain_args_fits [of 18 32 72 "replicate 576 0"] by simp_all
  have "0 + fb_bytes ?a \<le> BUMP_ALLOC_POOL_SIZE" by (simp add: b BUMP_ALLOC_POOL_SIZE_def)
  with init_terminal [OF fits le0 plain_args_font] show ?thesis by (auto simp: r b)
qed

end
