(* ===== verification/KString.thy ===== *)
theory KString
  imports Deer_Prelude
begin

text \<open>
  The freestanding C library of \<open>kernel/kernel.c\<close>: \<open>memcpy\<close>, \<open>memset\<close>,
  \<open>memmove\<close>, \<open>memcmp\<close> and \<open>strlen\<close>. Memory is one object of bytes and a pointer is
  an offset into it, so that overlapping arguments are visible; an access outside the object is
  a fault. The functions that write return the new memory, the pointer they return being their
  argument.
\<close>

section \<open>Operations\<close>

definition copy_byte :: "nat \<Rightarrow> nat \<Rightarrow> nat \<Rightarrow> u8 list \<Rightarrow> fault + u8 list" where
  "copy_byte pdest psrc i m = ebind (eget m (psrc + i)) (\<lambda>b. eset m (pdest + i) b)"

definition memcpy :: "u8 list \<Rightarrow> nat \<Rightarrow> nat \<Rightarrow> nat \<Rightarrow> fault + u8 list" where
  "memcpy m dest src n = efold (copy_byte dest src) [0..<n] m"

definition memset :: "u8 list \<Rightarrow> nat \<Rightarrow> int \<Rightarrow> nat \<Rightarrow> fault + u8 list" where
  "memset m s c n = efold (\<lambda>i m. eset m (s + i) (word_of_int c)) [0..<n] m"

text \<open>The loop \<open>for (i = n; i > 0; i--)\<close> uses the index \<open>i - 1\<close>.\<close>

definition memmove :: "u8 list \<Rightarrow> nat \<Rightarrow> nat \<Rightarrow> nat \<Rightarrow> fault + u8 list" where
  "memmove m dest src n =
     (if src > dest then efold (copy_byte dest src) [0..<n] m
      else if src < dest then efold (copy_byte dest src) (rev [0..<n]) m
      else Inr m)"

function memcmp_loop :: "u8 list \<Rightarrow> nat \<Rightarrow> nat \<Rightarrow> nat \<Rightarrow> nat \<Rightarrow> fault + int" where
  "memcmp_loop m p1 p2 n i =
     (if i < n then
        ebind (eget m (p1 + i)) (\<lambda>a. ebind (eget m (p2 + i)) (\<lambda>b.
          if a \<noteq> b then Inr (if a < b then -1 else 1) else memcmp_loop m p1 p2 n (Suc i)))
      else Inr 0)"
  by auto
termination by (relation "measure (\<lambda>(m, p1, p2, n, i). n - i)") auto

declare memcmp_loop.simps [simp del]

definition memcmp :: "u8 list \<Rightarrow> nat \<Rightarrow> nat \<Rightarrow> nat \<Rightarrow> fault + int" where
  "memcmp m s1 s2 n = memcmp_loop m s1 s2 n 0"

text \<open>\<open>while (str[i]) ++i;\<close> - the scan ends at the end of the object at the latest.\<close>

function scan :: "u8 list \<Rightarrow> nat \<Rightarrow> fault + nat" where
  "scan str i =
     (if i < length str then if str ! i \<noteq> 0 then scan str (Suc i) else Inr i else Inl OutOfBounds)"
  by auto
termination by (relation "measure (\<lambda>(str, i). length str - i)") auto

declare scan.simps [simp del]

definition strlen :: "u8 list \<Rightarrow> fault + nat" where
  "strlen str = scan str 0"

section \<open>Copies\<close>

text \<open>The memory with \<open>bs\<close> written at \<open>d\<close>.\<close>

definition blit :: "nat \<Rightarrow> 'a list \<Rightarrow> 'a list \<Rightarrow> 'a list" where
  "blit d bs m = take d m @ bs @ drop (d + length bs) m"

definition block :: "nat \<Rightarrow> nat \<Rightarrow> 'a list \<Rightarrow> 'a list" where
  "block s n m = take n (drop s m)"

lemma length_block [simp]: "s + n \<le> length m \<Longrightarrow> length (block s n m) = n"
  by (simp add: block_def)

lemma length_blit [simp]: "d + length bs \<le> length m \<Longrightarrow> length (blit d bs m) = length m"
  by (simp add: blit_def)

lemma block_blit_same [simp]: "d + length bs \<le> length m \<Longrightarrow> n = length bs \<Longrightarrow> block d n (blit d bs m) = bs"
  by (simp add: block_def blit_def)

lemma nth_blit:
  "d + length bs \<le> length m \<Longrightarrow> i < length m \<Longrightarrow>
   blit d bs m ! i = (if d \<le> i \<and> i < d + length bs then bs ! (i - d) else m ! i)"
  by (auto simp: blit_def nth_append)

lemma nth_block: "s + n \<le> length m \<Longrightarrow> i < n \<Longrightarrow> block s n m ! i = m ! (s + i)"
  by (simp add: block_def)

lemma block_blit_other:
  assumes "d + length bs \<le> length m" "s + n \<le> length m" "s + n \<le> d \<or> d + length bs \<le> s"
  shows "block s n (blit d bs m) = block s n m"
  by (rule nth_equalityI) (use assms in \<open>auto simp: nth_block nth_blit\<close>)

lemma blit_snoc:
  assumes "d + length bs < length m"
  shows "(blit d bs m)[d + length bs := v] = blit d (bs @ [v]) m"
  by (rule nth_equalityI) (use assms in \<open>auto simp: nth_blit nth_append nth_list_update\<close>)

lemma blit_Cons:
  assumes "d < length m" "Suc d + length bs \<le> length m"
  shows "(blit (Suc d) bs m)[d := v] = blit d (v # bs) m"
  by (rule nth_equalityI) (use assms in \<open>auto simp: nth_blit nth_Cons' nth_list_update\<close>)

lemma blit_block_same: "s + n \<le> length m \<Longrightarrow> blit s (block s n m) m = m"
  by (rule nth_equalityI) (auto simp: nth_blit nth_block)

lemma blit_nil [simp]: "blit d [] m = m"
  by (simp add: blit_def)

lemma block_Suc: "s + n < length m \<Longrightarrow> block s (Suc n) m = block s n m @ [m ! (s + n)]"
  by (simp add: block_def take_Suc_conv_app_nth)

lemma copy_byte_in [simp]:
  "psrc + i < length m \<Longrightarrow> pdest + i < length m \<Longrightarrow> copy_byte pdest psrc i m = Inr (m[pdest + i := m ! (psrc + i)])"
  by (simp add: copy_byte_def)

lemma copy_forwards:
  assumes "s + n \<le> length m" "d + n \<le> length m" "d \<le> s \<or> s + n \<le> d"
  shows "efold (copy_byte d s) [0..<n] m = Inr (blit d (block s n m) m)"
  using assms
proof (induction n)
  case (Suc n)
  let ?m = "blit d (block s n m) m"
  have "?m ! (s + n) = m ! (s + n)" using Suc.prems by (subst nth_blit) auto
  moreover have "d \<le> s \<or> s + n \<le> d" using Suc.prems(3) by auto
  ultimately show ?case using Suc blit_snoc [of d "block s n m" m]
    by (simp add: efold_append block_Suc)
qed (simp add: block_def)

lemma copy_backwards:
  assumes "s + n \<le> length m" "d + n \<le> length m" "s \<le> d"
  shows "efold (copy_byte d s) (rev [0..<n]) m = Inr (blit d (block s n m) m)"
proof -
  have "efold (copy_byte d s) (rev [0..<k]) (blit (d + k) (block (s + k) (n - k) m) m)
      = Inr (blit d (block s n m) m)" if "k \<le> n" for k
    using that
  proof (induction k)
    case (Suc k)
    let ?m = "blit (d + Suc k) (block (s + Suc k) (n - Suc k) m) m"
    have "?m ! (s + k) = m ! (s + k)" using assms Suc.prems by (subst nth_blit) auto
    moreover have "block (s + k) (n - k) m = m ! (s + k) # block (s + Suc k) (n - Suc k) m"
      using assms Suc.prems by (simp add: block_def take_Cons' nth_drop_Cons)
    ultimately show ?case
      using Suc assms blit_Cons [of "d + k" m "block (s + Suc k) (n - Suc k) m"]
      by simp
  qed simp
  from this [of n] show ?thesis by (simp add: block_def)
qed

section \<open>The contract of the copying functions\<close>

text \<open>
  What a caller of \<open>memcpy\<close> relies on: between blocks of the memory that do not overlap,
  the bytes are copied and nothing else changes.
\<close>

locale block_copy =
  fixes copy :: "u8 list \<Rightarrow> nat \<Rightarrow> nat \<Rightarrow> nat \<Rightarrow> fault + u8 list"
  assumes copies: "s + n \<le> length m \<Longrightarrow> d + n \<le> length m \<Longrightarrow> s + n \<le> d \<or> d + n \<le> s \<Longrightarrow>
    copy m d s n = Inr (blit d (block s n m) m)"
begin

lemma copied:
  assumes "s + n \<le> length m" "d + n \<le> length m" "s + n \<le> d \<or> d + n \<le> s"
  shows "\<exists>m'. copy m d s n = Inr m' \<and> length m' = length m \<and> block d n m' = block s n m \<and>
    (\<forall>i < length m. i < d \<or> d + n \<le> i \<longrightarrow> m' ! i = m ! i)"
  using copies [OF assms] assms by (auto simp: nth_blit)

text \<open>A block saved elsewhere can be restored after anything was written over it.\<close>

lemma save_restore:
  assumes "s + n \<le> length m" "d + n \<le> length m" "s + n \<le> d \<or> d + n \<le> s" "length bs = n"
  shows "\<exists>m'. copy m d s n = Inr m' \<and>
    copy (blit s bs m') s d n = Inr (blit d (block s n m) m)"
proof -
  let ?m = "blit d (block s n m) m"
  have sep: "d + n \<le> s \<or> s + n \<le> d" using assms(3) by blast
  have len: "length ?m = length m" "length (blit s bs ?m) = length m" using assms by simp_all
  have "block d n (blit s bs ?m) = block s n m"
    using assms sep len(1) by (subst block_blit_other) auto
  moreover have "blit s (block s n m) (blit s bs ?m) = ?m"
    by (rule nth_equalityI) (use assms in \<open>auto simp: nth_blit nth_block\<close>)
  ultimately have "copy (blit s bs ?m) s d n = Inr ?m"
    using copies [of d n "blit s bs ?m" s] assms(1,2) sep len(2) by simp
  then show ?thesis using copies [OF assms(1-3)] by blast
qed

end

interpretation cpy: block_copy memcpy
  by unfold_locales (auto simp: memcpy_def intro: copy_forwards)

lemma memmove_eq:
  assumes "s + n \<le> length m" "d + n \<le> length m"
  shows "memmove m d s n = Inr (blit d (block s n m) m)"
  using copy_forwards [OF assms] copy_backwards [OF assms] blit_block_same [OF assms(1)]
  by (auto simp: memmove_def)

interpretation mv: block_copy memmove
  by unfold_locales (rule memmove_eq)

section \<open>Scans\<close>

lemma scan_eq:
  "scan str i = (case List.find (\<lambda>k. str ! k = 0) [i..<length str] of
     Some k \<Rightarrow> Inr k | None \<Rightarrow> Inl OutOfBounds)"
proof (induction str i rule: scan.induct)
  case (1 str i)
  then show ?case by (subst scan.simps) (auto simp: upt_conv_Cons split: if_splits)
qed

lemma scan_append:
  assumes "0 \<notin> set pre" "i \<le> length pre"
  shows "scan (pre @ 0 # post) i = Inr (length pre)"
  using assms
proof (induction "length pre - i" arbitrary: i)
  case 0
  then have "i = length pre" by simp
  then show ?case by (simp add: scan.simps [of _ "length pre"])
next
  case (Suc n)
  then have "pre ! i \<noteq> 0" by (metis nth_mem zero_less_diff zero_less_Suc)
  then show ?case using Suc by (simp add: scan.simps [of _ i] nth_append)
qed

lemma scan_out:
  assumes "0 \<notin> set str" "i \<le> length str"
  shows "scan str i = Inl OutOfBounds"
  using assms
proof (induction "length str - i" arbitrary: i)
  case (Suc n)
  then have "str ! i \<noteq> 0" by (metis nth_mem zero_less_diff zero_less_Suc)
  then show ?case using Suc by (simp add: scan.simps [of _ i])
qed (simp add: scan.simps)

lemma memcmp_loop_spec:
  assumes "p1 + n \<le> length m" "p2 + n \<le> length m" "i \<le> n" "block p1 i m = block p2 i m"
  shows "memcmp_loop m p1 p2 n i = Inr
    (if block p1 n m = block p2 n m then 0
     else if (block p1 n m, block p2 n m) \<in> lexord {(a, b). a < b} then -1 else 1)"
  using assms(3,4)
proof (induction "n - i" arbitrary: i)
  case 0
  then show ?case by (simp add: memcmp_loop.simps)
next
  case (Suc k)
  then have i: "i < n" by simp
  let ?a = "m ! (p1 + i)" and ?b = "m ! (p2 + i)"
  have split: "block p n m = block p i m @ m ! (p + i) # block (p + Suc i) (n - Suc i) m"
    if "p + n \<le> length m" for p
  proof -
    have "block p n m = block p i m @ block (p + i) (n - i) m"
      using i take_add [of i "n - i" "drop p m"] by (simp add: block_def add.commute)
    moreover have "block (p + i) (n - i) m = m ! (p + i) # block (p + Suc i) (n - Suc i) m"
      using i that by (simp add: block_def take_Cons' nth_drop_Cons)
    ultimately show ?thesis by simp
  qed
  have step: "memcmp_loop m p1 p2 n i =
      (if ?a \<noteq> ?b then Inr (if ?a < ?b then -1 else 1) else memcmp_loop m p1 p2 n (Suc i))"
    using i assms(1,2) by (subst memcmp_loop.simps) simp
  show ?case
  proof (cases "?a = ?b")
    case True
    then have "block p1 (Suc i) m = block p2 (Suc i) m"
      using Suc.prems(2) assms(1,2) i by (simp add: block_Suc)
    then show ?thesis using Suc.hyps(1) [of "Suc i"] Suc.hyps(2) i True by (simp add: step)
  next
    case False
    have "(block p1 n m, block p2 n m) \<in> lexord {(a, b). a < b} \<longleftrightarrow> ?a < ?b"
      unfolding split [OF assms(1)] split [OF assms(2)] Suc.prems(2)
      using False by (subst lexord_same_pref_iff) auto
    then show ?thesis using False split [OF assms(1)] split [OF assms(2)] Suc.prems(2) by (simp add: step)
  qed
qed

lemma memset_eq:
  assumes "s + n \<le> length m"
  shows "memset m s c n = Inr (blit s (replicate n (word_of_int c)) m)"
  using assms
proof (induction n)
  case (Suc n)
  then show ?case using blit_snoc [of s "replicate n (word_of_int c)" m]
    by (simp add: memset_def efold_append replicate_append_same)
qed (simp add: memset_def)

section \<open>Properties\<close>

text \<open>
  C38: \<open>memmove\<close> copies correctly whatever the overlap: every byte of the destination is the
  byte the source held before the call, and no other byte of the memory changes.
\<close>

theorem memmove_copies:
  assumes "s + n \<le> length m" "d + n \<le> length m"
  shows "\<exists>m'. memmove m d s n = Inr m' \<and> length m' = length m \<and>
    (\<forall>i < length m. m' ! i = (if d \<le> i \<and> i < d + n then m ! (s + (i - d)) else m ! i))"
  using memmove_eq [OF assms] assms by (auto simp: nth_blit nth_block)

theorem memmove_copies_witness:
  "\<exists>m'. memmove [1, 2, 3, 4, 5] 1 0 3 = Inr m' \<and> m' ! 1 = 1 \<and> m' ! 3 = 3 \<and> m' ! 4 = 5"
proof -
  from memmove_copies [of 0 3 "[1, 2, 3, 4, 5]" 1] obtain m' where
    "memmove [1, 2, 3, 4, 5] 1 0 3 = Inr m'" and
    m: "\<forall>i < 5. m' ! i = (if 1 \<le> i \<and> i < 4 then [1, 2, 3, 4, 5] ! (i - 1) else [1, 2, 3, 4, 5] ! i)"
    by auto
  then show ?thesis using m [rule_format, of 1] m [rule_format, of 3] m [rule_format, of 4] by simp
qed

text \<open>
  \<open>memcmp\<close> is the three-way lexicographic comparison of the two blocks as unsigned bytes.
\<close>

theorem memcmp_orders:
  assumes "p1 + n \<le> length m" "p2 + n \<le> length m"
  shows "memcmp m p1 p2 n = Inr
    (if block p1 n m = block p2 n m then 0
     else if (block p1 n m, block p2 n m) \<in> lexord {(a, b). a < b} then -1 else 1)"
  unfolding memcmp_def by (rule memcmp_loop_spec [OF assms]) (simp_all add: block_def)

theorem memcmp_orders_witness: "memcmp [1, 2, 0xff, 1, 2, 3] 0 3 3 = Inr 1"
  using memcmp_orders [of 0 3 "[1, 2, 0xff, 1, 2, 3]" 3] by (simp add: block_def)

text \<open>
  \<open>strlen\<close> returns the position of the first zero byte, and runs out of the object exactly
  when there is none.
\<close>

theorem strlen_first_zero:
  "strlen str = (if 0 \<in> set str then Inr (length (takeWhile (\<lambda>b. b \<noteq> 0) str)) else Inl OutOfBounds)"
proof (cases "0 \<in> set str")
  case True
  then obtain pre post where "str = pre @ 0 # post" "0 \<notin> set pre"
    using split_list_first by force
  moreover from this have "takeWhile (\<lambda>b. b \<noteq> 0) str = pre"
    using takeWhile_append2 [of pre "\<lambda>b. b \<noteq> 0" "0 # post"] by fastforce
  ultimately show ?thesis by (simp add: strlen_def scan_append)
qed (simp add: strlen_def scan_out)

end
