(* ===== verification/Print.thy ===== *)
theory Print
  imports FB_Init KString
begin

text \<open>
  The console of the kernel, \<open>kernel/sys/print.c\<close>: \<open>print\<close> builds the terminal on
  the first frame buffer the boot loader offers when it is first called, and writes a
  zero-terminated string to it. The state is the three static variables \<open>framebuffer2\<close>,
  \<open>context\<close> and the fill level of the pool of \<open>fb.c\<close>. The pixels of a frame buffer are
  in its record until the terminal takes them over.
\<close>

section \<open>Operations\<close>

record limine_framebuffer =
  address :: "u32 list"
  fb_w :: nat
  fb_h :: nat
  pitch :: nat
  bpp :: nat

record console =
  framebuffer2 :: "limine_framebuffer option"
  con_context :: "ctx option"
  con_pool :: nat

definition strlen2 :: "u8 list \<Rightarrow> fault + nat" where
  "strlen2 str = scan str 0"

text \<open>The first use of the frame buffer: \<open>response->framebuffers[0]\<close>.\<close>

definition find_framebuffer :: "limine_framebuffer list option \<Rightarrow> console \<Rightarrow> fault + console" where
  "find_framebuffer response con =
     (case framebuffer2 con of
        None \<Rightarrow> ebind (deref response) (\<lambda>fbs. ebind (eget fbs 0) (\<lambda>f.
          Inr (con\<lparr>framebuffer2 := Some f\<rparr>)))
      | Some _ \<Rightarrow> Inr con)"

definition make_context :: "console \<Rightarrow> fault + console" where
  "make_context con =
     (case con_context con of
        None \<Rightarrow> ebind (deref (framebuffer2 con)) (\<lambda>f.
          ebind (of_opt (flanterm_fb_init (con_pool con)
                   (plain_args (address f) (fb_w f) (fb_h f) (pitch f)))) (\<lambda>(p, r).
          ebind (deref r) (\<lambda>c.
            Inr (con\<lparr>con_context := Some (c\<lparr>cursor_enabled := False\<rparr>), con_pool := p\<rparr>))))
      | Some _ \<Rightarrow> Inr con)"

definition print :: "limine_framebuffer list option \<Rightarrow> console \<Rightarrow> u8 list \<Rightarrow> fault + console" where
  "print response con str =
     ebind (find_framebuffer response con) (\<lambda>con.
     ebind (make_context con) (\<lambda>con.
     ebind (deref (con_context con)) (\<lambda>c.
     ebind (strlen2 str) (\<lambda>n.
     ebind (of_opt (flanterm_write c (take n str))) (\<lambda>c.
       Inr (con\<lparr>con_context := Some c\<rparr>))))))"

text \<open>A string literal with its terminator.\<close>

definition c_string :: "string \<Rightarrow> u8 list" where
  "c_string s = map of_char s @ [0]"

text \<open>
  The halts of the allocator print their message on the console and stop the machine. The model of
  \<open>mm/pmm.c\<close> carries the message in its fault; here the caller of the allocator goes on with
  \<open>k\<close>, or the machine halts with the console as it is after the message.
\<close>

definition halting :: "limine_framebuffer list option \<Rightarrow> console \<Rightarrow> fault + 'a
    \<Rightarrow> ('a \<Rightarrow> fault + ('b, console) outcome) \<Rightarrow> fault + ('b, console) outcome" where
  "halting response con r k =
     (case r of
        Inl (Halted msg) \<Rightarrow> ebind (print response con (c_string (msg @ ''\<newline>''))) (\<lambda>con. Inr (Halts con))
      | Inl e \<Rightarrow> Inl e
      | Inr x \<Rightarrow> k x)"

lemma halting_simps [simp]:
  "halting response con (Inr x) k = k x"
  "halting response con (Inl (Halted msg)) k
    = ebind (print response con (c_string (msg @ ''\<newline>''))) (\<lambda>con. Inr (Halts con))"
  by (simp_all add: halting_def)

lemma halting_Returns_iff:
  "halting response con r k = Inr (Returns y) \<longleftrightarrow> (\<exists>x. r = Inr x \<and> k x = Inr (Returns y))"
  by (auto simp: halting_def ebind_def split: sum.split fault.split)

lemma c_line: "c_string (s @ [CHR 0x0a]) = map of_char s @ [0x0a, 0]"
  by (simp add: c_string_def)

definition getFramebuffer :: "console \<Rightarrow> limine_framebuffer option" where
  "getFramebuffer con = framebuffer2 con"

definition getContext :: "console \<Rightarrow> ctx option" where
  "getContext con = con_context con"

text \<open>The console before the first call.\<close>

definition boot_console :: console where
  "boot_console = \<lparr>framebuffer2 = None, con_context = None, con_pool = 0\<rparr>"

section \<open>The console as a log of lines\<close>

text \<open>The abstract console: the finished lines on the screen and the line being written.\<close>

type_synonym log = "u8 list list \<times> u8 list"

text \<open>
  The specification of a byte: a line feed finishes the line, and the oldest line goes when the
  screen of \<open>h\<close> rows is full; any other byte is added to the line.
\<close>

definition add_line :: "nat \<Rightarrow> u8 list list \<Rightarrow> u8 list \<Rightarrow> u8 list list" where
  "add_line h ls l = (if Suc (length ls) < h then ls @ [l] else tl (ls @ [l]))"

definition feed :: "nat \<Rightarrow> log \<Rightarrow> u8 \<Rightarrow> log" where
  "feed h lg b = (if b = 0x0a then (add_line h (fst lg) (snd lg), []) else (fst lg, snd lg @ [b]))"

text \<open>Text of printable characters and line feeds, no line of which reaches the width \<open>w\<close>.\<close>

primrec fits :: "nat \<Rightarrow> nat \<Rightarrow> u8 list \<Rightarrow> bool" where
  "fits w n [] = True"
| "fits w n (b # bs) =
     (if b = 0x0a then fits w 0 bs else 0x20 \<le> b \<and> b \<le> 0x7e \<and> Suc n < w \<and> fits w (Suc n) bs)"

text \<open>A row of the screen that shows a line, and the screen that shows lines from its top.\<close>

definition log_row :: "ctx \<Rightarrow> u8 list \<Rightarrow> flanterm_fb_char list" where
  "log_row c l = map (glyph_cell c) l @ replicate (cols c - length l) (empty_char c)"

definition log_screen :: "ctx \<Rightarrow> u8 list list \<Rightarrow> flanterm_fb_char list" where
  "log_screen c ls = concat (map (log_row c) (ls @ replicate (rows c - length ls) []))"

definition shows_log :: "ctx \<Rightarrow> log \<Rightarrow> bool" where
  "shows_log c lg \<longleftrightarrow> length (fst lg) < rows c \<and> (\<forall>l \<in> set (fst lg @ [snd lg]). length l < cols c) \<and>
     screen c = log_screen c (fst lg @ [snd lg]) \<and>
     cursor_x c = length (snd lg) \<and> cursor_y c = length (fst lg)"

text \<open>A terminal that has only been used through \<open>print\<close>.\<close>

definition log_ready :: "ctx \<Rightarrow> bool" where
  "log_ready c \<longleftrightarrow> term_wf c \<and> text_mode c \<and> ground c \<and> autoflush c \<and> oob_output c = 16 \<and>
     scroll_top_margin c = 0 \<and> scroll_bottom_margin c = rows c \<and> rows c \<le> cols c"

lemma length_log_row [simp]: "length l \<le> cols c \<Longrightarrow> length (log_row c l) = cols c"
  by (simp add: log_row_def)

lemma length_log_rows:
  "\<forall>l \<in> set ls. length l \<le> cols c \<Longrightarrow> length (concat (map (log_row c) ls)) = length ls * cols c"
  by (induction ls) simp_all

lemma log_row_nil: "log_row c [] = replicate (cols c) (empty_char c)"
  by (simp add: log_row_def)

text \<open>One more character in the line being written.\<close>

lemma log_overlay:
  assumes "length ls < rows c" "\<forall>l \<in> set ls. length l < cols c" "length l < cols c"
  shows "overlay (length ls * cols c + length l) [glyph_cell c b] (log_screen c (ls @ [l])) =
    log_screen c (ls @ [l @ [b]])"
proof -
  have n: "length (concat (map (log_row c) ls)) = length ls * cols c"
    using assms(2) by (intro length_log_rows) auto
  have "replicate (cols c - length l) (empty_char c)
      = empty_char c # replicate (cols c - Suc (length l)) (empty_char c)"
    using assms(3) by (simp add: Suc_diff_Suc flip: replicate_Suc)
  then show ?thesis by (simp add: overlay_def log_screen_def n) (simp add: log_row_def)
qed

text \<open>Scrolling the whole screen drops the first line.\<close>

lemma log_scroll:
  assumes "Suc (length ls) = rows c" "\<forall>l \<in> set (ls @ [l]). length l < cols c"
  shows "scroll_rows (cols c) 0 (rows c) (empty_char c) (log_screen c (ls @ [l]))
    = log_screen c (tl (ls @ [l]) @ [[]])"
proof -
  obtain k ks where ks: "ls @ [l] = k # ks" by (cases "ls @ [l]") auto
  have len: "length ks = length ls" using arg_cong [OF ks, of length] by simp
  have all: "\<forall>l \<in> set (k # ks). length l < cols c" using assms(2) unfolding ks .
  then have n: "length (concat (map (log_row c) ks)) = length ls * cols c"
    using len by (intro trans [OF length_log_rows]) auto
  have r: "rows c = Suc (length ls)" using assms(1) by simp
  show ?thesis unfolding ks using all n len
    by (simp add: scroll_rows_def log_screen_def log_row_nil r)
qed

text \<open>An empty line at the end is a blank row.\<close>

lemma log_screen_pad: "length ls < rows c \<Longrightarrow> log_screen c (ls @ [[]]) = log_screen c ls"
  by (simp add: log_screen_def Suc_diff_Suc flip: replicate_Suc)

lemma pos_split:
  assumes "x \<le> w" "y * w + x = n * w + k" "k < w" "0 < k"
  shows "x = k" "y = (n :: nat)"
proof -
  have "x < w"
  proof (rule ccontr)
    assume "\<not> x < w"
    then have "Suc y * w = n * w + k" using assms(1,2) by simp
    then have "(n * w + k) mod w = 0" by (metis mod_mult_self2_is_0)
    then show False using assms(3,4) by simp
  qed
  then show "y = n" using assms(2,3) by (metis div_mult_self3 div_less add_0_right mult.commute gr_implies_not0)
  then show "x = k" using assms(2) by simp
qed

text \<open>What stays of the terminal besides the screen and the cursor.\<close>

definition same_terminal :: "ctx \<Rightarrow> ctx \<Rightarrow> bool" where
  "same_terminal c c' \<longleftrightarrow> rows c' = rows c \<and> cols c' = cols c \<and> text_fg c' = text_fg c \<and>
     text_bg c' = text_bg c \<and> cursor_enabled c' = cursor_enabled c \<and>
     surface c' = surface c"

lemma log_row_same: "same_terminal c c' \<Longrightarrow> log_row c' = log_row c"
  by (simp add: same_terminal_def log_row_def glyph_cell_def empty_char_def fun_eq_iff)

lemma log_screen_same: "same_terminal c c' \<Longrightarrow> log_screen c' = log_screen c"
  by (simp add: log_screen_def fun_eq_iff log_row_same) (simp add: same_terminal_def)

lemma cframe_log:
  assumes "cframe c c'"
  shows "same_terminal c c'" "term_wf c' \<Longrightarrow> log_ready c \<Longrightarrow> log_ready c'"
proof -
  have "text_mode c' = text_mode c" "ground c' = ground c" "autoflush c' = autoflush c"
    "oob_output c' = oob_output c" "scroll_top_margin c' = scroll_top_margin c"
    "scroll_bottom_margin c' = scroll_bottom_margin c" "cursor_enabled c' = cursor_enabled c" "surface c' = surface c"
    by (rule cframe_sel [OF assms],
        simp add: forget_cursor_def forget_queue_def text_mode_def ground_def surface_def)+
  then show "same_terminal c c'" "term_wf c' \<Longrightarrow> log_ready c \<Longrightarrow> log_ready c'"
    using cframe_geom [OF assms] by (simp_all add: same_terminal_def log_ready_def)
qed

lemma dframe_log:
  assumes "dframe c c'"
  shows "same_terminal c c'" "term_wf c' \<Longrightarrow> log_ready c \<Longrightarrow> log_ready c'"
proof -
  have "text_mode c' = text_mode c" "ground c' = ground c" "autoflush c' = autoflush c"
    "oob_output c' = oob_output c" "scroll_top_margin c' = scroll_top_margin c"
    "scroll_bottom_margin c' = scroll_bottom_margin c" "text_fg c' = text_fg c" "text_bg c' = text_bg c"
    "surface c' = surface c"
    by (rule dframe_sel [OF assms], simp add: forget_draw_def text_mode_def ground_def surface_def)+
  then show "same_terminal c c'" "term_wf c' \<Longrightarrow> log_ready c \<Longrightarrow> log_ready c'"
    using dframe_geom [OF assms] by (simp_all add: same_terminal_def log_ready_def)
qed

lemma putchar_log_text:
  assumes ready: "log_ready c" and log: "shows_log c lg"
    and b: "printable b" "Suc (length (snd lg)) < cols c"
  shows "\<exists>s. flanterm_putchar c b = Some s \<and> term_wf s \<and> cframe c s \<and> shows_log s (fst lg, snd lg @ [b])"
proof -
  let ?ls = "fst lg" and ?l = "snd lg"
  note r = ready [unfolded log_ready_def] and L = log [unfolded shows_log_def]
  have p: "pos c = length ?ls * cols c + length ?l" using L by (simp add: pos_def)
  have "Suc (length ?ls) * cols c \<le> rows c * cols c" using L by (intro mult_le_mono1) simp
  then have fit: "pos c + length [b] \<le> scroll_bottom_margin c * cols c" using r p b(2) by simp
  from text_laid_out [OF _ _ _ _ _ _ fit] r L b(1) obtain s where
    s: "flanterm_putchar c b = Some s" "term_wf s" "cframe c s" "cursor_x s \<le> cols c"
    "screen s = overlay (pos c) [glyph_cell c b] (screen c)" "pos s = pos c + 1" by auto
  have same: "same_terminal c s" using cframe_log(1) [OF s(3)] .
  then have dims: "cols s = cols c" "rows s = rows c" by (simp_all add: same_terminal_def)
  have "cursor_y s * cols c + cursor_x s = length ?ls * cols c + Suc (length ?l)"
    using s(6) p dims by (simp add: pos_def)
  from pos_split [OF s(4) this b(2)] have "cursor_x s = Suc (length ?l)" "cursor_y s = length ?ls"
    by simp_all
  moreover have "screen s = log_screen s (?ls @ [?l @ [b]])"
    using s(5) p log_overlay [of ?ls c ?l b] L by (simp add: log_screen_same [OF same])
  ultimately show ?thesis using s(1-3) L b(2) dims by (simp add: shows_log_def)
qed

lemma putchar_log_feed:
  assumes ready: "log_ready c" and log: "shows_log c lg"
  shows "\<exists>s. flanterm_putchar c 0x0a = Some s \<and> term_wf s \<and> cframe c s \<and>
    shows_log s (add_line (rows c) (fst lg) (snd lg), [])"
proof -
  let ?ls = "fst lg" and ?l = "snd lg"
  note r = ready [unfolded log_ready_def] and L = log [unfolded shows_log_def]
  from line_feed_ok [of c] r L obtain t where t: "flanterm_putchar c 0x0a = Some t"
    "cframe c t" "cursor_x t = 0"
    "cursor_y t = (if Suc (length ?ls) = rows c then length ?ls else min (Suc (length ?ls)) (rows c - 1))"
    "screen t = (if Suc (length ?ls) = rows c
      then scroll_rows (cols c) 0 (rows c) (empty_char c) (screen c) else screen c)" by auto
  have wt: "term_wf t" using flanterm_putchar_ok [of c "0x0a"] r t(1) by simp
  have same: "same_terminal c t" using cframe_log(1) [OF t(2)] .
  then have dims: "cols t = cols c" "rows t = rows c" by (simp_all add: same_terminal_def)
  have "0 < cols c" using L by (cases "cols c") auto
  have "shows_log t (add_line (rows c) ?ls ?l, [])"
  proof (cases "Suc (length ?ls) = rows c")
    case True
    then have "screen t = log_screen c (tl (?ls @ [?l]) @ [[]])"
      using t(5) log_scroll [OF True] L by simp
    moreover have "set (tl (?ls @ [?l])) \<subseteq> set (?ls @ [?l])" by (cases "?ls @ [?l]") auto
    ultimately show ?thesis
      using t(3,4) L True dims \<open>0 < cols c\<close>
      by (auto simp: shows_log_def add_line_def log_screen_same [OF same])
  next
    case False
    then have "Suc (length ?ls) < rows c" using L by simp
    then show ?thesis using t(3-5) L dims \<open>0 < cols c\<close> log_screen_pad [of "?ls @ [?l]" c]
      by (auto simp: shows_log_def add_line_def log_screen_same [OF same])
  qed
  then show ?thesis using t(1,2) wt by blast
qed

lemma puts_log:
  assumes "log_ready c" "shows_log c lg" "fits (cols c) (length (snd lg)) bs"
  shows "\<exists>s. puts bs c = Some s \<and> log_ready s \<and> same_terminal c s \<and> shows_log s (foldl (feed (rows c)) lg bs)"
  using assms
proof (induction bs arbitrary: c lg)
  case Nil
  then show ?case by (simp add: same_terminal_def)
next
  case (Cons b bs)
  have "\<exists>s. flanterm_putchar c b = Some s \<and> term_wf s \<and> cframe c s \<and> shows_log s (feed (rows c) lg b)"
    using putchar_log_text [OF Cons.prems(1,2), of b] putchar_log_feed [OF Cons.prems(1,2)] Cons.prems(3)
    by (auto simp: feed_def printable_def split: if_splits)
  then obtain s where s: "flanterm_putchar c b = Some s" "term_wf s" "cframe c s"
    "shows_log s (feed (rows c) lg b)" by blast
  have rs: "log_ready s" and same: "same_terminal c s" using cframe_log [OF s(3)] s(2) Cons.prems(1) by auto
  have "fits (cols s) (length (snd (feed (rows c) lg b))) bs"
    using Cons.prems(3) same by (auto simp: feed_def same_terminal_def split: if_splits)
  from Cons.IH [OF rs s(4) this] s(1) same show ?case by (auto simp: same_terminal_def)
qed

lemma write_log:
  assumes "log_ready c" "shows_log c lg" "fits (cols c) (length (snd lg)) bs"
  shows "\<exists>c'. flanterm_write c bs = Some c' \<and> log_ready c' \<and> same_terminal c c' \<and>
    shows_log c' (foldl (feed (rows c)) lg bs) \<and> flushed c' \<and>
    (\<forall>x < cols c. \<forall>y < rows c. displays c' (cell_shown c' x y) x y)"
proof -
  from puts_log [OF assms] obtain t where t: "puts bs c = Some t" "log_ready t" "same_terminal c t"
    "shows_log t (foldl (feed (rows c)) lg bs)" by blast
  then have wt: "term_wf t" "autoflush t" by (simp_all add: log_ready_def)
  from write_flushes [OF t(1) wt] obtain c' where c': "flanterm_write c bs = Some c'"
    "term_wf c'" "dframe t c'" "screen c' = screen t" "flushed c'"
    "\<forall>x < cols c'. \<forall>y < rows c'. displays c' (cell_shown c' x y) x y" by blast
  have rc: "log_ready c'" and same: "same_terminal t c'" using dframe_log [OF c'(3)] c'(2) t(2) by auto
  then have "shows_log c' (foldl (feed (rows c)) lg bs)"
    using t(4) c'(4) dframe_geom [OF c'(3)] by (simp add: shows_log_def log_screen_same [OF same])
  then show ?thesis using c' rc t(3) same by (auto simp: same_terminal_def)
qed

section \<open>Print\<close>

text \<open>A frame buffer on which the terminal is at least as wide as it is high, and whose memory fits.\<close>

definition frame_ok :: "limine_framebuffer \<Rightarrow> bool" where
  "frame_ok f \<longleftrightarrow> 9 \<le> fb_w f \<and> 16 \<le> fb_h f \<and> fb_w f \<le> pitch f div 4 \<and> fb_w f * fb_h f < 2 ^ 31 \<and>
     length (address f) = fb_h f * (pitch f div 4) \<and> length (address f) < 2 ^ 62"

definition pool_need :: "limine_framebuffer \<Rightarrow> nat" where
  "pool_need f = 41744 + (fb_h f div 16) * (fb_w f div 9) * 52 + fb_w f * fb_h f * 4"

definition frame_usable :: "limine_framebuffer \<Rightarrow> bool" where
  "frame_usable f \<longleftrightarrow> frame_ok f \<and> fb_h f div 16 \<le> fb_w f div 9 \<and> pool_need f \<le> BUMP_ALLOC_POOL_SIZE"

text \<open>The abstraction of the console: the log it shows.\<close>

definition console_log :: "limine_framebuffer \<Rightarrow> console \<Rightarrow> log \<Rightarrow> bool" where
  "console_log f con lg \<longleftrightarrow> frame_usable f \<and>
     (case con_context con of
        None \<Rightarrow> con = boot_console \<and> lg = ([], [])
      | Some c \<Rightarrow> framebuffer2 con = Some f \<and> log_ready c \<and> shows_log c lg \<and>
          text_bg c = 0xffffffff \<and> surface c = (fb_w f, fb_h f, pitch f) \<and> flushed c \<and> \<not> cursor_enabled c \<and> rows c = fb_h f div 16 \<and> cols c = fb_w f div 9)"

lemma init_plain:
  assumes "frame_ok f"
  shows "if pool_need f \<le> BUMP_ALLOC_POOL_SIZE
    then \<exists>c. flanterm_fb_init 0 (plain_args (address f) (fb_w f) (fb_h f) (pitch f)) = Some (pool_need f, Some c) \<and>
      fresh_terminal c \<and> rows c = fb_h f div 16 \<and> cols c = fb_w f div 9 \<and>
      text_bg c = 0xffffffff \<and> surface c = (fb_w f, fb_h f, pitch f)
    else flanterm_fb_init 0 (plain_args (address f) (fb_w f) (fb_h f) (pitch f)) = Some (0, None)"
proof -
  note f = assms [unfolded frame_ok_def]
  note a = plain_args_fits [of "fb_w f" "fb_h f" "pitch f" "address f"]
  have "fb_fits (plain_args (address f) (fb_w f) (fb_h f) (pitch f))"
    and need: "fb_bytes (plain_args (address f) (fb_w f) (fb_h f) (pitch f)) = pool_need f"
    and "fb_rows (plain_args (address f) (fb_w f) (fb_h f) (pitch f)) = fb_h f div 16"
    "fb_cols (plain_args (address f) (fb_w f) (fb_h f) (pitch f)) = fb_w f div 9"
    using a f by (simp_all add: pool_need_def)
  moreover have "a_width (plain_args (address f) (fb_w f) (fb_h f) (pitch f)) = fb_w f"
    "a_height (plain_args (address f) (fb_w f) (fb_h f) (pitch f)) = fb_h f"
    "a_pitch (plain_args (address f) (fb_w f) (fb_h f) (pitch f)) = pitch f" by (simp_all add: plain_args_def)

  ultimately show ?thesis using flanterm_fb_init_eq [OF _ le0 plain_args_font]
    by (cases "pool_need f \<le> BUMP_ALLOC_POOL_SIZE") (fastforce simp: need)+
qed

lemma log_screen_nil:
  "log_screen c [] = replicate (rows c * cols c) (empty_char c)"
proof -
  have "concat (replicate n (replicate w a)) = replicate (n * w) a" for n w and a :: flanterm_fb_char
    by (induction n) (simp_all add: replicate_add)
  then show ?thesis by (simp add: log_screen_def log_row_nil map_replicate)
qed

lemma fresh_log:
  assumes "fresh_terminal c" "rows c \<le> cols c"
  shows "log_ready (c\<lparr>cursor_enabled := False\<rparr>)" "shows_log (c\<lparr>cursor_enabled := False\<rparr>) ([], [])"
    "flushed (c\<lparr>cursor_enabled := False\<rparr>)"
proof -
  let ?c = "c\<lparr>cursor_enabled := False\<rparr>"
  note fr = assms(1) [unfolded fresh_terminal_def]
  have "term_wf ?c = term_wf c" "text_mode ?c = text_mode c" "ground ?c = ground c"
    by (simp_all add: term_wf_def margins_wf_def palette_wf_def parser_wf_def text_mode_def ground_def)
  then show "log_ready ?c" using fr assms(2) by (simp add: log_ready_def)
  have "0 < rows c" using fr term_wf_dims(1) by blast
  moreover have "0 < cols c" using fr term_wf_dims(2) by blast
  moreover have "empty_char ?c = \<lparr>char_c = 0x20, char_fg = text_fg c, char_bg = text_bg c\<rparr>"
    by (simp add: empty_char_def)
  ultimately show "shows_log ?c ([], [])" using fr log_screen_pad [of "[]" ?c]
    by (simp add: shows_log_def log_screen_nil)
  show "flushed ?c" using fr by (simp add: flushed_def)
qed

lemma console_context:
  assumes "console_log f con lg"
  shows "\<exists>con' c. ebind (find_framebuffer (Some (f # fs)) con) make_context = Inr con' \<and>
    con_context con' = Some c \<and> console_log f con' lg"
proof (cases "con_context con")
  case None
  then have con: "con = boot_console" "lg = ([], [])" and us: "frame_usable f"
    using assms by (simp_all add: console_log_def)
  from us init_plain [of f] obtain c where c: "fresh_terminal c" "rows c = fb_h f div 16"
    "cols c = fb_w f div 9" "text_bg c = 0xffffffff" "surface c = (fb_w f, fb_h f, pitch f)" "flanterm_fb_init 0 (plain_args (address f) (fb_w f) (fb_h f) (pitch f))
      = Some (pool_need f, Some c)"
    by (auto simp: frame_usable_def)
  then show ?thesis using con us fresh_log [OF c(1)]
    by (simp add: find_framebuffer_def make_context_def boot_console_def console_log_def frame_usable_def surface_def)
next
  case (Some c)
  then show ?thesis using assms
    by (auto simp: find_framebuffer_def make_context_def console_log_def split: option.splits)
qed

lemma strlen2_eq: "0 \<notin> set bs \<Longrightarrow> strlen2 (bs @ 0 # post) = Inr (length bs)"
  by (simp add: strlen2_def scan_append)

text \<open>What follows the terminator does not matter.\<close>

lemma print_tail:
  "0 \<notin> set bs \<Longrightarrow> print response con (bs @ 0 # post) = print response con (bs @ [0])"
  by (simp add: print_def strlen2_eq)

lemma fits_no_zero: "fits w n bs \<Longrightarrow> 0 \<notin> set bs"
  by (induction bs arbitrary: n) (auto split: if_splits)

lemma print_log:
  assumes log: "console_log f con lg" and bs: "fits (fb_w f div 9) (length (snd lg)) bs"
  shows "\<exists>con' c. print (Some (f # fs)) con (bs @ 0 # post) = Inr con' \<and>
    console_log f con' (foldl (feed (fb_h f div 16)) lg bs) \<and> con_context con' = Some c \<and>
    (\<forall>x < cols c. \<forall>y < rows c. displays c (screen c ! (y * cols c + x)) x y)"
proof -
  from console_context [OF log] obtain con1 con2 c where con: "find_framebuffer (Some (f # fs)) con = Inr con1"
    "make_context con1 = Inr con2" "con_context con2 = Some c" "console_log f con2 lg"
    by (fastforce simp: ebind_Inr_iff)
  then have c: "frame_usable f" "framebuffer2 con2 = Some f" "log_ready c" "shows_log c lg"
    "\<not> cursor_enabled c" "rows c = fb_h f div 16" "cols c = fb_w f div 9"
    "text_bg c = 0xffffffff" "surface c = (fb_w f, fb_h f, pitch f)"
    by (simp_all add: console_log_def)
  from write_log [OF c(3,4), of bs] bs c(6,7) obtain c' where c': "flanterm_write c bs = Some c'"
    "log_ready c'" "shows_log c' (foldl (feed (fb_h f div 16)) lg bs)" "same_terminal c c'" "flushed c'"
    "\<forall>x < cols c. \<forall>y < rows c. displays c' (cell_shown c' x y) x y" by auto
  have "print (Some (f # fs)) con (bs @ 0 # post) = Inr (con2\<lparr>con_context := Some c'\<rparr>)"
    using con c'(1) strlen2_eq [OF fits_no_zero [OF bs]] by (simp add: print_def)
  moreover have "console_log f (con2\<lparr>con_context := Some c'\<rparr>) (foldl (feed (fb_h f div 16)) lg bs)"
    using c c' by (simp add: console_log_def same_terminal_def)
  moreover have "cell_shown c' x y = screen c' ! (y * cols c' + x)" for x y
    using c(5) c'(4) by (simp add: cell_shown_def same_terminal_def)
  ultimately show ?thesis using c'(4,6) by (auto simp: same_terminal_def)
qed

text \<open>A line of text at once.\<close>

lemma fits_text:
  "\<forall>b \<in> set t. b \<noteq> 0x0a \<and> 0x20 \<le> b \<and> b \<le> 0x7e \<Longrightarrow> n + length t < w \<Longrightarrow>
    fits w n (t @ bs) = fits w (n + length t) bs"
  by (induction t arbitrary: n) auto

lemma feed_line:
  "0x0a \<notin> set t \<Longrightarrow> foldl (feed h) lg (t @ [0x0a]) = (add_line h (fst lg) (snd lg @ t), [])"
  by (induction t arbitrary: lg) (auto simp: feed_def)

lemma print_line:
  assumes log: "console_log f con (ls, [])" and t: "\<forall>b \<in> set t. b \<noteq> 0x0a \<and> 0x20 \<le> b \<and> b \<le> 0x7e"
    and w: "length t < fb_w f div 9"
  shows "\<exists>con' c. print (Some (f # fs)) con (t @ [0x0a, 0]) = Inr con' \<and>
    console_log f con' (add_line (fb_h f div 16) ls t, []) \<and> con_context con' = Some c \<and>
    (\<forall>x < cols c. \<forall>y < rows c. displays c (screen c ! (y * cols c + x)) x y)"
proof -
  have "fits (fb_w f div 9) (length (snd (ls, [] :: u8 list))) (t @ [0x0a])"
    using fits_text [OF t, of 0 _ "[0x0a]"] w by simp
  from print_log [OF log this, of fs "[]"] feed_line [of t "fb_h f div 16" "(ls, [])"] t show ?thesis by auto
qed

text \<open>A line of text is printed whatever its length.\<close>

lemma print_total:
  assumes log: "console_log f con lg" and t: "\<forall>b \<in> set t. 0x20 \<le> b \<and> b \<le> 0x7e"
  shows "\<exists>con'. print (Some (f # fs)) con (t @ [0x0a, 0]) = Inr con'"
proof -
  from console_context [OF log] obtain con1 con2 c where con: "find_framebuffer (Some (f # fs)) con = Inr con1"
    "make_context con1 = Inr con2" "con_context con2 = Some c" "console_log f con2 lg"
    by (fastforce simp: ebind_Inr_iff)
  then have c: "term_wf c" "text_mode c" by (simp_all add: console_log_def log_ready_def)
  have p: "\<forall>b \<in> set t. printable b" using t by (simp add: printable_def)
  from puts_text(2) [OF c p] obtain s where s: "puts t c = Some s" "term_wf s" by blast
  from puts_safe [OF s(2), of "[0x0a]"] obtain s' where s': "puts [0x0a] s = Some s'" "term_wf s'"
    by (auto simp: term_ok_def)
  have "puts (t @ [0x0a]) c = Some s'" using s(1) s'(1) by (simp add: puts_append)
  moreover obtain c' where "flanterm_fb_double_buffer_flush s' = Some c'" using fbt.flush [OF s'(2)] by blast
  ultimately obtain c'' where "flanterm_write c (t @ [0x0a]) = Some c''"
    by (cases "autoflush s'") (simp_all add: flanterm_write_def puts_def)
  moreover have "strlen2 ((t @ [0x0a]) @ 0 # []) = Inr (length (t @ [0x0a]))"
    by (rule strlen2_eq) (use t in auto)
  ultimately show ?thesis using con by (simp add: print_def)
qed

text \<open>
  C8: the console is a log. On a frame buffer that is usable, which means that it has at least
  one cell, fewer than \<open>2 ^ 31\<close> pixels and the memory its pitch and height say, that the terminal
  and its arrays fit in the pool of 64 MiB and that the screen has no more rows than columns, and from
  the state before the first call on, \<open>print\<close> of printable ASCII and line feeds, with each line
  shorter than a row, goes through the log byte by byte: a character is added to the current line, a line feed finishes it and drops the
  oldest line when the screen is full. The frame buffer, the first one of the response, shows every
  cell of the result. On a frame buffer that is too large for the pool the first call faults instead
  (\<open>print_null_context\<close>).
\<close>

theorem print_refines_log:
  assumes "console_log f con lg" "fits (fb_w f div 9) (length (snd lg)) bs"
  shows "\<exists>con' c. print (Some (f # fs)) con (bs @ [0]) = Inr con' \<and>
    console_log f con' (foldl (feed (fb_h f div 16)) lg bs) \<and> con_context con' = Some c \<and>
    (\<forall>x < cols c. \<forall>y < rows c. displays c (screen c ! (y * cols c + x)) x y)"
  by (rule print_log [OF assms])

definition small_frame :: limine_framebuffer where
  "small_frame = \<lparr>address = replicate 864 0, fb_w = 27, fb_h = 32, pitch = 108, bpp = 32\<rparr>"

lemma small_frame_usable: "frame_usable small_frame"
  by (simp add: frame_usable_def frame_ok_def small_frame_def pool_need_def BUMP_ALLOC_POOL_SIZE_def)

lemma boot_console_log: "frame_usable f \<Longrightarrow> console_log f boot_console ([], [])"
  by (simp add: console_log_def boot_console_def)

theorem print_refines_log_witness:
  "\<exists>con'. print (Some [small_frame]) boot_console [0x48, 0x69, 0x0a, 0x21, 0] = Inr con' \<and>
     console_log small_frame con' ([[0x48, 0x69]], [0x21])"
  using print_refines_log [OF boot_console_log [OF small_frame_usable], of "[0x48, 0x69, 0x0a, 0x21]" "[]"]
  by (auto simp: small_frame_def add_line_def feed_def)

text \<open>
  \<open>print\<close> does not check the result of \<open>flanterm_fb_init\<close>: when the pool of 64 MiB is
  too small for the frame buffer, as it is for 7680 by 4320 pixels, the first message of the
  kernel dereferences \<open>NULL\<close>.
\<close>

theorem print_null_context:
  assumes "frame_ok f" "BUMP_ALLOC_POOL_SIZE < pool_need f"
  shows "print (Some (f # fs)) boot_console str = Inl NullDeref"
  using init_plain [OF assms(1)] assms(2)
  by (simp add: print_def find_framebuffer_def make_context_def boot_console_def)

theorem print_null_context_witness:
  "print (Some [\<lparr>address = replicate (7680 * 4320) 0, fb_w = 7680, fb_h = 4320, pitch = 30720, bpp = 32\<rparr>])
     boot_console [0] = Inl NullDeref"
  by (rule print_null_context) (simp_all add: frame_ok_def pool_need_def BUMP_ALLOC_POOL_SIZE_def)

end
