(* ===== verification/Printf.thy ===== *)
theory Printf
  imports Print "HOL-Library.Signed_Division"
begin

text \<open>
  The formatted output of \<open>kernel/printf/printf.c\<close>: \<open>reverse\<close>, \<open>int2str\<close>,
  \<open>uintptr2str\<close> and \<open>printf\<close> with its conversions \<open>%d\<close> and \<open>%p\<close>.

  A \<open>char\<close> buffer is a list of bytes. An \<open>int\<close> is an integer of the range of 32 bits:
  division and remainder truncate, as C's do, and the negation of the least \<open>int\<close> wraps, as
  it does in the code the compiler emits. Each variable argument is a 64-bit slot, of which
  \<open>%d\<close> reads the lower half.
\<close>

section \<open>Operations\<close>

definition wrap32 :: "int \<Rightarrow> int" where
  "wrap32 v = sint (word_of_int v :: u32)"

function reverse_loop :: "u8 list \<Rightarrow> int \<Rightarrow> int \<Rightarrow> fault + u8 list" where
  "reverse_loop str start end =
     (if start < end then
        ebind (eget str (nat start)) (\<lambda>temp. ebind (eget str (nat end)) (\<lambda>b.
        ebind (eset str (nat start) b) (\<lambda>str. ebind (eset str (nat end) temp) (\<lambda>str.
          reverse_loop str (start + 1) (end - 1)))))
      else Inr str)"
  by auto
termination by (relation "measure (\<lambda>(str, s, e). nat (e - s))") auto

declare reverse_loop.simps [simp del]

definition reverse :: "u8 list \<Rightarrow> nat \<Rightarrow> fault + u8 list" where
  "reverse str len = reverse_loop str 0 (int len - 1)"

text \<open>The loop \<open>do { buffer[i++] = value % 10 + '0'; value /= 10; } while (value != 0)\<close>.\<close>

function int_digits :: "u8 list \<Rightarrow> nat \<Rightarrow> int \<Rightarrow> fault + (u8 list \<times> nat)" where
  "int_digits buffer i v =
     ebind (eset buffer i (word_of_int (v smod 10 + 0x30))) (\<lambda>buffer.
       if v sdiv 10 \<noteq> 0 then int_digits buffer (Suc i) (v sdiv 10) else Inr (buffer, Suc i))"
  by auto
termination
proof (relation "measure (\<lambda>(b, i, v). nat \<bar>v\<bar>)")
  fix b :: "u8 list" and i :: nat and v :: int and x :: "u8 list"
  assume "v sdiv 10 \<noteq> 0"
  then have "0 < \<bar>v\<bar>" by (auto simp: signed_divide_int_def)
  then have "\<bar>v sdiv 10\<bar> < \<bar>v\<bar>" by (simp add: signed_divide_int_def abs_mult)
  then show "((x, Suc i, v sdiv 10), b, i, v) \<in> measure (\<lambda>(b, i, v). nat \<bar>v\<bar>)" by simp
qed simp

declare int_digits.simps [simp del]

definition int2str :: "u8 list \<Rightarrow> int \<Rightarrow> fault + (u8 list \<times> nat)" where
  "int2str buffer v =
     (let is_negative = v < 0; v = (if is_negative then wrap32 (- v) else v)
      in ebind (int_digits buffer 0 v) (\<lambda>(buffer, i).
         ebind (if is_negative then ebind (eset buffer i 0x2d) (\<lambda>b. Inr (b, Suc i)) else Inr (buffer, i))
           (\<lambda>(buffer, i).
         ebind (eset buffer i 0) (\<lambda>buffer.
         ebind (reverse buffer i) (\<lambda>buffer. Inr (buffer, i))))))"

function ptr_digits :: "u8 list \<Rightarrow> nat \<Rightarrow> u64 \<Rightarrow> fault + (u8 list \<times> nat)" where
  "ptr_digits buffer i v =
     ebind (eset buffer i
       (if v mod 16 < 10 then ucast (v mod 16) + 0x30 else ucast (v mod 16) - 10 + 0x41)) (\<lambda>buffer.
       if v div 16 \<noteq> 0 then ptr_digits buffer (Suc i) (v div 16) else Inr (buffer, Suc i))"
  by auto
termination
proof (relation "measure (\<lambda>(b, i, v). unat v)")
  fix b :: "u8 list" and i :: nat and v :: u64 and x :: "u8 list"
  assume "v div 16 \<noteq> 0"
  then have "0 < unat v div 16" by (simp add: unat_div flip: unat_gt_0)
  then show "((x, Suc i, v div 16), b, i, v) \<in> measure (\<lambda>(b, i, v). unat v)"
    by (simp add: unat_div)
qed simp

declare ptr_digits.simps [simp del]

definition uintptr2str :: "u8 list \<Rightarrow> u64 \<Rightarrow> fault + u8 list" where
  "uintptr2str buffer v =
     ebind (ptr_digits buffer 0 v) (\<lambda>(buffer, i).
     ebind (eset buffer i 0) (\<lambda>buffer. reverse buffer i))"

text \<open>
  The loop over the format. The local buffers are not initialised: every byte of them is
  \<open>junk\<close>. The character after a \<open>%\<close> is consumed without a test for the terminator. The index
  is an \<open>unsigned int\<close> in the source and a natural number here: the two are the same for formats
  of less than 4 GiB, to which the property of \<open>printf\<close> is restricted.
\<close>

function printf_loop ::
    "(console \<Rightarrow> u8 list \<Rightarrow> fault + console) \<Rightarrow> u8 \<Rightarrow> u8 list \<Rightarrow> u64 list \<Rightarrow> nat \<Rightarrow> console \<Rightarrow> fault + console" where
  "printf_loop out junk format args i con =
     (if length format \<le> i then Inl OutOfBounds
      else if format ! i = 0 then Inr con
      else if format ! i = 0x25 then
        ebind (eget format (Suc i)) (\<lambda>ch.
          if ch = 0x64 then
            ebind (eget args 0) (\<lambda>slot.
            ebind (int2str (replicate 12 junk) (sint (ucast slot :: u32))) (\<lambda>(buffer, n).
            ebind (out con buffer) (\<lambda>con. printf_loop out junk format (tl args) (Suc (Suc i)) con)))
          else if ch = 0x70 then
            ebind (eget args 0) (\<lambda>slot.
            ebind (uintptr2str (replicate 20 junk) slot) (\<lambda>buffer.
            ebind (out con buffer) (\<lambda>con. printf_loop out junk format (tl args) (Suc (Suc i)) con)))
          else printf_loop out junk format args (Suc (Suc i)) con)
      else ebind (out con [format ! i, 0]) (\<lambda>con. printf_loop out junk format args (Suc i) con))"
  by auto
termination by (relation "measure (\<lambda>(out, junk, format, args, i, con). length format - i)") auto

declare printf_loop.simps [simp del]

definition printf ::
    "limine_framebuffer list option \<Rightarrow> u8 \<Rightarrow> console \<Rightarrow> u8 list \<Rightarrow> u64 list \<Rightarrow> fault + console" where
  "printf response junk con format args = printf_loop (print response) junk format args 0 con"

section \<open>Digits\<close>

text \<open>The digits of a number, the least significant first, and the number of digits.\<close>

function digits :: "nat \<Rightarrow> nat \<Rightarrow> nat list" where
  "digits b n = (if n < b \<or> b < 2 then [n] else n mod b # digits b (n div b))"
  by auto
termination by (relation "measure snd") auto

declare digits.simps [simp del]

definition undigits :: "nat \<Rightarrow> nat list \<Rightarrow> nat" where
  "undigits b ds = foldr (\<lambda>d n. d + b * n) ds 0"

lemma undigits_digits: "undigits b (digits b n) = n"
proof (induction b n rule: digits.induct)
  case (1 b n)
  then show ?case by (subst digits.simps) (auto simp: undigits_def)
qed

lemma digits_less: "2 \<le> b \<Longrightarrow> \<forall>d \<in> set (digits b n). d < b"
proof (induction b n rule: digits.induct)
  case (1 b n)
  then show ?case by (subst digits.simps) auto
qed

lemma digits_nonempty [simp]: "digits b n \<noteq> []" "0 < length (digits b n)"
  by (subst digits.simps, simp)+

lemma length_digits_le:
  "2 \<le> b \<Longrightarrow> n < b ^ k \<Longrightarrow> 0 < k \<Longrightarrow> length (digits b n) \<le> k"
proof (induction b n arbitrary: k rule: digits.induct)
  case (1 b n)
  show ?case
  proof (cases "n < b")
    case True
    then show ?thesis using 1 by (subst digits.simps) simp
  next
    case False
    then obtain j where k: "k = Suc j" "0 < j" using 1 by (cases k; cases "k - 1") auto
    have "n div b < b ^ j" using 1 k by (simp add: less_mult_imp_div_less mult.commute)
    then show ?thesis using 1 k False by (subst digits.simps) auto
  qed
qed

text \<open>
  What both conversion loops do: each writes one digit and goes on with the quotient. The
  abstraction \<open>val\<close> reads the value as a natural number.
\<close>

locale digit_loop =
  fixes loop :: "u8 list \<Rightarrow> nat \<Rightarrow> 'v \<Rightarrow> fault + (u8 list \<times> nat)"
    and nxt :: "'v \<Rightarrow> 'v" and good :: "'v \<Rightarrow> bool" and val :: "'v \<Rightarrow> nat"
    and base :: nat and glyph :: "nat \<Rightarrow> u8"
  assumes base: "2 \<le> base"
    and loop_step: "good v \<Longrightarrow> loop b i v = ebind (eset b i (glyph (val v mod base)))
      (\<lambda>b. if base \<le> val v then loop b (Suc i) (nxt v) else Inr (b, Suc i))"
    and val_nxt: "good v \<Longrightarrow> val (nxt v) = val v div base"
    and good_nxt: "good v \<Longrightarrow> good (nxt v)"
begin

lemma digits_step:
  "digits base n = (if base \<le> n then n mod base # digits base (n div base) else [n])"
  using base by (subst digits.simps) auto

lemma loop_writes:
  assumes "good v" "i + length (digits base (val v)) \<le> length b"
  shows "loop b i v = Inr (blit i (map glyph (digits base (val v))) b, i + length (digits base (val v)))"
  using assms
proof (induction "val v" arbitrary: v b i rule: less_induct)
  case less
  show ?case
  proof (cases "base \<le> val v")
    case True
    let ?ds = "digits base (val v div base)"
    have ds: "digits base (val v) = val v mod base # ?ds" using True by (simp add: digits_step)
    have "val (nxt v) < val v" using True base val_nxt [OF less.prems(1)] by simp
    from less.hyps [OF this good_nxt [OF less.prems(1)], of "Suc i" "b[i := glyph (val v mod base)]"]
    have "loop (b[i := glyph (val v mod base)]) (Suc i) (nxt v) =
        Inr (blit (Suc i) (map glyph ?ds) (b[i := glyph (val v mod base)]), Suc i + length ?ds)"
      using less.prems ds val_nxt by simp
    moreover have "blit (Suc i) (map glyph ?ds) (b[i := glyph (val v mod base)])
        = blit i (map glyph (digits base (val v))) b"
      using less.prems(2) ds by (simp add: blit_def take_Suc_conv_app_nth)
    ultimately show ?thesis using less.prems ds True by (simp add: loop_step)
  next
    case False
    then have "digits base (val v) = [val v]" by (simp add: digits_step)
    then show ?thesis using less.prems False
      by (simp add: loop_step blit_def list_update_take_drop)
  qed
qed

lemma loop_overflows:
  assumes "good v" "i \<le> length b" "length b < i + length (digits base (val v))"
  shows "loop b i v = Inl OutOfBounds"
  using assms
proof (induction "val v" arbitrary: v b i rule: less_induct)
  case less
  show ?case
  proof (cases "base \<le> val v \<and> i < length b")
    case True
    let ?b = "b[i := glyph (val v mod base)]"
    have ds: "digits base (val v) = val v mod base # digits base (val v div base)"
      using True by (simp add: digits_step)
    have "val (nxt v) < val v" using True base val_nxt [OF less.prems(1)] by simp
    from less.hyps [OF this good_nxt [OF less.prems(1)], of "Suc i" ?b]
    show ?thesis using less.prems ds True val_nxt by (simp add: loop_step)
  next
    case False
    then show ?thesis using less.prems by (auto simp: loop_step digits_step split: if_splits)
  qed
qed

end

definition dec_glyph :: "nat \<Rightarrow> u8" where "dec_glyph d = of_nat (d + 0x30)"

definition hex_glyph :: "nat \<Rightarrow> u8" where
  "hex_glyph d = of_nat (if d < 10 then d + 0x30 else d - 10 + 0x41)"

lemma sdiv_nonneg: "0 \<le> (v :: int) \<Longrightarrow> v sdiv 10 = v div 10" "0 \<le> (v :: int) \<Longrightarrow> v smod 10 = v mod 10"
  by (cases "v = 0"; simp add: signed_divide_int_def signed_modulo_int_def minus_mult_div_eq_mod)+

interpretation dec: digit_loop int_digits "\<lambda>v. v sdiv 10" "\<lambda>v. 0 \<le> v" nat 10 dec_glyph
proof
  fix v :: int and b :: "u8 list" and i :: nat
  assume v: "0 \<le> v"
  show "int_digits b i v = ebind (eset b i (dec_glyph (nat v mod 10)))
      (\<lambda>b. if 10 \<le> nat v then int_digits b (Suc i) (v sdiv 10) else Inr (b, Suc i))"
  proof -
    have "v mod 10 + 0x30 = int (nat v mod 10 + 0x30)" using v by (simp add: zmod_int)
    then have "(word_of_int (v mod 10 + 0x30) :: u8) = dec_glyph (nat v mod 10)"
      unfolding dec_glyph_def by (metis of_int_of_nat_eq)
    moreover have "v div 10 \<noteq> 0 \<longleftrightarrow> 10 \<le> nat v" using v by linarith
    ultimately show ?thesis using v by (subst int_digits.simps) (simp add: sdiv_nonneg)
  qed
  show "nat (v sdiv 10) = nat v div 10" using v by (simp add: sdiv_nonneg nat_div_distrib)
  show "0 \<le> v sdiv 10" using v by (simp add: sdiv_nonneg)
qed simp

interpretation hex: digit_loop ptr_digits "\<lambda>v. v div 16" "\<lambda>_. True" unat 16 hex_glyph
proof
  fix v :: u64 and b :: "u8 list" and i :: nat
  let ?d = "unat v mod 16"
  have d: "unat (v mod 16) = ?d" by (simp add: unat_mod)
  have m: "v mod 16 = of_nat ?d" using d by (metis word_of_nat_unat_64)
  have "v mod 16 < 10 \<longleftrightarrow> ?d < 10" using d by (simp add: word_less_unat)
  moreover have "(ucast (v mod 16) :: u8) = of_nat ?d" by (metis d of_nat_unat)
  moreover have "(of_nat (?d - 10) :: u8) = of_nat ?d - 10" if "\<not> ?d < 10"
    using that by (simp add: of_nat_diff)
  ultimately have g: "(if v mod 16 < 10 then ucast (v mod 16) + 0x30 else ucast (v mod 16) - 10 + 0x41)
      = hex_glyph ?d" by (simp add: hex_glyph_def)
  have "v div 16 \<noteq> 0 \<longleftrightarrow> unat (v div 16) \<noteq> 0" by (simp add: unat_eq_zero)
  then have "v div 16 \<noteq> 0 \<longleftrightarrow> 16 \<le> unat v" by (simp add: unat_div div_eq_0_iff not_less)
  then show "ptr_digits b i v = ebind (eset b i (hex_glyph ?d))
      (\<lambda>b. if 16 \<le> unat v then ptr_digits b (Suc i) (v div 16) else Inr (b, Suc i))"
    using g by (subst ptr_digits.simps) simp
qed (simp_all add: unat_div)

section \<open>Reversal\<close>

lemma reverse_loop_eq:
  "reverse_loop (pre @ xs @ post) (int (length pre)) (int (length pre + length xs) - 1)
    = Inr (pre @ rev xs @ post)"
proof (induction "length xs" arbitrary: pre xs post rule: less_induct)
  case less
  show ?case
  proof (cases "length xs < 2")
    case True
    then have "rev xs = xs" by (cases xs; cases "tl xs") auto
    then show ?thesis using True by (simp add: reverse_loop.simps)
  next
    case False
    then obtain a ys b where xs: "xs = a # ys @ [b]"
      by (cases xs; cases "tl xs" rule: rev_cases) auto
    let ?e = "int (length pre + length xs) - 1"
    have "nat ?e = Suc (length pre + length ys)" "int (length pre) < ?e" using xs by simp_all
    moreover have "(pre @ xs @ post)[length pre := b, Suc (length pre + length ys) := a]
        = (pre @ [b]) @ ys @ (a # post)"
      by (simp add: xs list_update_append split: nat.split)
    moreover have "(pre @ xs @ post) ! Suc (length pre + length ys) = b" by (simp add: xs nth_append)
    moreover have "reverse_loop ((pre @ [b]) @ ys @ (a # post)) (int (length pre) + 1) (?e - 1)
        = Inr ((pre @ [b]) @ rev ys @ (a # post))"
      using less [of ys "pre @ [b]" "a # post"] by (simp add: xs algebra_simps)
    ultimately show ?thesis by (subst reverse_loop.simps) (simp add: xs)
  qed
qed

lemma reverse_eq: "reverse (xs @ post) (length xs) = Inr (rev xs @ post)"
  using reverse_loop_eq [of "[]" xs post] by (simp add: reverse_def)

section \<open>Numerals\<close>

definition dec_text :: "nat \<Rightarrow> u8 list" where "dec_text n = map dec_glyph (rev (digits 10 n))"

definition int_text :: "int \<Rightarrow> u8 list" where
  "int_text v = (if v < 0 then 0x2d # dec_text (nat (- v)) else dec_text (nat v))"

definition hex_text :: "nat \<Rightarrow> u8 list" where "hex_text n = map hex_glyph (rev (digits 16 n))"

text \<open>Reading a numeral.\<close>

definition dec_value :: "u8 list \<Rightarrow> nat" where
  "dec_value bs = foldl (\<lambda>n b. 10 * n + (unat b - 0x30)) 0 bs"

definition int_value :: "u8 list \<Rightarrow> int" where
  "int_value bs = (case bs of b # ds \<Rightarrow> if b = 0x2d then - int (dec_value ds) else int (dec_value bs) | [] \<Rightarrow> 0)"

definition hex_digit :: "u8 \<Rightarrow> nat" where
  "hex_digit b = (if unat b < 0x41 then unat b - 0x30 else unat b - 0x41 + 10)"

definition hex_value :: "u8 list \<Rightarrow> nat" where
  "hex_value bs = foldl (\<lambda>n b. 16 * n + hex_digit b) 0 bs"

lemma foldl_undigits: "foldl (\<lambda>n d. b * n + d) 0 (rev ds) = undigits b ds"
  by (induction ds) (simp_all add: undigits_def add.commute)

lemma foldl_map_cong:
  "(\<And>x. x \<in> set xs \<Longrightarrow> h (g x) = x) \<Longrightarrow> foldl (\<lambda>n b. k * n + h b) a (map g xs) = foldl (\<lambda>n d. k * n + d) (a :: nat) xs"
  by (induction xs arbitrary: a) simp_all

lemma unat_dec_glyph: "d < 10 \<Longrightarrow> unat (dec_glyph d) = d + 0x30"
  by (simp add: dec_glyph_def unat_of_nat del: of_nat_add)

lemma dec_value_text: "dec_value (dec_text n) = n"
  unfolding dec_value_def dec_text_def
  using digits_less [of 10 n] by (subst foldl_map_cong) (auto simp: unat_dec_glyph foldl_undigits undigits_digits)

lemma hex_digit_glyph: "d < 16 \<Longrightarrow> hex_digit (hex_glyph d) = d"
  by (simp add: hex_digit_def hex_glyph_def unat_of_nat del: of_nat_add)

lemma hex_value_text: "hex_value (hex_text n) = n"
  unfolding hex_value_def hex_text_def
  using digits_less [of 16 n] by (subst foldl_map_cong) (auto simp: hex_digit_glyph foldl_undigits undigits_digits)

lemma int_value_text: "int_value (int_text v) = v"
proof -
  have "hd (dec_text n) \<noteq> 0x2d" for n
  proof -
    have "hd (rev (digits 10 n)) \<in> set (digits 10 n)" by (metis digits_nonempty(1) hd_in_set rev_is_Nil_conv set_rev)
    then have "hd (rev (digits 10 n)) < 10" using digits_less [of 10 n] by simp
    then have "unat (dec_glyph (hd (rev (digits 10 n)))) \<noteq> 0x2d" by (simp add: unat_dec_glyph)
    then show ?thesis by (auto simp: dec_text_def hd_map)
  qed
  moreover have "dec_text n \<noteq> []" for n by (simp add: dec_text_def)
  ultimately have nat: "int_value (dec_text n) = int n" for n
  proof -
    obtain b ds where t: "dec_text n = b # ds" "b \<noteq> 0x2d"
      using \<open>hd (dec_text n) \<noteq> 0x2d\<close> \<open>dec_text n \<noteq> []\<close> by (cases "dec_text n") auto
    have "int_value (dec_text n) = int (dec_value (dec_text n))" using t by (simp add: int_value_def)
    then show ?thesis by (simp only: dec_value_text)
  qed
  then show ?thesis by (simp add: int_text_def) (simp add: int_value_def dec_value_text)
qed

lemma length_dec_text: "n < 10 ^ k \<Longrightarrow> 0 < k \<Longrightarrow> length (dec_text n) \<le> k"
  by (simp add: dec_text_def length_digits_le)

lemma length_hex_text: "n < 16 ^ k \<Longrightarrow> 0 < k \<Longrightarrow> length (hex_text n) \<le> k"
  by (simp add: hex_text_def length_digits_le)

lemma length_int_text: "\<bar>v\<bar> < 2 ^ 31 \<Longrightarrow> length (int_text v) \<le> 11"
proof -
  assume "\<bar>v\<bar> < 2 ^ 31"
  then have "nat v < 10 ^ 10" "nat (- v) < 10 ^ 10" by auto
  from this [THEN length_dec_text] show ?thesis by (simp add: int_text_def)
qed

lemma wrap32_id: "\<bar>v\<bar> < 2 ^ 31 \<Longrightarrow> wrap32 v = v"
  by (simp add: wrap32_def sint_sbintrunc' signed_take_bit_int_eq_self)

lemma blit_0: "length bs \<le> length m \<Longrightarrow> blit 0 bs m = bs @ drop (length bs) m"
  by (simp add: blit_def)

lemma int2str_eq:
  assumes "\<bar>v\<bar> < 2 ^ 31" "length (int_text v) < length buffer"
  shows "int2str buffer v =
    Inr (int_text v @ 0 # drop (Suc (length (int_text v))) buffer, length (int_text v))"
proof -
  let ?n = "nat \<bar>v\<bar>"
  let ?ds = "map dec_glyph (digits 10 ?n)"
  have neg: "(if v < 0 then wrap32 (- v) else v) = \<bar>v\<bar>" using wrap32_id [of "- v"] assms(1) by auto
  have len: "length (int_text v) = length ?ds + (if v < 0 then 1 else 0)"
    by (simp add: int_text_def dec_text_def)
  have digits: "int_digits buffer 0 \<bar>v\<bar> = Inr (?ds @ drop (length ?ds) buffer, length ?ds)"
    using dec.loop_writes [of "\<bar>v\<bar>" 0 buffer] assms(2) len blit_0 [of ?ds buffer] by simp
  let ?t = "?ds @ (if v < 0 then [0x2d] else [])"
  have sign: "(if v < 0 then ebind (eset (?ds @ drop (length ?ds) buffer) (length ?ds) 0x2d) (\<lambda>b. Inr (b, Suc (length ?ds)))
      else Inr (?ds @ drop (length ?ds) buffer, length ?ds)) = Inr (?t @ drop (length ?t) buffer, length ?t)"
    using assms(2) len by (auto simp: list_update_append nth_drop_Cons)
  have "length ?t < length buffer" using assms(2) len by auto
  then have nul: "eset (?t @ drop (length ?t) buffer) (length ?t) 0 = Inr (?t @ 0 # drop (Suc (length ?t)) buffer)"
    by (simp add: list_update_append nth_drop_Cons)
  have rev: "rev ?t = int_text v" by (simp add: int_text_def dec_text_def rev_map)
  show ?thesis
    unfolding int2str_def Let_def neg digits ebind_simps prod.case sign nul reverse_eq rev
    using arg_cong [OF rev, of length] by (simp only: length_rev)
qed

lemma uintptr2str_eq:
  assumes "length (hex_text (unat v)) < length buffer"
  shows "uintptr2str buffer v =
    Inr (hex_text (unat v) @ 0 # drop (Suc (length (hex_text (unat v)))) buffer)"
proof -
  let ?ds = "map hex_glyph (digits 16 (unat v))"
  have rev: "rev ?ds = hex_text (unat v)" by (simp add: hex_text_def rev_map)
  have len: "length (hex_text (unat v)) = length ?ds" by (simp add: hex_text_def)
  have digits: "ptr_digits buffer 0 v = Inr (?ds @ drop (length ?ds) buffer, length ?ds)"
    using hex.loop_writes [where v = v and i = 0 and b = buffer] assms len blit_0 [of ?ds buffer] by simp
  have nul: "eset (?ds @ drop (length ?ds) buffer) (length ?ds) 0 = Inr (?ds @ 0 # drop (Suc (length ?ds)) buffer)"
    using assms len by (simp add: list_update_append nth_drop_Cons)
  show ?thesis
    unfolding uintptr2str_def digits ebind_simps prod.case nul reverse_eq rev by (simp only: len)
qed

lemma text_no_zero: "0 \<notin> set (dec_text n)" "0 \<notin> set (int_text v)" "0 \<notin> set (hex_text n)"
proof -
  have "dec_glyph d \<noteq> 0" if "d < 10" for d using unat_dec_glyph [OF that] by auto
  then show dec: "0 \<notin> set (dec_text n)" for n using digits_less [of 10 n] by (auto simp: dec_text_def)
  then show "0 \<notin> set (int_text v)" by (simp add: int_text_def)
  have "hex_glyph d \<noteq> 0" if "d < 16" for d
  proof -
    have "unat (hex_glyph d) \<noteq> 0" using that by (simp add: hex_glyph_def unat_of_nat del: of_nat_add)
    then show ?thesis by auto
  qed
  then show "0 \<notin> set (hex_text n)" using digits_less [of 16 n] by (auto simp: hex_text_def)
qed

section \<open>The format\<close>

text \<open>
  The least \<open>int\<close>: its negation wraps to itself, every remainder is negative, and
  \<open>int2str\<close> writes characters before \<open>'0'\<close> instead of digits.
\<close>

definition least_int_text :: "u8 list" where
  "least_int_text = [0x2d, 0x2e, 0x2f, 0x2c, 0x29, 0x2c, 0x28, 0x2d, 0x2a, 0x2c, 0x28]"

theorem int2str_least_int:
  "int2str (replicate 12 junk) (- (2 ^ 31)) = Inr (least_int_text @ [0], 11)"
proof -
  have "wrap32 (2 ^ 31) = - (2 ^ 31)" by (simp add: wrap32_def)
  then show ?thesis
    by (simp add: least_int_text_def int2str_def int_digits.simps signed_divide_int_def signed_modulo_int_def
        reverse_def reverse_loop.simps numeral_eq_Suc)
qed

text \<open>What \<open>%d\<close> prints for an \<open>int\<close>.\<close>

definition printed_int :: "int \<Rightarrow> u8 list" where
  "printed_int v = (if v = - (2 ^ 31) then least_int_text else int_text v)"

lemma printed_int_no_zero: "0 \<notin> set (printed_int v)"
  using text_no_zero(2) [of v] by (simp add: printed_int_def least_int_text_def)

lemma int2str_printed: "\<exists>r n. int2str (replicate 12 junk) (sint (w :: u32)) = Inr (printed_int (sint w) @ 0 # r, n)"
proof (cases "sint w = - (2 ^ 31)")
  case True
  then show ?thesis using int2str_least_int [of junk] by (auto simp: printed_int_def)
next
  case False
  moreover have "- (2 ^ 31) \<le> sint w" "sint w < 2 ^ 31" using sint_ge [of w] sint_lt [of w] by simp_all
  ultimately have small: "\<bar>sint w\<bar> < 2 ^ 31" by simp
  then show ?thesis using length_int_text [OF small] int2str_eq [OF small, of "replicate 12 junk"] False
    by (auto simp: printed_int_def)
qed


text \<open>
  The pieces a format prints, by structural recursion; \<open>None\<close> where an argument is missing or
  the format ends after a \<open>%\<close>.
\<close>

fun render :: "u8 list \<Rightarrow> u64 list \<Rightarrow> u8 list list option" where
  "render [] args = Some []"
| "render (c # cs) args =
     (if c = 0x25 then
        (case cs of [] \<Rightarrow> None
         | d # cs' \<Rightarrow>
             if d = 0x64 then (case args of [] \<Rightarrow> None
               | a # as \<Rightarrow> map_option (Cons (printed_int (sint (ucast a :: u32)))) (render cs' as))
             else if d = 0x70 then (case args of [] \<Rightarrow> None
               | a # as \<Rightarrow> map_option (Cons (hex_text (unat a))) (render cs' as))
             else render cs' args)
      else map_option (Cons [c]) (render cs args))"

lemma printf_loop_renders:
  assumes "0 \<notin> set cs" "render cs args = Some chunks"
  shows "printf_loop (print response) junk (pre @ cs @ 0 # post) args (length pre) con
    = efold (\<lambda>chunk con. print response con (chunk @ [0])) chunks con"
  using assms
proof (induction cs args arbitrary: pre chunks con rule: render.induct)
  case (1 args)
  then show ?case by (simp add: printf_loop.simps)
next
  case (2 c cs args)
  let ?f = "pre @ (c # cs) @ 0 # post"
  have c: "c \<noteq> 0" "?f ! length pre = c" "length pre < length ?f" using 2(5) by (auto simp: nth_append)
  show ?case
  proof (cases "c = 0x25")
    case False
    then obtain ks where ks: "chunks = [c] # ks" "render cs args = Some ks" using 2(6) by auto
    have "printf_loop (print response) junk ((pre @ [c]) @ cs @ 0 # post) args (length (pre @ [c]))
        = efold (\<lambda>chunk con. print response con (chunk @ [0])) ks"
      by (rule ext, rule 2(4) [OF False]) (use 2(5) ks(2) in auto)
    then show ?thesis using c False ks(1) by (subst printf_loop.simps) simp
  next
    case True
    then obtain d cs' where cs: "cs = d # cs'" using 2(6) by (cases cs) auto
    have d: "?f ! Suc (length pre) = d" "Suc (length pre) < length ?f" by (simp_all add: cs nth_append)
    have nx: "?f = (pre @ [c, d]) @ cs' @ 0 # post" "Suc (Suc (length pre)) = length (pre @ [c, d])"
      by (simp_all add: cs)
    have nz: "0 \<notin> set cs'" using 2(5) cs by simp
    show ?thesis
    proof (cases "d = 0x64 \<or> d = 0x70")
      case False
      then have "render cs' args = Some chunks" using 2(6) True cs by simp
      from 2(3) [OF True cs _ _ nz this, of "pre @ [c, d]"] False c d True
      show ?thesis unfolding nx by (subst printf_loop.simps) (simp flip: nx)
    next
      case conv: True
      then obtain a as ks where args: "args = a # as" "render cs' as = Some ks"
        "chunks = (if d = 0x64 then printed_int (sint (ucast a :: u32)) else hex_text (unat a)) # ks"
        using 2(6) True cs by (cases args) auto
      have "printf_loop (print response) junk ?f as (Suc (Suc (length pre))) con'
          = efold (\<lambda>chunk con. print response con (chunk @ [0])) ks con'" for con'
        using 2(1) [OF True cs _ args(1) nz args(2), of "pre @ [c, d]" con']
          2(2) [OF True cs _ _ args(1) nz args(2), of "pre @ [c, d]" con'] conv
        unfolding nx by (cases "d = 0x64") simp_all
      then have IH: "printf_loop (print response) junk ?f as (Suc (Suc (length pre)))
          = efold (\<lambda>chunk con. print response con (chunk @ [0])) ks" by (rule ext)
      obtain r1 n where i: "int2str (replicate 12 junk) (sint (ucast a :: u32))
          = Inr (printed_int (sint (ucast a :: u32)) @ 0 # r1, n)"
        using int2str_printed [of junk "ucast a"] by blast
      have "length (hex_text (unat a)) \<le> 16" using unat_lt_64 [of a] by (intro length_hex_text) simp_all
      then obtain r2 where p: "uintptr2str (replicate 20 junk) a = Inr (hex_text (unat a) @ 0 # r2)"
        using uintptr2str_eq [of a "replicate 20 junk"] by simp
      define F where "F = ?f"
      have F: "F ! length pre = 0x25" "F ! Suc (length pre) = d" "Suc (length pre) < length F"
        using c(2) d True unfolding F_def by blast+
      note tail = print_tail [OF printed_int_no_zero, of _ _ _ r1] print_tail [OF text_no_zero(3), of _ _ _ r2]
      have "printf_loop (print response) junk F args (length pre) con
          = ebind (print response con ((if d = 0x64 then printed_int (sint (ucast a :: u32)) else hex_text (unat a)) @ [0]))
              (printf_loop (print response) junk F as (Suc (Suc (length pre))))"
        using conv F args(1) i p tail by (cases "d = 0x64"; subst printf_loop.simps; simp)
      then show ?thesis using IH args(3) unfolding F_def by simp
    qed
  qed
qed

lemma printf_eq:
  assumes "0 \<notin> set fmt" "render fmt args = Some chunks"
  shows "printf response junk con (fmt @ 0 # post) args
    = efold (\<lambda>chunk con. print response con (chunk @ [0])) chunks con"
  using printf_loop_renders [OF assms, of _ _ "[]"] by (simp add: printf_def)

text \<open>On the console, the pieces are one text.\<close>

lemma fits_append:
  "fits w (length (snd lg)) (xs @ ys) \<longleftrightarrow>
   fits w (length (snd lg)) xs \<and> fits w (length (snd (foldl (feed h) lg xs))) ys"
proof (induction xs arbitrary: lg)
  case (Cons b xs)
  show ?case using Cons.IH [of "feed h lg b"] by (auto simp: feed_def)
qed simp

lemma prints_log:
  assumes "console_log f con lg" "fits (fb_w f div 9) (length (snd lg)) (concat chunks)"
  shows "\<exists>con'. efold (\<lambda>chunk con. print (Some (f # fs)) con (chunk @ [0])) chunks con = Inr con' \<and>
    console_log f con' (foldl (feed (fb_h f div 16)) lg (concat chunks))"
  using assms
proof (induction chunks arbitrary: con lg)
  case (Cons t ts)
  from Cons.prems(2) have fit: "fits (fb_w f div 9) (length (snd lg)) t"
    "fits (fb_w f div 9) (length (snd (foldl (feed (fb_h f div 16)) lg t))) (concat ts)"
    using fits_append [where xs = t and h = "fb_h f div 16" and lg = lg] by auto
  from print_log [OF Cons.prems(1) fit(1)] obtain con' where
    "print (Some (f # fs)) con (t @ [0]) = Inr con'" "console_log f con' (foldl (feed (fb_h f div 16)) lg t)"
    by blast
  with Cons.IH [OF this(2) fit(2)] show ?case by simp
qed simp

lemma printf_log:
  assumes "console_log f con lg" "0 \<notin> set fmt" "render fmt args = Some chunks"
    and "fits (fb_w f div 9) (length (snd lg)) (concat chunks)"
  shows "\<exists>con'. printf (Some (f # fs)) junk con (fmt @ 0 # post) args = Inr con' \<and>
    console_log f con' (foldl (feed (fb_h f div 16)) lg (concat chunks))"
  using prints_log [OF assms(1,4)] by (simp add: printf_eq [OF assms(2,3)])

section \<open>Properties\<close>

text \<open>
  C28: \<open>int2str\<close> in the buffer of \<open>printf\<close>: for every \<open>int\<close> but the least, the
  buffer of 12 bytes is large enough and receives a zero-terminated decimal numeral that reads
  back as the number.
\<close>

theorem int2str_roundtrip:
  assumes "\<bar>v\<bar> < 2 ^ 31"
  shows "\<exists>t rest. int2str (replicate 12 junk) v = Inr (t @ 0 # rest, length t) \<and>
    0 \<notin> set t \<and> int_value t = v"
  using int2str_eq [OF assms, of "replicate 12 junk"] length_int_text [OF assms]
  by (auto simp: int_value_text text_no_zero)

theorem int2str_roundtrip_witness:
  "\<exists>t rest. int2str (replicate 12 7) (- 120) = Inr (t @ 0 # rest, length t) \<and> int_value t = - 120"
  using int2str_roundtrip [of "- 120" 7] by auto

text \<open>
  \<open>uintptr2str\<close> in the buffer of \<open>printf\<close>: every 64-bit value fits, and its
  zero-terminated hexadecimal numeral reads back as the value.
\<close>

theorem uintptr2str_roundtrip:
  "\<exists>t rest. uintptr2str (replicate 20 junk) v = Inr (t @ 0 # rest) \<and> 0 \<notin> set t \<and>
    hex_value t = unat v \<and> length t \<le> 16"
proof -
  have len: "length (hex_text (unat v)) \<le> 16" using unat_lt_64 [of v] by (intro length_hex_text) simp_all
  then show ?thesis using uintptr2str_eq [of v "replicate 20 junk"]
    by (auto simp: hex_value_text text_no_zero)
qed

text \<open>
  C27: \<open>printf\<close> prints its format piece by piece. For a format of less than 4 GiB whose conversions
  have their arguments and that does not end after a \<open>%\<close>, the loop over the format performs the
  calls of \<open>print\<close> that the structural rendering of the format lists, in order: each character by
  itself, the decimal numeral of the low 32 bits of an argument for \<open>%d\<close>, its hexadecimal numeral
  for \<open>%p\<close>, nothing for another conversion. The exception is part of the statement: for the least
  \<open>int\<close>, \<open>%d\<close> prints a minus sign and ten characters that are not digits.
\<close>

theorem printf_renders:
  assumes "length fmt < 2 ^ 32" "0 \<notin> set fmt" "render fmt args = Some chunks"
  shows "printf response junk con (fmt @ [0]) args
    = efold (\<lambda>chunk con. print response con (chunk @ [0])) chunks con"
  by (rule printf_eq [OF assms(2,3)])

theorem printf_renders_witness:
  "printf (Some [small_frame]) 7 boot_console [0x65, 0x25, 0x64, 0] [14] =
     efold (\<lambda>chunk con. print (Some [small_frame]) con (chunk @ [0])) [[0x65], [0x31, 0x34]] boot_console"
proof -
  have "printed_int 14 = [0x31, 0x34]"
    by (simp add: printed_int_def int_text_def dec_text_def digits.simps dec_glyph_def)
  then have "render [0x65, 0x25, 0x64] [14] = Some [[0x65], [0x31, 0x34]]" by simp
  from printf_renders [OF _ _ this] show ?thesis by simp
qed

text \<open>
  A format that ends with a single \<open>%\<close>: the terminator is consumed as the conversion
  character and the loop reads on behind the string.
\<close>

theorem printf_trailing_percent:
  "printf response junk con [0x25, 0] args = Inl OutOfBounds"
  by (simp add: printf_def printf_loop.simps)

end
