(* ===== verification/Timer.thy ===== *)
theory Timer
  imports Printf
begin

text \<open>
  The timer: \<open>timer_handler\<close> of \<open>kernel/time/pit.c\<close> and \<open>sleep\<close> of
  \<open>kernel/time/time.c\<close>. The loop of \<open>sleep\<close> waits for a variable that others change:
  the values it reads are a sequence \<open>ticks\<close>, and a run has fuel for a number of reads.
\<close>

definition timer_handler ::
    "limine_framebuffer list option \<Rightarrow> int \<Rightarrow> console \<Rightarrow> fault + (int \<times> console)" where
  "timer_handler response timer_ticks con =
     (let timer_ticks = wrap32 (timer_ticks + 1)
      in if timer_ticks smod 18 = 0
         then ebind (print response con (c_string ''One second has passed\<newline>'')) (\<lambda>con. Inr (timer_ticks, con))
         else Inr (timer_ticks, con))"

fun sleep_loop :: "nat \<Rightarrow> (nat \<Rightarrow> u64) \<Rightarrow> u64 \<Rightarrow> nat \<Rightarrow> nat option" where
  "sleep_loop 0 ticks toReach k = None"
| "sleep_loop (Suc fuel) ticks toReach k =
     (if ticks k \<noteq> toReach then sleep_loop fuel ticks toReach (Suc k) else Some k)"

text \<open>The number of the read at which \<open>sleep\<close> returns; the first read fixes the goal.\<close>

definition sleep :: "nat \<Rightarrow> (nat \<Rightarrow> u64) \<Rightarrow> u64 \<Rightarrow> nat option" where
  "sleep fuel ticks millis = (let toReach = ticks 0 + millis in sleep_loop fuel ticks toReach 1)"

lemma sleep_loop_Some_iff:
  "sleep_loop fuel ticks t k = Some n \<longleftrightarrow>
    k \<le> n \<and> n < k + fuel \<and> ticks n = t \<and> (\<forall>j. k \<le> j \<and> j < n \<longrightarrow> ticks j \<noteq> t)"
proof (induction fuel ticks t k rule: sleep_loop.induct)
  case (2 fuel ticks t k)
  show ?case
  proof (cases "ticks k = t")
    case True
    then show ?thesis by (auto intro: le_neq_implies_less)
  next
    case False
    have "(\<forall>j. Suc k \<le> j \<and> j < n \<longrightarrow> ticks j \<noteq> t) \<longleftrightarrow> (\<forall>j. k \<le> j \<and> j < n \<longrightarrow> ticks j \<noteq> t)"
      using False by (metis Suc_leD Suc_leI le_neq_implies_less)
    moreover have "Suc k \<le> n \<and> ticks n = t \<longleftrightarrow> k \<le> n \<and> ticks n = t"
      using False by (metis Suc_leD Suc_leI le_neq_implies_less)
    ultimately show ?thesis using 2 [OF False] False by auto
  qed
qed auto

lemma sleep_Some_iff:
  "sleep fuel ticks millis = Some n \<longleftrightarrow>
    1 \<le> n \<and> n \<le> fuel \<and> ticks n = ticks 0 + millis \<and> (\<forall>j. 1 \<le> j \<and> j < n \<longrightarrow> ticks j \<noteq> ticks 0 + millis)"
  by (auto simp: sleep_def sleep_loop_Some_iff)

text \<open>With a counter that advances by one between reads, \<open>sleep\<close> takes \<open>millis\<close> reads.\<close>

lemma sleep_counts:
  assumes "0 < unat millis" "unat millis \<le> fuel"
  shows "sleep fuel (\<lambda>k. t + of_nat k) millis = Some (unat millis)"
  using assms unat_lt_64 [of millis]
  by (auto simp: sleep_Some_iff unat_of_nat dest: arg_cong [where f = unat])

text \<open>
  The loop compares for equality: it ends at the first read that finds the goal, and a counter that
  is never read at the goal, because it stands still or steps over it, is waited for without end.
  Nothing in the kernel advances \<open>__kernel_ticks\<close>.
\<close>

theorem sleep_ends_iff:
  "(\<exists>fuel n. sleep fuel ticks millis = Some n) \<longleftrightarrow> (\<exists>n \<ge> 1. ticks n = ticks 0 + millis)"
proof
  assume "\<exists>n \<ge> 1. ticks n = ticks 0 + millis"
  then obtain n where "1 \<le> n \<and> ticks n = ticks 0 + millis" "\<forall>j < n. \<not> (1 \<le> j \<and> ticks j = ticks 0 + millis)"
    using exists_least_iff [of "\<lambda>n. 1 \<le> n \<and> ticks n = ticks 0 + millis"] by auto
  then have "sleep n ticks millis = Some n" by (simp add: sleep_Some_iff)
  then show "\<exists>fuel n. sleep fuel ticks millis = Some n" by blast
qed (auto simp: sleep_Some_iff)

end
