(* ===== verification/Rsod.thy ===== *)
theory Rsod
  imports Timer
begin

text \<open>
  The screen of death: the painting of the frame buffer that \<open>kernel/sys/rsod.c\<close> and
  \<open>_exception\<close> of \<open>kernel/sys/idt.c\<close> share, and both messages. The pixels are those of the
  terminal once there is one. A handler that ends in \<open>for (;;) hlt\<close> is its state at the halt.
\<close>

section \<open>Operations\<close>

text \<open>
  \<open>*(uint32_t*) (base + off) = v\<close> on a frame buffer of 32-bit words; at an address that is no
  multiple of four it changes two of them.
\<close>

definition store32 :: "u32 list \<Rightarrow> nat \<Rightarrow> u32 \<Rightarrow> u32 list option" where
  "store32 fb off v =
     (let i = off div 4; s = 8 * (off mod 4)
      in if s = 0 then aset fb i v
         else do {
           a \<leftarrow> aget fb i;
           b \<leftarrow> aget fb (Suc i);
           fb \<leftarrow> aset fb i (take_bit s a OR push_bit s v);
           aset fb (Suc i) (push_bit s (drop_bit s b) OR drop_bit (32 - s) v)
         })"

definition fill_row :: "limine_framebuffer \<Rightarrow> nat \<Rightarrow> u32 list \<Rightarrow> u32 list option" where
  "fill_row f i pix =
     ofold (\<lambda>e pix. store32 pix (sz_add (sz_mul i (pitch f)) (sz_mul e (bpp f) div 8)) 0xb25757)
       [0..<fb_w f] pix"

definition fill_screen :: "limine_framebuffer \<Rightarrow> u32 list \<Rightarrow> u32 list option" where
  "fill_screen f pix = ofold (fill_row f) [0..<fb_h f] pix"

definition strlen3 :: "u8 list \<Rightarrow> fault + nat" where
  "strlen3 str = scan str 0"

definition write_string :: "ctx \<Rightarrow> u8 list \<Rightarrow> fault + ctx" where
  "write_string c str = ebind (strlen3 str) (\<lambda>n. of_opt (flanterm_write c (take n str)))"

definition panic_message :: "u8 list" where
  "panic_message = c_string ''Well that's fucked up, Look's like your PC ran into an issue.''"

text \<open>The loops over the frame buffer, then the terminal.\<close>

definition paint :: "console \<Rightarrow> fault + ctx" where
  "paint con =
     ebind (deref (getFramebuffer con)) (\<lambda>f.
     ebind (of_opt (fill_screen f (case getContext con of Some c \<Rightarrow> framebuffer c | None \<Rightarrow> address f))) (\<lambda>pix.
     ebind (deref (getContext con)) (\<lambda>c. Inr (c\<lparr>framebuffer := pix\<rparr>))))"

definition exception_state :: "console \<Rightarrow> u8 list \<Rightarrow> fault + console" where
  "exception_state con description =
     ebind (paint con) (\<lambda>c.
     let c = flanterm_fb_set_cursor_pos
       ((flanterm_fb_set_text_bg_rgb (flanterm_fb_set_text_fg_rgb c 0x330000) 0xb25757)\<lparr>cursor_enabled := False\<rparr>) 5 10
     in ebind (write_string c panic_message) (\<lambda>c.
        ebind (write_string (flanterm_fb_set_cursor_pos c 5 11) description) (\<lambda>c.
          Inr (con\<lparr>con_context := Some c\<rparr>))))"

text \<open>
  \<open>rsodInit\<close> passes its \<open>char\<close> where an address is expected: the sign-extended value is
  an address in the first or the last 128 bytes of the address space, where no object is.
\<close>

definition char_pointer :: "u8 \<Rightarrow> fault + u8 list" where
  "char_pointer error = (if error = 0 then Inl NullDeref else Inl OutOfBounds)"

definition rsodInit :: "console \<Rightarrow> u8 \<Rightarrow> fault + console" where
  "rsodInit con error =
     ebind (paint con) (\<lambda>c.
     ebind (write_string (flanterm_fb_set_cursor_pos c 25 50) panic_message) (\<lambda>c.
     ebind (char_pointer error) (\<lambda>str.
     ebind (write_string (flanterm_fb_set_cursor_pos c 25 53) str) (\<lambda>c.
       Inr (con\<lparr>con_context := Some c\<rparr>)))))"

section \<open>The painting\<close>

definition frame_true_colour :: "limine_framebuffer \<Rightarrow> bool" where
  "frame_true_colour f \<longleftrightarrow> bpp f = 32 \<and> pitch f mod 4 = 0 \<and> fb_w f \<le> pitch f div 4 \<and>
     fb_h f * pitch f < 2 ^ 60"

lemma fill_row_eq:
  assumes f: "frame_true_colour f" and i: "i < fb_h f" and len: "length pix = fb_h f * (pitch f div 4)"
  shows "fill_row f i pix = Some (take (i * (pitch f div 4)) pix @ replicate (fb_w f) 0xb25757
    @ drop (i * (pitch f div 4) + fb_w f) pix)"
proof -
  let ?P = "pitch f div 4"
  note f' = f [unfolded frame_true_colour_def]
  have p: "pitch f = 4 * ?P" using f' by presburger
  have "Suc i * pitch f \<le> fb_h f * pitch f" using i by (intro mult_le_mono1) simp
  then have small: "i * pitch f + pitch f < 2 ^ 60" using f' by simp
  have "Suc i * ?P \<le> fb_h f * ?P" using i by (intro mult_le_mono1) simp
  then have fit: "i * ?P + fb_w f \<le> length pix" using f' len by simp
  have "store32 pix (sz_add (sz_mul i (pitch f)) (sz_mul e (bpp f) div 8)) 0xb25757 = aset pix (i * ?P + e) 0xb25757"
    if "e < fb_w f" for e pix
  proof -
    have e: "e < pitch f div 4" using that f' by simp
    have "e * 4 < pitch f" using e p by linarith
    then have "e * 32 < 2 ^ 64" "i * pitch f < 2 ^ 64" "i * pitch f + e * 4 < 2 ^ 64" using small by simp_all
    then have "sz_add (sz_mul i (pitch f)) (sz_mul e (bpp f) div 8) = i * pitch f + e * 4"
      using f' by (simp add: sz_simps SZ_def)
    also have "\<dots> = 4 * (i * ?P + e)" by (subst p) (simp add: algebra_simps)
    finally show ?thesis by (simp add: store32_def)
  qed
  then have "fill_row f i pix = ofold (\<lambda>e pix. aset pix (i * ?P + e) 0xb25757) [0..<fb_w f] pix"
    unfolding fill_row_def by (intro ofold_cong_set) auto
  also have "\<dots> = Some (take (i * ?P + 0) pix @ map (\<lambda>_. 0xb25757) [0..<fb_w f] @ drop (i * ?P + fb_w f) pix)"
    by (rule fill_block [OF _ fit]) simp
  finally show ?thesis by (simp add: map_replicate_const)
qed

lemma fill_rows:
  assumes f: "frame_true_colour f" and len: "length pix = fb_h f * (pitch f div 4)" and n: "n \<le> fb_h f"
  shows "\<exists>q. ofold (fill_row f) [0..<n] pix = Some q \<and> length q = length pix \<and>
    (\<forall>y < fb_h f. \<forall>x < pitch f div 4. q ! (y * (pitch f div 4) + x) =
       (if y < n \<and> x < fb_w f then 0xb25757 else pix ! (y * (pitch f div 4) + x)))"
  using n
proof (induction n)
  case (Suc n)
  let ?P = "pitch f div 4"
  from Suc obtain q where q: "ofold (fill_row f) [0..<n] pix = Some q" "length q = length pix"
    "\<forall>y < fb_h f. \<forall>x < ?P. q ! (y * ?P + x) = (if y < n \<and> x < fb_w f then 0xb25757 else pix ! (y * ?P + x))"
    by auto
  let ?q = "take (n * ?P) q @ replicate (fb_w f) 0xb25757 @ drop (n * ?P + fb_w f) q"
  have w: "fb_w f \<le> ?P" using f by (simp add: frame_true_colour_def)
  have "Suc n * ?P \<le> fb_h f * ?P" using Suc.prems by (intro mult_le_mono1)
  then have fit: "n * ?P + ?P \<le> length q" using q(2) len by simp
  have "fill_row f n q = Some ?q" using fill_row_eq [OF f, of n q] Suc.prems q(2) len by simp
  moreover have "length ?q = length pix" using fit w q(2) by simp
  moreover have "?q ! (y * ?P + x) = (if y < Suc n \<and> x < fb_w f then 0xb25757 else pix ! (y * ?P + x))"
    if y: "y < fb_h f" and x: "x < ?P" for y x
  proof -
    have "q ! (y * ?P + x) = (if y < n \<and> x < fb_w f then 0xb25757 else pix ! (y * ?P + x))"
      using q(3) x y by blast
    moreover have "?q ! (y * ?P + x) = (if n * ?P \<le> y * ?P + x \<and> y * ?P + x < n * ?P + fb_w f
        then 0xb25757 else q ! (y * ?P + x))"
    proof -
      have "Suc y * ?P \<le> fb_h f * ?P" using y by (intro mult_le_mono1) simp
      then have "y * ?P + x < length q" using x q(2) len by simp
      then show ?thesis
        using nth_blit [of "n * ?P" "replicate (fb_w f) 0xb25757" q "y * ?P + x"] fit w
        by (auto simp: blit_def intro!: nth_replicate; linarith)
    qed
    moreover have "n * ?P \<le> y * ?P + x \<and> y * ?P + x < n * ?P + fb_w f \<longleftrightarrow> y = n \<and> x < fb_w f"
    proof -
      consider "y < n" | "y = n" | "n < y" by linarith
      then show ?thesis
      proof cases
        case 1
        then have "Suc y * ?P \<le> n * ?P" by (intro mult_le_mono1) simp
        then show ?thesis using 1 x by simp
      next
        case 3
        then have "Suc n * ?P \<le> y * ?P" by (intro mult_le_mono1) simp
        then show ?thesis using 3 w by simp
      qed simp
    qed
    ultimately show ?thesis by auto
  qed
  ultimately show ?case using q(1) by (auto simp: ofold_append)
qed simp

text \<open>
  The painting of the screen: on a frame buffer of 32 bits per pixel both loops together set
  every visible pixel to the colour, stay inside the frame buffer, and leave the padding at the
  end of each row alone.
\<close>

theorem fill_screen_paints:
  assumes "frame_true_colour f" "length pix = fb_h f * (pitch f div 4)"
  shows "\<exists>q. fill_screen f pix = Some q \<and> length q = length pix \<and>
    (\<forall>y < fb_h f. \<forall>x < pitch f div 4. q ! (y * (pitch f div 4) + x) =
       (if x < fb_w f then 0xb25757 else pix ! (y * (pitch f div 4) + x)))"
  using fill_rows [OF assms order.refl] by (auto simp: fill_screen_def)

theorem fill_screen_paints_witness:
  "\<exists>q. fill_screen \<lparr>address = [], fb_w = 2, fb_h = 2, pitch = 12, bpp = 32\<rparr> [0, 0, 1, 0, 0, 1] = Some q \<and>
     q ! 4 = 0xb25757 \<and> q ! 5 = 1"
proof -
  from fill_screen_paints [of "\<lparr>address = [], fb_w = 2, fb_h = 2, pitch = 12, bpp = 32\<rparr>" "[0, 0, 1, 0, 0, 1]"]
  obtain q where "fill_screen \<lparr>address = [], fb_w = 2, fb_h = 2, pitch = 12, bpp = 32\<rparr> [0, 0, 1, 0, 0, 1] = Some q"
    and q: "\<forall>y < 2. \<forall>x < 3. q ! (y * 3 + x) = (if x < 2 then 0xb25757 else [0, 0, 1, 0, 0, 1] ! (y * 3 + x))"
    by (auto simp: frame_true_colour_def)
  then show ?thesis using q [rule_format, of 1 1] q [rule_format, of 1 2] by simp
qed

text \<open>
  \<open>rsodInit\<close> never gets to its halt: the error code it is given is used as the address
  of a string.
\<close>

theorem rsodInit_faults: "\<exists>e. rsodInit con error = Inl e"
  by (simp add: rsodInit_def char_pointer_def ebind_def split: sum.split)

end
