(* ===== verification/IDT.thy ===== *)
theory IDT
  imports GDT Rsod
begin

text \<open>
  The interrupt descriptors of \<open>kernel/sys/idt.c\<close> and the handlers behind them, with
  \<open>timer_install\<close> of \<open>kernel/time/pit.c\<close>. The addresses of the assembly stubs
  \<open>isr0\<close> to \<open>isr33\<close> are a parameter \<open>isr\<close>. The only function that can be in
  the table \<open>irqs\<close> is \<open>timer_handler\<close>. A handler returns or halts the machine; then the
  value carries the state at the halt.
\<close>

section \<open>The descriptor table\<close>

record idtEntry =
  baseLow :: u16
  selector :: u16
  reservedIst :: u8
  flags :: u8
  baseMid :: u16
  baseHigh :: u32
  reserved :: u32

record idtPointer =
  idt_limit :: u16
  idt_base :: u64

definition zero_gate :: idtEntry where
  "zero_gate = \<lparr>baseLow = 0, selector = 0, reservedIst = 0, flags = 0, baseMid = 0, baseHigh = 0, reserved = 0\<rparr>"

definition idtSet :: "u8 \<Rightarrow> u64 \<Rightarrow> u16 \<Rightarrow> u8 \<Rightarrow> idtEntry list \<Rightarrow> fault + idtEntry list" where
  "idtSet number base sel fl idt =
     ebind (eget idt (unat number)) (\<lambda>e.
       eset idt (unat number) (e\<lparr>baseLow := ucast (base AND 0xFFFF),
         baseMid := ucast (drop_bit 16 base AND 0xFFFF),
         baseHigh := ucast (drop_bit 32 base AND 0xFFFFFFFF),
         selector := sel, flags := fl, reservedIst := 0, reserved := 0\<rparr>))"

definition sizeof_idt :: nat where "sizeof_idt = 16 * 256"

definition idtStart :: "(nat \<Rightarrow> u64) \<Rightarrow> u64 \<Rightarrow> idtEntry list \<Rightarrow> fault + (idtEntry list \<times> idtPointer)" where
  "idtStart isr idt_addr idt =
     (let idtP = \<lparr>idt_limit = of_nat (sizeof_idt - 1), idt_base = idt_addr\<rparr>;
          idt = replicate (length idt) zero_gate
      in ebind (efold (\<lambda>n idt. idtSet (of_nat n) (isr n) 0x28 0x8E idt) [0..<34] idt) (\<lambda>idt.
           Inr (idt, idtP)))"

text \<open>The processor's view of a gate.\<close>

definition gate_offset :: "idtEntry \<Rightarrow> u64" where
  "gate_offset e = ucast (baseLow e) OR push_bit 16 (ucast (baseMid e)) OR push_bit 32 (ucast (baseHigh e))"

definition gate_present :: "idtEntry \<Rightarrow> bool" where "gate_present e = bit (flags e) 7"

definition gate_dpl :: "idtEntry \<Rightarrow> nat" where "gate_dpl e = unat (drop_bit 5 (flags e) AND 3)"

definition interrupt_gate :: "idtEntry \<Rightarrow> bool" where "interrupt_gate e \<longleftrightarrow> flags e AND 0x1F = 0x0E"

lemma gate_offset_split:
  "(ucast (ucast (b AND 0xFFFF) :: u16) :: u64) OR push_bit 16 (ucast (ucast (drop_bit 16 b AND 0xFFFF) :: u16))
    OR push_bit 32 (ucast (ucast (drop_bit 32 b AND 0xFFFFFFFF) :: u32)) = (b :: u64)"
proof (rule bit_word_eqI)
  fix n
  assume "n < LENGTH(64)"
  then have n: "n < 64" by simp
  have m: "(0xFFFF :: u64) = mask 16" "(0xFFFFFFFF :: u64) = mask 32" by (simp_all add: mask_eq_exp_minus_1)
  show "bit ((ucast (ucast (b AND 0xFFFF) :: u16) :: u64) OR push_bit 16 (ucast (ucast (drop_bit 16 b AND 0xFFFF) :: u16))
    OR push_bit 32 (ucast (ucast (drop_bit 32 b AND 0xFFFFFFFF) :: u32))) n = bit b n"
    unfolding m using n
    by (cases "n < 32"; cases "n < 16"; auto simp: bit_or_iff bit_push_bit_iff bit_ucast_iff bit_and_iff bit_mask_iff bit_drop_bit_eq)
qed

lemma idtSet_eq:
  assumes "length idt = 256"
  shows "\<exists>e. idtSet k base sel fl idt = Inr (idt[unat k := e]) \<and> gate_offset e = base \<and>
    selector e = sel \<and> flags e = fl \<and> reservedIst e = 0 \<and> reserved e = 0"
proof -
  have "unat k < 256" using unsigned_less [of k, where ?'a = nat] by simp
  let ?e = "(idt ! unat k)\<lparr>baseLow := ucast (base AND 0xFFFF),
         baseMid := ucast (drop_bit 16 base AND 0xFFFF),
         baseHigh := ucast (drop_bit 32 base AND 0xFFFFFFFF),
         selector := sel, flags := fl, reservedIst := 0, reserved := 0\<rparr>"
  have "idtSet k base sel fl idt = Inr (idt[unat k := ?e])" using \<open>unat k < 256\<close> assms by (simp add: idtSet_def)
  moreover have "gate_offset ?e = base" using gate_offset_split [of base] by (simp add: gate_offset_def)
  ultimately show ?thesis by (intro exI [of _ ?e]) simp
qed

text \<open>The gates before number \<open>m\<close> are set, the others not present.\<close>

definition gates_set :: "(nat \<Rightarrow> u64) \<Rightarrow> nat \<Rightarrow> idtEntry list \<Rightarrow> bool" where
  "gates_set isr m idt \<longleftrightarrow> length idt = 256 \<and>
     (\<forall>n < m. gate_offset (idt ! n) = isr n \<and> selector (idt ! n) = 0x28 \<and> flags (idt ! n) = 0x8E \<and>
        reservedIst (idt ! n) = 0) \<and>
     (\<forall>n. m \<le> n \<and> n < 256 \<longrightarrow> idt ! n = zero_gate)"

lemma gates_fold:
  assumes "gates_set isr 0 idt" "m \<le> 256"
  shows "\<exists>t. efold (\<lambda>n idt. idtSet (of_nat n) (isr n) 0x28 0x8E idt) [0..<m] idt = Inr t \<and> gates_set isr m t"
  using assms(2)
proof (induction m)
  case (Suc m)
  then obtain t where t: "efold (\<lambda>n idt. idtSet (of_nat n) (isr n) 0x28 0x8E idt) [0..<m] idt = Inr t"
    "gates_set isr m t" by auto
  have k: "unat (of_nat m :: u8) = m" using Suc.prems by (simp add: unat_of_nat)
  from idtSet_eq [of t "of_nat m" "isr m" "0x28" "0x8E"] t(2) k obtain e where
    "idtSet (of_nat m) (isr m) 0x28 0x8E t = Inr (t[m := e])" "gate_offset e = isr m"
    "selector e = 0x28" "flags e = 0x8E" "reservedIst e = 0" by (auto simp: gates_set_def)
  moreover have "gates_set isr (Suc m) (t[m := e])"
    using t(2) Suc.prems calculation by (auto simp: gates_set_def nth_list_update less_Suc_eq)
  ultimately show ?case using t(1) by (simp add: efold_append)
qed (use assms(1) in simp)

lemma idtStart_ok:
  assumes "length idt = 256"
  shows "\<exists>t. idtStart isr a idt = Inr (t, \<lparr>idt_limit = 4095, idt_base = a\<rparr>) \<and> gates_set isr 34 t"
proof -
  have "gates_set isr 0 (replicate 256 zero_gate)" by (simp add: gates_set_def)
  from gates_fold [OF this, of 34] show ?thesis
    using assms by (auto simp: idtStart_def sizeof_idt_def)
qed

text \<open>
  C25: the interrupt table against the segment table. After \<open>gdt_init\<close> and \<open>idtStart\<close>,
  each of the vectors 0 to 33 has a present interrupt gate of privilege 0 whose offset is the
  address of its stub, all 64 bits of it, and whose selector names the 64-bit kernel code
  segment; no other vector has a present gate, and the limit covers all 256.
\<close>

theorem idtStart_gates:
  assumes "length idt = 256" "length gdt = 11"
  shows "\<exists>t p g s. idtStart isr a idt = Inr (t, p) \<and> gdt_init b gdt = Inr (g, s) \<and>
    length t = 256 \<and> idt_base p = a \<and> unat (idt_limit p) = 256 * 16 - 1 \<and>
    (\<forall>n < 34. gate_present (t ! n) \<and> interrupt_gate (t ! n) \<and> gate_dpl (t ! n) = 0 \<and>
       gate_offset (t ! n) = isr n \<and>
       (\<exists>r. lookup_segment g (seg_gdtr s) (selector (t ! n)) = Some r \<and> long_code 0 r)) \<and>
    (\<forall>n < 256. 34 \<le> n \<longrightarrow> \<not> gate_present (t ! n))"
proof -
  from idtStart_ok [OF assms(1)] obtain t where
    t: "idtStart isr a idt = Inr (t, \<lparr>idt_limit = 4095, idt_base = a\<rparr>)" "gates_set isr 34 t" by blast
  have "long_code 0 0x00209a0000000000" by (simp add: seg_defs)
  then show ?thesis using t gdt_init_eq [OF assms(2), of b]
    by (auto simp: gates_set_def gate_present_def interrupt_gate_def gate_dpl_def gdt_reload_def
        boot_gdt_lookup zero_gate_def)
qed

theorem idtStart_gates_witness:
  "\<exists>t p. idtStart (\<lambda>n. of_nat n * 0x10 + 0xffffffff80000000) 0x2000 (replicate 256 zero_gate) = Inr (t, p) \<and>
     gate_offset (t ! 14) = 0xffffffff800000e0"
proof -
  let ?isr = "\<lambda>n. of_nat n * 0x10 + 0xffffffff80000000 :: u64"
  from idtStart_gates [of "replicate 256 zero_gate" "replicate 11 zero_descriptor" ?isr "0x2000" 0]
  obtain t p where "idtStart ?isr 0x2000 (replicate 256 zero_gate) = Inr (t, p)"
    "\<forall>n < 34. gate_offset (t ! n) = ?isr n" by auto
  then show ?thesis by auto
qed

section \<open>The handlers\<close>

datatype irq_fn = Timer_handler

text \<open>
  The statics: \<open>irqs\<close> is a pointer to an array of function pointers, both of which can be
  \<open>NULL\<close>. \<open>rsodBusy\<close> is never assigned.
\<close>

record interrupts =
  irqs :: "irq_fn option list option"
  rsodBusy :: bool
  timer_ticks :: int
  int_console :: console

definition boot_interrupts :: "console \<Rightarrow> interrupts" where
  "boot_interrupts con = \<lparr>irqs = None, rsodBusy = False, timer_ticks = 0, int_console = con\<rparr>"

definition irq_install :: "interrupts \<Rightarrow> irq_fn option \<Rightarrow> int \<Rightarrow> fault + interrupts" where
  "irq_install st irq index =
     ebind (deref (irqs st)) (\<lambda>tbl.
       if index - 32 < 0 then Inl OutOfBounds
       else ebind (eset tbl (nat (index - 32)) irq) (\<lambda>tbl. Inr (st\<lparr>irqs := Some tbl\<rparr>)))"

text \<open>
  \<open>timer_install\<close> calls \<open>irq_install(0, timer_handler)\<close>: the handler is \<open>NULL\<close> and the
  index the address of \<open>timer_handler\<close> as an \<open>int\<close>.
\<close>

definition timer_install :: "u64 \<Rightarrow> interrupts \<Rightarrow> fault + interrupts" where
  "timer_install timer_handler_addr st = irq_install st None (sint (ucast timer_handler_addr :: u32))"

definition call_irq :: "limine_framebuffer list option \<Rightarrow> irq_fn \<Rightarrow> interrupts \<Rightarrow> fault + interrupts" where
  "call_irq response fn st =
     (case fn of Timer_handler \<Rightarrow>
        ebind (timer_handler response (timer_ticks st) (int_console st)) (\<lambda>(t, con).
          Inr (st\<lparr>timer_ticks := t, int_console := con\<rparr>)))"

text \<open>The test for a missing handler has an empty body: the handler is called all the same.\<close>

definition handleIrq :: "limine_framebuffer list option \<Rightarrow> interrupts \<Rightarrow> nat \<Rightarrow> fault + interrupts" where
  "handleIrq response st irqIndex =
     ebind (deref (irqs st)) (\<lambda>tbl.
     ebind (eget tbl irqIndex) (\<lambda>handler.
     ebind (deref handler) (\<lambda>fn. call_irq response fn st)))"

definition exception :: "interrupts \<Rightarrow> u8 list \<Rightarrow> fault + (interrupts, interrupts) outcome" where
  "exception st description =
     (if \<not> rsodBusy st then
        ebind (exception_state (int_console st) description) (\<lambda>con.
          Inr (Halts (st\<lparr>int_console := con\<rparr>)))
      else Inr (Returns st))"

text \<open>The registers a stub of \<open>sys/_asm_idt.asm\<close> leaves on the stack, from the lowest address up.\<close>

record registers =
  regs_r15 :: u64
  regs_r14 :: u64
  regs_r13 :: u64
  regs_r12 :: u64
  regs_r11 :: u64
  regs_r10 :: u64
  regs_r9 :: u64
  regs_r8 :: u64
  regs_rbp :: u64
  regs_rdi :: u64
  regs_rsi :: u64
  regs_rdx :: u64
  regs_rcx :: u64
  regs_rbx :: u64
  regs_rax :: u64
  int_no :: u64
  err_code :: u64
  regs_rip :: u64
  regs_cs :: u64
  regs_rflags :: u64
  regs_rsp :: u64
  regs_ss :: u64

text \<open>The result of \<open>isrHandler\<close> is its argument, with the kernel state it leaves.\<close>

definition isrHandler :: "limine_framebuffer list option \<Rightarrow> u8 \<Rightarrow> interrupts \<Rightarrow> registers
    \<Rightarrow> fault + (interrupts \<times> registers, interrupts) outcome" where
  "isrHandler response junk st regs =
     ebind (printf response junk (int_console st) (c_string ''e: %d\<newline>'') [int_no regs]) (\<lambda>con.
       let st = st\<lparr>int_console := con\<rparr> in
       ebind (if int_no regs = 14 then exception st (c_string ''PAGE FAULT'')
         else if int_no regs = 32 then ebind (handleIrq response st 0) (\<lambda>st. Inr (Returns st))
         else if int_no regs = 33 then ebind (handleIrq response st 1) (\<lambda>st. Inr (Returns st))
         else Inr (Returns st)) (\<lambda>out.
       Inr (case out of Returns st \<Rightarrow> Returns (st, regs) | Halts st \<Rightarrow> Halts st)))"

text \<open>What the first line of \<open>isrHandler\<close> prints.\<close>

lemma isr_format:
  "c_string ''e: %d\<newline>'' = [0x65, 0x3a, 0x20, 0x25, 0x64, 0x0a] @ [0]"
  by (simp add: c_string_def)

lemma isr_render:
  "render [0x65, 0x3a, 0x20, 0x25, 0x64, 0x0a] [n] =
    Some [[0x65], [0x3a], [0x20], printed_int (sint (ucast n :: u32)), [0x0a]]"
  by simp

lemma dec_text_printable: "b \<in> set (dec_text n) \<Longrightarrow> b \<noteq> 0x0a \<and> 0x20 \<le> b \<and> b \<le> 0x7e"
proof -
  assume "b \<in> set (dec_text n)"
  then obtain d where "b = dec_glyph d" "d < 10" using digits_less [of 10 n] by (auto simp: dec_text_def)
  then have "unat b = d + 0x30" "d < 10" by (simp_all add: unat_dec_glyph)
  then show ?thesis by (auto simp: word_le_unat)
qed

text \<open>The vector number as the decimal text that is printed.\<close>

lemma small_int: "n < 2 ^ 31 \<Longrightarrow> sint (ucast (n :: u64) :: u32) = int (unat n)"
proof -
  assume "n < 2 ^ 31"
  then have n: "unat n < 2 ^ 31" by (simp add: word_less_unat)
  then have "unat (ucast n :: u32) = unat n" 
    by (simp add: unsigned_ucast_eq take_bit_nat_eq_self)
  then have "uint (ucast n :: u32) = int (unat n)" by (metis uint_nat)
  moreover have "signed_take_bit 31 (int (unat n)) = int (unat n)"
  proof (rule signed_take_bit_int_eq_self)
    have "unat n < 2147483648" using n by simp
    then have "int (unat n) < 2147483648" by linarith
    then show "int (unat n) < 2 ^ 31" by simp
    show "- (2 ^ 31) \<le> int (unat n)" by (rule order_trans [of _ 0]) simp_all
  qed
  ultimately show ?thesis by (simp add: sint_uint)
qed

lemma isr_print:
  assumes log: "console_log f con lg" and w: "length (snd lg) + 13 < fb_w f div 9" and n: "n < 2 ^ 31"
  shows "\<exists>con'. printf (Some (f # fs)) junk con (c_string ''e: %d\<newline>'') [n] = Inr con' \<and>
    console_log f con' (add_line (fb_h f div 16) (fst lg) (snd lg @ [0x65, 0x3a, 0x20] @ dec_text (unat n)), [])"
proof -
  let ?t = "[0x65, 0x3a, 0x20] @ dec_text (unat n)"
  have un: "unat n < 2 ^ 31" using n by (simp add: word_less_unat)
  have "int k \<noteq> - (2 ^ 31)" for k :: nat by simp
  then have "printed_int (int k) = dec_text k" for k :: nat by (simp add: printed_int_def int_text_def)
  then have tx: "printed_int (sint (ucast n :: u32)) = dec_text (unat n)" unfolding small_int [OF n] .
  have "length (dec_text (unat n)) \<le> 10" using un by (intro length_dec_text) simp_all
  then have len: "length (snd lg) + length ?t < fb_w f div 9" using w by simp
  have pr: "\<forall>b \<in> set ?t. b \<noteq> 0x0a \<and> 0x20 \<le> b \<and> b \<le> 0x7e" using dec_text_printable by auto
  have cat: "concat [[0x65], [0x3a], [0x20], dec_text (unat n), [0x0a]] = ?t @ [0x0a]" by simp
  have fit: "fits (fb_w f div 9) (length (snd lg)) (?t @ [0x0a])" using fits_text [OF pr len, of "[0x0a]"] by simp
  have "foldl (feed (fb_h f div 16)) lg (?t @ [0x0a])
      = (add_line (fb_h f div 16) (fst lg) (snd lg @ ?t), [])"
    by (rule feed_line) (use pr in blast)
  moreover have "0 \<notin> set [0x65 :: u8, 0x3a, 0x20, 0x25, 0x64, 0x0a]" by simp
  ultimately show ?thesis
    using printf_log [OF log _ isr_render [of n], where junk = junk and post = "[]" and fs = fs] fit
    unfolding tx cat isr_format by auto
qed

text \<open>
  A vector without a case. \<open>isrHandler\<close> adds one line with the vector number to the
  console and returns its argument; nothing else of the kernel state changes.
\<close>

lemma isrHandler_returns:
  assumes "console_log f (int_console st) lg" "length (snd lg) + 13 < fb_w f div 9" "int_no regs < 2 ^ 31"
    and "int_no regs \<noteq> 14" "int_no regs \<noteq> 32" "int_no regs \<noteq> 33"
  shows "\<exists>con'. isrHandler (Some (f # fs)) junk st regs = Inr (Returns (st\<lparr>int_console := con'\<rparr>, regs)) \<and>
    console_log f con' (add_line (fb_h f div 16) (fst lg)
      (snd lg @ [0x65, 0x3a, 0x20] @ dec_text (unat (int_no regs))), [])"
  using isr_print [OF assms(1-3), of fs junk] assms(4-6) by (auto simp: isrHandler_def Let_def)

definition zero_registers :: registers where
  "zero_registers = \<lparr>regs_r15 = 0, regs_r14 = 0, regs_r13 = 0, regs_r12 = 0, regs_r11 = 0, regs_r10 = 0,
     regs_r9 = 0, regs_r8 = 0, regs_rbp = 0, regs_rdi = 0, regs_rsi = 0, regs_rdx = 0, regs_rcx = 0,
     regs_rbx = 0, regs_rax = 0, int_no = 0, err_code = 0, regs_rip = 0, regs_cs = 0, regs_rflags = 0,
     regs_rsp = 0, regs_ss = 0\<rparr>"

text \<open>
  The device interrupts. \<open>irqs\<close> is never allocated, so that the first of the vectors 32
  and 33 dereferences \<open>NULL\<close> after its line has been printed, and installing the timer does
  so as well.
\<close>

theorem irq_null:
  assumes "console_log f (int_console st) lg" "length (snd lg) + 13 < fb_w f div 9" "int_no regs = 32 \<or> int_no regs = 33"
    and "irqs st = None"
  shows "isrHandler (Some (f # fs)) junk st regs = Inl NullDeref \<and> timer_install a st = Inl NullDeref"
proof -
  have "int_no regs < 2 ^ 31" using assms(3) by auto
  from isr_print [OF assms(1,2) this, of fs junk] show ?thesis
    using assms(3,4) by (auto simp: isrHandler_def Let_def handleIrq_def timer_install_def irq_install_def)
qed

theorem irq_null_witness:
  "timer_install 0xffffffff80001000 (boot_interrupts boot_console) = Inl NullDeref"
proof -
  let ?f = "small_frame\<lparr>fb_w := 144, pitch := 576, address := replicate 4608 0\<rparr>"
  have "frame_usable ?f"
    by (simp add: frame_usable_def frame_ok_def small_frame_def pool_need_def BUMP_ALLOC_POOL_SIZE_def)
  then have "console_log ?f (int_console (boot_interrupts boot_console)) ([], [])"
    using boot_console_log by (simp add: boot_interrupts_def)
  from irq_null [OF this, of "zero_registers\<lparr>int_no := 32\<rparr>" "[]" 7] show ?thesis by (auto simp: small_frame_def boot_interrupts_def)
qed

end
