(* ===== verification/Kernel.thy ===== *)
theory Kernel
  imports PMM IDT
begin

text \<open>
  The entry point \<open>_start\<close> of \<open>kernel/kernel.c\<close>: the console, the page allocator, the
  segment and the interrupt descriptors are set up in this order, with a message after each,
  and the kernel halts in \<open>hcf\<close>. The state at the halt is the value; a boot that is given up
  in \<open>add_free_region\<close> halts with a message, and then the console is the value. What the boot loader
  provides (its frame buffers and its memory map) and the addresses the linker chooses (of both
  tables and of the interrupt stubs) are parameters.
\<close>

section \<open>Operations\<close>

record platform =
  p_framebuffers :: "limine_framebuffer list option"
  p_memmap :: "memmap_entry list option"
  p_isr :: "nat \<Rightarrow> u64"
  p_gdt :: u64
  p_idt :: u64

record kernel =
  k_console :: console
  k_pmm :: pmm
  k_gdt :: "gdt_descriptor list"
  k_segments :: segments
  k_idt :: "idtEntry list"
  k_idtP :: idtPointer

definition start :: "platform \<Rightarrow> console \<Rightarrow> pmm \<Rightarrow> gdt_descriptor list \<Rightarrow> idtEntry list
    \<Rightarrow> fault + (kernel, console) outcome" where
  "start p con pmm gdt idt =
     ebind (print (p_framebuffers p) con (c_string ''Loading DeerOS...\<newline>'')) (\<lambda>con.
     ebind (deref (p_memmap p)) (\<lambda>entries.
     halting (p_framebuffers p) con (FreelistPMMInit entries pmm) (\<lambda>pmm.
     ebind (print (p_framebuffers p) con (c_string ''Physical Memory Manager Init: OK.\<newline>'')) (\<lambda>con.
     ebind (gdt_init (p_gdt p) gdt) (\<lambda>(gdt, segs).
     ebind (print (p_framebuffers p) con (c_string ''GDT Init: OK.\<newline>'')) (\<lambda>con.
     ebind (idtStart (p_isr p) (p_idt p) idt) (\<lambda>(idt, idtP).
     ebind (print (p_framebuffers p) con (c_string ''IDT Init: OK.\<newline>'')) (\<lambda>con.
       Inr (Returns \<lparr>k_console = con, k_pmm = pmm, k_gdt = gdt, k_segments = segs, k_idt = idt,
         k_idtP = idtP\<rparr>)))))))))"

text \<open>The statics before the first instruction.\<close>

definition boot :: "platform \<Rightarrow> fault + (kernel, console) outcome" where
  "boot p = start p boot_console pmm_boot (replicate 11 zero_descriptor) (replicate 256 zero_gate)"

section \<open>The boot log\<close>

definition boot_lines :: "u8 list list" where
  "boot_lines = map (map of_char) [''Loading DeerOS...'', ''Physical Memory Manager Init: OK.'',
     ''GDT Init: OK.'', ''IDT Init: OK.'']"

lemma c_lines:
  "c_string ''Loading DeerOS...\<newline>'' = (boot_lines ! 0) @ [0x0a, 0]"
  "c_string ''Physical Memory Manager Init: OK.\<newline>'' = (boot_lines ! 1) @ [0x0a, 0]"
  "c_string ''GDT Init: OK.\<newline>'' = (boot_lines ! 2) @ [0x0a, 0]"
  "c_string ''IDT Init: OK.\<newline>'' = (boot_lines ! 3) @ [0x0a, 0]"
  using c_line [of "''Loading DeerOS...''"] c_line [of "''Physical Memory Manager Init: OK.''"]
    c_line [of "''GDT Init: OK.''"] c_line [of "''IDT Init: OK.''"]
  by (simp_all only: append_Cons append_Nil boot_lines_def nth_Cons_0 nth_Cons_numeral list.map
      numeral_1_eq_Suc_0 nth_Cons_Suc One_nat_def numeral_2_eq_2 numeral_3_eq_3)

lemma boot_lines_printable:
  "length boot_lines = 4"
  "\<forall>l \<in> set boot_lines. length l \<le> 33"
  "\<forall>l \<in> set boot_lines. \<forall>b \<in> set l. b \<noteq> 0x0a \<and> 0x20 \<le> b \<and> b \<le> 0x7e"
  by (simp_all add: boot_lines_def)

lemma boot_line:
  assumes "console_log f con (ls, [])" "length ls < 4" "5 \<le> fb_h f div 16" "34 \<le> fb_w f div 9" "i < 4"
  shows "\<exists>con' c. print (Some (f # fs)) con ((boot_lines ! i) @ [0x0a, 0]) = Inr con' \<and>
    console_log f con' (ls @ [boot_lines ! i], []) \<and> con_context con' = Some c \<and>
    (\<forall>x < cols c. \<forall>y < rows c. displays c (screen c ! (y * cols c + x)) x y)"
proof -
  have "boot_lines ! i \<in> set boot_lines" using assms(5) boot_lines_printable(1) by simp
  then have "\<forall>b \<in> set (boot_lines ! i). b \<noteq> 0x0a \<and> 0x20 \<le> b \<and> b \<le> 0x7e" "length (boot_lines ! i) \<le> 33"
    using boot_lines_printable(2,3) by blast+
  moreover from this(2) have "length (boot_lines ! i) < fb_w f div 9" using assms(4) by linarith
  moreover have "add_line (fb_h f div 16) ls (boot_lines ! i) = ls @ [boot_lines ! i]"
    using assms(2,3) by (simp add: add_line_def)
  ultimately show ?thesis using print_line [OF assms(1), of "boot_lines ! i" fs] by simp
qed

text \<open>What the machine has when the kernel halts.\<close>

definition booted :: "platform \<Rightarrow> limine_framebuffer \<Rightarrow> memmap_entry list \<Rightarrow> kernel \<Rightarrow> bool" where
  "booted p f entries k \<longleftrightarrow>
     console_log f (k_console k) (boot_lines, []) \<and>
     pmm_wf (k_pmm k) \<and> regions (k_pmm k) = map entry_region (usable entries) \<and>
     k_gdt k = boot_gdt \<and> k_segments k = gdt_reload \<lparr>gdtr_limit = 87, gdtr_base = p_gdt p\<rparr> \<and>
     gates_set (p_isr p) 34 (k_idt k) \<and> k_idtP k = \<lparr>idt_limit = 4095, idt_base = p_idt p\<rparr>"

lemma boot_ok:
  assumes p: "p_framebuffers p = Some (f # fs)" "p_memmap p = Some entries"
    and f: "frame_usable f" "5 \<le> fb_h f div 16" "34 \<le> fb_w f div 9"
    and m: "length (usable entries) \<le> MAX_FREE_REGIONS"
  shows "\<exists>k c. boot p = Inr (Returns k) \<and> booted p f entries k \<and> con_context (k_console k) = Some c \<and>
    (\<forall>x < cols c. \<forall>y < rows c. displays c (screen c ! (y * cols c + x)) x y)"
proof -
  note line = boot_line [OF _ _ f(2,3), of _ _ _ fs]
  from FreelistPMMInit_room [OF pmm_wf_boot, of entries] m obtain pm where
    pm: "FreelistPMMInit entries pmm_boot = Inr pm" "pmm_wf pm" "regions pm = map entry_region (usable entries)"
    by auto
  obtain t where t: "idtStart (p_isr p) (p_idt p) (replicate 256 zero_gate)
      = Inr (t, \<lparr>idt_limit = 4095, idt_base = p_idt p\<rparr>)" "gates_set (p_isr p) 34 t"
    using idtStart_ok [of "replicate 256 zero_gate"] by auto
  have g: "gdt_init (p_gdt p) (replicate 11 zero_descriptor)
      = Inr (boot_gdt, gdt_reload \<lparr>gdtr_limit = 87, gdtr_base = p_gdt p\<rparr>)" by (rule gdt_init_eq) simp
  obtain c0 where c0: "print (Some (f # fs)) boot_console ((boot_lines ! 0) @ [0x0a, 0]) = Inr c0"
    "console_log f c0 ([boot_lines ! 0], [])"
    using line [OF boot_console_log [OF f(1)], of 0] by auto
  obtain c1 where c1: "print (Some (f # fs)) c0 ((boot_lines ! 1) @ [0x0a, 0]) = Inr c1"
    "console_log f c1 ([boot_lines ! 0, boot_lines ! 1], [])"
    using line [OF c0(2), of 1] by auto
  obtain c2 where c2: "print (Some (f # fs)) c1 ((boot_lines ! 2) @ [0x0a, 0]) = Inr c2"
    "console_log f c2 ([boot_lines ! 0, boot_lines ! 1, boot_lines ! 2], [])"
    using line [OF c1(2), of 2] by auto
  obtain c3 c where c3: "print (Some (f # fs)) c2 ((boot_lines ! 3) @ [0x0a, 0]) = Inr c3"
    "console_log f c3 ([boot_lines ! 0, boot_lines ! 1, boot_lines ! 2, boot_lines ! 3], [])"
    "con_context c3 = Some c" "\<forall>x < cols c. \<forall>y < rows c. displays c (screen c ! (y * cols c + x)) x y"
    using line [OF c2(2), of 3] by auto
  have "[boot_lines ! 0, boot_lines ! 1, boot_lines ! 2, boot_lines ! 3] = boot_lines"
    by (simp add: boot_lines_def)
  then show ?thesis
    using p c0(1) c1(1) c2(1) c3 pm t g
    by (simp add: boot_def start_def c_lines booted_def halting_def)
qed

text \<open>The allocator of a kernel that has booted.\<close>

lemma boot_pmm:
  "boot p = Inr (Returns k) \<Longrightarrow> p_memmap p = Some entries \<Longrightarrow> FreelistPMMInit entries pmm_boot = Inr (k_pmm k)"
  by (auto simp: boot_def start_def halting_Returns_iff ebind_Inr_iff)

section \<open>The boots that stop early\<close>

definition full_line :: "u8 list" where
  "full_line = map of_char ''Max free regions reached. Halting...''"

lemma c_full_line: "c_string (''Max free regions reached. Halting...'' @ ''\<newline>'') = full_line @ [0x0a, 0]"
  by (simp only: full_line_def c_line)

lemma full_line_printable: "length full_line = 36" "\<forall>b \<in> set full_line. b \<noteq> 0x0a \<and> 0x20 \<le> b \<and> b \<le> 0x7e"
  by (simp_all add: full_line_def)

lemma boot_first_fault:
  "print (p_framebuffers p) boot_console (c_string ''Loading DeerOS...\<newline>'') = Inl e \<Longrightarrow> boot p = Inl e"
  by (simp add: boot_def start_def)

lemma boot_no_framebuffer:
  "p_framebuffers p = None \<Longrightarrow> boot p = Inl NullDeref"
  "p_framebuffers p = Some [] \<Longrightarrow> boot p = Inl OutOfBounds"
  by (auto intro!: boot_first_fault simp: print_def find_framebuffer_def boot_console_def)

lemma boot_no_context:
  assumes "p_framebuffers p = Some (f # fs)" "frame_ok f" "BUMP_ALLOC_POOL_SIZE < pool_need f"
  shows "boot p = Inl NullDeref"
  by (rule boot_first_fault) (simp add: assms(1) print_null_context [OF assms(2,3)])

lemma boot_no_memmap:
  assumes "p_framebuffers p = Some (f # fs)" "frame_usable f" "5 \<le> fb_h f div 16" "34 \<le> fb_w f div 9"
    and "p_memmap p = None"
  shows "boot p = Inl NullDeref"
  using boot_line [OF boot_console_log [OF assms(2)] _ assms(3,4), of 0 fs] assms(1,5)
  by (auto simp: boot_def start_def c_lines)

lemma boot_full:
  assumes "p_framebuffers p = Some (f # fs)" "frame_usable f" "5 \<le> fb_h f div 16" "37 \<le> fb_w f div 9"
    and "p_memmap p = Some entries" "MAX_FREE_REGIONS < length (usable entries)"
  shows "\<exists>con. boot p = Inr (Halts con) \<and> console_log f con ([boot_lines ! 0, full_line], [])"
proof -
  obtain c0 where c0: "print (Some (f # fs)) boot_console ((boot_lines ! 0) @ [0x0a, 0]) = Inr c0"
    "console_log f c0 ([boot_lines ! 0], [])"
    using boot_line [OF boot_console_log [OF assms(2)] _ assms(3), of 0 fs] assms(4) by auto
  have "length full_line < fb_w f div 9" using assms(4) full_line_printable(1) by simp
  from print_line [OF c0(2) full_line_printable(2) this, of fs] obtain con where
    "print (Some (f # fs)) c0 (full_line @ [0x0a, 0]) = Inr con" "console_log f con ([boot_lines ! 0, full_line], [])"
    using assms(3) by (auto simp: add_line_def)
  then show ?thesis
    using assms(1,5,6) c0(1) FreelistPMMInit_full [OF pmm_wf_boot, of entries]
    by (simp add: boot_def start_def halting_def c_lines(1) c_full_line del: append_Cons)
qed

section \<open>Properties\<close>

text \<open>
  C1: the boot. Given a memory map with at most 256 usable regions and a usable frame buffer for at
  least five rows of 34 characters, the kernel reaches its halt without a fault. A frame buffer is
  usable when it has the memory its pitch and height say, fewer than \<open>2 ^ 31\<close> pixels, no more rows
  than columns of characters, and a terminal that fits into the pool of 64 MiB (C4 says what the larger
  ones do). Then the screen shows the four messages on its first four rows and nothing else, down to
  the pixels of the frame buffer; the allocator holds exactly the usable regions of the memory map;
  every vector from 0 to 33 enters its stub through a 64-bit code segment of the table that is loaded.
\<close>

theorem boot_log:
  assumes "p_framebuffers p = Some (f # fs)" "p_memmap p = Some entries"
    and "frame_usable f" "5 \<le> fb_h f div 16" "34 \<le> fb_w f div 9"
    and "length (usable entries) \<le> MAX_FREE_REGIONS"
  shows "\<exists>k c. boot p = Inr (Returns k) \<and> con_context (k_console k) = Some c \<and>
    console_log f (k_console k) (boot_lines, []) \<and>
    (\<forall>x < cols c. \<forall>y < rows c. displays c (screen c ! (y * cols c + x)) x y) \<and>
    regions (k_pmm k) = map entry_region (usable entries) \<and>
    (\<forall>n < 34. gate_present (k_idt k ! n) \<and> gate_offset (k_idt k ! n) = p_isr p n \<and>
       (\<exists>r. lookup_segment (k_gdt k) (seg_gdtr (k_segments k)) (selector (k_idt k ! n)) = Some r \<and> long_code 0 r))"
proof -
  have "long_code 0 0x00209a0000000000" by (simp add: seg_defs)
  then show ?thesis using boot_ok [OF assms]
    by (fastforce simp: booted_def gates_set_def gate_present_def gdt_reload_def boot_gdt_lookup)
qed

definition sample_platform :: platform where
  "sample_platform = \<lparr>
     p_framebuffers = Some [\<lparr>address = replicate 24480 0, fb_w = 306, fb_h = 80, pitch = 1224, bpp = 32\<rparr>],
     p_memmap = Some [\<lparr>mm_base = 0x1000, mm_length = 0x9f000, mm_type = 0\<rparr>,
       \<lparr>mm_base = 0xa0000, mm_length = 0x60000, mm_type = 1\<rparr>],
     p_isr = (\<lambda>n. 0xffffffff80001000 + of_nat n * 16), p_gdt = 0xffffffff80003000,
     p_idt = 0xffffffff80004000\<rparr>"

theorem boot_log_witness:
  "\<exists>k. boot sample_platform = Inr (Returns k) \<and>
     console_log \<lparr>address = replicate 24480 0, fb_w = 306, fb_h = 80, pitch = 1224, bpp = 32\<rparr>
       (k_console k) (boot_lines, []) \<and>
     regions (k_pmm k) = [\<lparr>start_addr = 0x1000, num_pages = 0x9f\<rparr>]"
proof -
  let ?f = "\<lparr>address = replicate 24480 0, fb_w = 306, fb_h = 80, pitch = 1224, bpp = 32\<rparr> :: limine_framebuffer"
  have "frame_usable ?f"
    by (simp add: frame_usable_def frame_ok_def pool_need_def BUMP_ALLOC_POOL_SIZE_def)
  with boot_log [of sample_platform ?f "[]"] show ?thesis
    by (auto simp: sample_platform_def usable_def entry_region_def LIMINE_MEMMAP_USABLE_def
        MAX_FREE_REGIONS_def PAGE_SIZE_def)
qed

definition wide_boot_frame :: limine_framebuffer where
  "wide_boot_frame = \<lparr>address = replicate 27360 0, fb_w = 342, fb_h = 80, pitch = 1368, bpp = 32\<rparr>"

text \<open>
  C4: every way a boot can end, by what the boot loader provides. Without a response or without a
  frame buffer the first message faults, because \<open>print\<close> reads \<open>framebuffers[0]\<close> unchecked; a
  frame buffer too large for the pool of the terminal gives a null context; without a memory map
  the first message is shown and the next line dereferences \<open>NULL\<close>. More than 256 usable regions
  halt the machine with two lines on the screen. In every other case the kernel reaches \<open>hcf\<close>.
  The frame buffer is one of at least five rows of 37 characters that is not taller than wide, in
  characters.
\<close>

theorem boot_outcomes:
  "case p_framebuffers p of
     None \<Rightarrow> boot p = Inl NullDeref
   | Some [] \<Rightarrow> boot p = Inl OutOfBounds
   | Some (f # fs) \<Rightarrow>
       frame_ok f \<and> 5 \<le> fb_h f div 16 \<and> 37 \<le> fb_w f div 9 \<and> fb_h f div 16 \<le> fb_w f div 9 \<longrightarrow>
       (if BUMP_ALLOC_POOL_SIZE < pool_need f then boot p = Inl NullDeref
        else case p_memmap p of
            None \<Rightarrow> boot p = Inl NullDeref
          | Some entries \<Rightarrow>
              if MAX_FREE_REGIONS < length (usable entries)
              then \<exists>con. boot p = Inr (Halts con) \<and> console_log f con ([boot_lines ! 0, full_line], [])
              else \<exists>k. boot p = Inr (Returns k) \<and> booted p f entries k)"
proof (cases "p_framebuffers p")
  case (Some frames)
  show ?thesis
  proof (cases frames)
    case (Cons f fs)
    have "34 \<le> fb_w f div 9" if "37 \<le> fb_w f div 9" using that by linarith
    then show ?thesis
      using Some Cons boot_no_context [of p f fs] boot_no_memmap [of p f fs] boot_full [of p f fs] boot_ok [of p f fs]
      by (auto simp: frame_usable_def not_less split: option.split)
  qed (simp add: Some boot_no_framebuffer)
qed (simp add: boot_no_framebuffer)

theorem boot_outcomes_witness:
  "\<exists>con. boot (sample_platform\<lparr>p_framebuffers := Some [wide_boot_frame],
       p_memmap := Some (replicate 257 \<lparr>mm_base = 0x1000, mm_length = 0x1000, mm_type = 0\<rparr>)\<rparr>) = Inr (Halts con) \<and>
     console_log wide_boot_frame con ([boot_lines ! 0, full_line], [])"
  using boot_outcomes [of "sample_platform\<lparr>p_framebuffers := Some [wide_boot_frame],
      p_memmap := Some (replicate 257 \<lparr>mm_base = 0x1000, mm_length = 0x1000, mm_type = 0\<rparr>)\<rparr>"]
  by (simp add: wide_boot_frame_def frame_ok_def pool_need_def BUMP_ALLOC_POOL_SIZE_def MAX_FREE_REGIONS_def
      usable_def LIMINE_MEMMAP_USABLE_def)

end
