(* ===== verification/IDT_Stub.thy ===== *)
theory IDT_Stub
  imports IDT
begin

text \<open>
  The interrupt stubs of \<open>kernel/sys/_asm_idt.asm\<close>: the sequences of instructions between the
  entry of the processor into a gate and \<open>iretq\<close>, with the call of \<open>isrHandler\<close> in the middle.
  Memory is a function on the addresses of 8-byte cells, of which the stubs use the stack; the
  kernel's own state is apart from it.
\<close>

section \<open>Instructions\<close>

datatype gpr = RAX | RBX | RCX | RDX | RSI | RDI | RBP | R8 | R9 | R10 | R11 | R12 | R13 | R14 | R15

text \<open>The registers in the order in which the stubs push them.\<close>

instantiation gpr :: enum
begin

definition enum_gpr :: "gpr list" where
  "enum_gpr = [RAX, RBX, RCX, RDX, RSI, RDI, RBP, R8, R9, R10, R11, R12, R13, R14, R15]"

definition enum_all_gpr :: "(gpr \<Rightarrow> bool) \<Rightarrow> bool" where
  "enum_all_gpr P \<longleftrightarrow> list_all P enum_class.enum"

definition enum_ex_gpr :: "(gpr \<Rightarrow> bool) \<Rightarrow> bool" where
  "enum_ex_gpr P \<longleftrightarrow> list_ex P enum_class.enum"

instance
proof
  show all: "(UNIV :: gpr set) = set enum_class.enum"
    using gpr.exhaust by (auto simp: enum_gpr_def)
  show "distinct (enum_class.enum :: gpr list)" by (simp add: enum_gpr_def)
  show "enum_class.enum_all P \<longleftrightarrow> Ball UNIV P" "enum_class.enum_ex P \<longleftrightarrow> Bex UNIV P" for P :: "gpr \<Rightarrow> bool"
    unfolding all by (simp_all add: enum_all_gpr_def enum_ex_gpr_def list_all_iff list_ex_iff)
qed

end

record machine =
  m_gpr :: "gpr \<Rightarrow> u64"
  m_rip :: u64
  m_cs :: u64
  m_rflags :: u64
  m_rsp :: u64
  m_ss :: u64
  m_mem :: "u64 \<Rightarrow> u64"
  m_kernel :: interrupts

datatype instr =
    Cli
  | Push_byte u8
  | Push gpr
  | Pop gpr
  | Mov_rdi_rsp
  | Call_isrHandler
  | Mov_rsp_rax
  | Add_rsp u64
  | Iretq

definition push :: "u64 \<Rightarrow> machine \<Rightarrow> machine" where
  "push v m = m\<lparr>m_rsp := m_rsp m - 8, m_mem := (m_mem m)(m_rsp m - 8 := v)\<rparr>"

text \<open>The struct \<open>registers\<close> at an address.\<close>

definition registers_at :: "(u64 \<Rightarrow> u64) \<Rightarrow> u64 \<Rightarrow> registers" where
  "registers_at mem p = \<lparr>
     regs_r15 = mem p, regs_r14 = mem (p + 8), regs_r13 = mem (p + 16), regs_r12 = mem (p + 24),
     regs_r11 = mem (p + 32), regs_r10 = mem (p + 40), regs_r9 = mem (p + 48), regs_r8 = mem (p + 56),
     regs_rbp = mem (p + 64), regs_rdi = mem (p + 72), regs_rsi = mem (p + 80), regs_rdx = mem (p + 88),
     regs_rcx = mem (p + 96), regs_rbx = mem (p + 104), regs_rax = mem (p + 112),
     int_no = mem (p + 120), err_code = mem (p + 128),
     regs_rip = mem (p + 136), regs_cs = mem (p + 144), regs_rflags = mem (p + 152),
     regs_rsp = mem (p + 160), regs_ss = mem (p + 168)\<rparr>"

text \<open>
  What a compiled function does besides its C code: the registers it leaves, of which \<open>rax\<close> is
  the result, and the memory, given the stack pointer at the call.
\<close>

record callee =
  callee_gpr :: "gpr \<Rightarrow> u64"
  callee_mem :: "u64 \<Rightarrow> (u64 \<Rightarrow> u64) \<Rightarrow> u64 \<Rightarrow> u64"

text \<open>The flag that enables interrupts is bit 9.\<close>

definition INTERRUPT_FLAG :: u64 where "INTERRUPT_FLAG = 0x200"

primrec exec :: "limine_framebuffer list option \<Rightarrow> u8 \<Rightarrow> callee \<Rightarrow> instr \<Rightarrow> machine
    \<Rightarrow> fault + (machine, interrupts) outcome" where
  "exec response junk cc Cli m = Inr (Returns (m\<lparr>m_rflags := m_rflags m AND NOT INTERRUPT_FLAG\<rparr>))"
| "exec response junk cc (Push_byte b) m = Inr (Returns (push (scast b) m))"
| "exec response junk cc (Push r) m = Inr (Returns (push (m_gpr m r) m))"
| "exec response junk cc (Pop r) m =
     Inr (Returns (m\<lparr>m_gpr := (m_gpr m)(r := m_mem m (m_rsp m)), m_rsp := m_rsp m + 8\<rparr>))"
| "exec response junk cc Mov_rdi_rsp m = Inr (Returns (m\<lparr>m_gpr := (m_gpr m)(RDI := m_rsp m)\<rparr>))"
| "exec response junk cc Call_isrHandler m =
     ebind (isrHandler response junk (m_kernel m) (registers_at (m_mem m) (m_gpr m RDI))) (\<lambda>out.
       Inr (case out of
           Returns (st, _) \<Rightarrow> Returns (m\<lparr>m_gpr := (callee_gpr cc)(RAX := m_gpr m RDI),
             m_mem := callee_mem cc (m_rsp m) (m_mem m), m_kernel := st\<rparr>)
         | Halts st \<Rightarrow> Halts st))"
| "exec response junk cc Mov_rsp_rax m = Inr (Returns (m\<lparr>m_rsp := m_gpr m RAX\<rparr>))"
| "exec response junk cc (Add_rsp n) m = Inr (Returns (m\<lparr>m_rsp := m_rsp m + n\<rparr>))"
| "exec response junk cc Iretq m =
     (let sp = m_rsp m; mem = m_mem m
      in Inr (Returns (m\<lparr>m_rip := mem sp, m_cs := mem (sp + 8), m_rflags := mem (sp + 16),
           m_rsp := mem (sp + 24), m_ss := mem (sp + 32)\<rparr>)))"

primrec run :: "limine_framebuffer list option \<Rightarrow> u8 \<Rightarrow> callee \<Rightarrow> instr list \<Rightarrow> machine
    \<Rightarrow> fault + (machine, interrupts) outcome" where
  "run response junk cc [] m = Inr (Returns m)"
| "run response junk cc (i # is) m = ebind (exec response junk cc i m) (\<lambda>out.
     case out of Returns m \<Rightarrow> run response junk cc is m | Halts st \<Rightarrow> Inr (Halts st))"

section \<open>The stubs\<close>

definition isrCommon :: "instr list" where
  "isrCommon =
     [Push RAX, Push RBX, Push RCX, Push RDX, Push RSI, Push RDI, Push RBP, Push R8, Push R9, Push R10,
      Push R11, Push R12, Push R13, Push R14, Push R15,
      Mov_rdi_rsp, Call_isrHandler, Mov_rsp_rax,
      Pop R15, Pop R14, Pop R13, Pop R12, Pop R11, Pop R10, Pop R9, Pop R8, Pop RBP, Pop RDI, Pop RSI,
      Pop RDX, Pop RCX, Pop RBX, Pop RAX,
      Add_rsp 16, Iretq]"

definition ISR_NOERRCODE :: "nat \<Rightarrow> instr list" where
  "ISR_NOERRCODE n = [Cli, Push_byte 0, Push_byte (of_nat n)] @ isrCommon"

definition ISR_ERRCODE :: "nat \<Rightarrow> instr list" where
  "ISR_ERRCODE n = [Cli, Push_byte (of_nat n)] @ isrCommon"

text \<open>The vectors the file takes to have an error code.\<close>

definition errcode_stubs :: "nat set" where
  "errcode_stubs = {8, 10, 11, 12, 13, 14}"

definition isr :: "nat \<Rightarrow> instr list" where
  "isr n = (if n \<in> errcode_stubs then ISR_ERRCODE n else ISR_NOERRCODE n)"

text \<open>
  The entry of the processor in 64-bit mode without a change of the privilege level: the stack is
  aligned to 16 bytes, the state of the interrupted code is pushed and, for the vectors \<open>errs\<close>, an
  error code. An interrupt gate clears the interrupt flag.
\<close>

definition enter :: "(nat \<Rightarrow> bool) \<Rightarrow> nat \<Rightarrow> u64 \<Rightarrow> machine \<Rightarrow> machine" where
  "enter errs n e m =
     (let m' = push (m_rip m) (push (m_cs m) (push (m_rflags m) (push (m_rsp m)
                 (push (m_ss m) (m\<lparr>m_rsp := m_rsp m AND NOT 0xf\<rparr>)))));
          m' = (if errs n then push e m' else m')
      in m'\<lparr>m_rflags := m_rflags m AND NOT INTERRUPT_FLAG\<rparr>)"

definition interrupt :: "(nat \<Rightarrow> bool) \<Rightarrow> limine_framebuffer list option \<Rightarrow> u8 \<Rightarrow> callee \<Rightarrow> nat \<Rightarrow> u64
    \<Rightarrow> machine \<Rightarrow> fault + (machine, interrupts) outcome" where
  "interrupt errs response junk cc n e m = run response junk cc (isr n) (enter errs n e m)"

section \<open>What a stub does\<close>

text \<open>The code of \<open>isrHandler\<close> does not write to the struct or above it.\<close>

definition keeps_frame :: "callee \<Rightarrow> bool" where
  "keeps_frame cc \<longleftrightarrow> (\<forall>sp mem. \<forall>k < 22. callee_mem cc sp mem (sp + 8 * of_nat k) = mem (sp + 8 * of_nat k))"

lemma keeps_frameD:
  assumes "keeps_frame cc"
  shows "callee_mem cc sp mem sp = mem sp" "callee_mem cc sp mem (sp + 8) = mem (sp + 8)"
    "callee_mem cc sp mem (sp + 16) = mem (sp + 16)" "callee_mem cc sp mem (sp + 24) = mem (sp + 24)"
    "callee_mem cc sp mem (sp + 32) = mem (sp + 32)" "callee_mem cc sp mem (sp + 40) = mem (sp + 40)"
    "callee_mem cc sp mem (sp + 48) = mem (sp + 48)" "callee_mem cc sp mem (sp + 56) = mem (sp + 56)"
    "callee_mem cc sp mem (sp + 64) = mem (sp + 64)" "callee_mem cc sp mem (sp + 72) = mem (sp + 72)"
    "callee_mem cc sp mem (sp + 80) = mem (sp + 80)" "callee_mem cc sp mem (sp + 88) = mem (sp + 88)"
    "callee_mem cc sp mem (sp + 96) = mem (sp + 96)" "callee_mem cc sp mem (sp + 104) = mem (sp + 104)"
    "callee_mem cc sp mem (sp + 112) = mem (sp + 112)" "callee_mem cc sp mem (sp + 136) = mem (sp + 136)"
    "callee_mem cc sp mem (sp + 144) = mem (sp + 144)" "callee_mem cc sp mem (sp + 152) = mem (sp + 152)"
    "callee_mem cc sp mem (sp + 160) = mem (sp + 160)" "callee_mem cc sp mem (sp + 168) = mem (sp + 168)"
proof -
  have "callee_mem cc sp mem (sp + 8 * of_nat k) = mem (sp + 8 * of_nat k)" if "k < 22" for k
    using assms that by (simp add: keeps_frame_def)
  from this [of 0] this [of 1] this [of 2] this [of 3] this [of 4] this [of 5] this [of 6] this [of 7] this [of 8]
    this [of 9] this [of 10] this [of 11] this [of 12] this [of 13] this [of 14] this [of 17] this [of 18]
    this [of 19] this [of 20] this [of 21]
  show "callee_mem cc sp mem sp = mem sp" "callee_mem cc sp mem (sp + 8) = mem (sp + 8)"
    "callee_mem cc sp mem (sp + 16) = mem (sp + 16)" "callee_mem cc sp mem (sp + 24) = mem (sp + 24)"
    "callee_mem cc sp mem (sp + 32) = mem (sp + 32)" "callee_mem cc sp mem (sp + 40) = mem (sp + 40)"
    "callee_mem cc sp mem (sp + 48) = mem (sp + 48)" "callee_mem cc sp mem (sp + 56) = mem (sp + 56)"
    "callee_mem cc sp mem (sp + 64) = mem (sp + 64)" "callee_mem cc sp mem (sp + 72) = mem (sp + 72)"
    "callee_mem cc sp mem (sp + 80) = mem (sp + 80)" "callee_mem cc sp mem (sp + 88) = mem (sp + 88)"
    "callee_mem cc sp mem (sp + 96) = mem (sp + 96)" "callee_mem cc sp mem (sp + 104) = mem (sp + 104)"
    "callee_mem cc sp mem (sp + 112) = mem (sp + 112)" "callee_mem cc sp mem (sp + 136) = mem (sp + 136)"
    "callee_mem cc sp mem (sp + 144) = mem (sp + 144)" "callee_mem cc sp mem (sp + 152) = mem (sp + 152)"
    "callee_mem cc sp mem (sp + 160) = mem (sp + 160)" "callee_mem cc sp mem (sp + 168) = mem (sp + 168)"
    by simp_all
qed

text \<open>The addresses of the stack, from the struct up.\<close>

lemma stack_steps:
  "(p + numeral a) - 8 = p + (numeral a - 8 :: u64)" "p + 8 - 8 = (p :: u64)"
  "p + numeral a + numeral b = p + (numeral a + numeral b :: u64)"
  by simp_all

lemma run_append:
  "run response junk cc (is @ js) m = ebind (run response junk cc is m) (\<lambda>out.
     case out of Returns m \<Rightarrow> run response junk cc js m | Halts st \<Rightarrow> Inr (Halts st))"
  by (induction "is" arbitrary: m) (auto simp: ebind_def split: sum.split outcome.split)

definition pushes :: "instr list" where
  "pushes = map Push enum_class.enum"

definition pops :: "instr list" where
  "pops = map Pop (rev enum_class.enum)"

text \<open>The struct \<open>isrHandler\<close> gets, for a machine on whose stack the vector has been pushed.\<close>

definition pushed_registers :: "machine \<Rightarrow> registers" where
  "pushed_registers m = (let p = m_rsp m - 120 in
     \<lparr>regs_r15 = m_gpr m R15, regs_r14 = m_gpr m R14, regs_r13 = m_gpr m R13, regs_r12 = m_gpr m R12,
      regs_r11 = m_gpr m R11, regs_r10 = m_gpr m R10, regs_r9 = m_gpr m R9, regs_r8 = m_gpr m R8,
      regs_rbp = m_gpr m RBP, regs_rdi = m_gpr m RDI, regs_rsi = m_gpr m RSI, regs_rdx = m_gpr m RDX,
      regs_rcx = m_gpr m RCX, regs_rbx = m_gpr m RBX, regs_rax = m_gpr m RAX,
      int_no = m_mem m (p + 120), err_code = m_mem m (p + 128), regs_rip = m_mem m (p + 136),
      regs_cs = m_mem m (p + 144), regs_rflags = m_mem m (p + 152), regs_rsp = m_mem m (p + 160),
      regs_ss = m_mem m (p + 168)\<rparr>)"

lemma run_pushes:
  assumes "m_rsp m = p + 120"
  shows "\<exists>mem. run response junk cc pushes m = Inr (Returns (m\<lparr>m_rsp := p, m_mem := mem\<rparr>)) \<and>
    registers_at mem p = pushed_registers m"
  using assms by (simp add: pushes_def enum_gpr_def push_def registers_at_def pushed_registers_def Let_def stack_steps) (intro exI conjI, rule refl, simp_all)

text \<open>The general registers in the struct.\<close>

primrec gpr_of :: "registers \<Rightarrow> gpr \<Rightarrow> u64" where
  "gpr_of regs RAX = regs_rax regs"
| "gpr_of regs RBX = regs_rbx regs"
| "gpr_of regs RCX = regs_rcx regs"
| "gpr_of regs RDX = regs_rdx regs"
| "gpr_of regs RSI = regs_rsi regs"
| "gpr_of regs RDI = regs_rdi regs"
| "gpr_of regs RBP = regs_rbp regs"
| "gpr_of regs R8 = regs_r8 regs"
| "gpr_of regs R9 = regs_r9 regs"
| "gpr_of regs R10 = regs_r10 regs"
| "gpr_of regs R11 = regs_r11 regs"
| "gpr_of regs R12 = regs_r12 regs"
| "gpr_of regs R13 = regs_r13 regs"
| "gpr_of regs R14 = regs_r14 regs"
| "gpr_of regs R15 = regs_r15 regs"

lemma gpr_eqI: "map f enum_class.enum = map g (enum_class.enum :: gpr list) \<Longrightarrow> f = g"
  by (auto simp: fun_eq_iff enum_UNIV)

lemma run_pops:
  assumes "m_rsp m = p"
  shows "run response junk cc pops m
    = Inr (Returns (m\<lparr>m_gpr := gpr_of (registers_at (m_mem m) p), m_rsp := p + 120\<rparr>))"
proof -
  have "run response junk cc pops m = Inr (Returns (m\<lparr>m_gpr := (m_gpr m)
      (R15 := m_mem m p, R14 := m_mem m (p + 8), R13 := m_mem m (p + 16), R12 := m_mem m (p + 24),
       R11 := m_mem m (p + 32), R10 := m_mem m (p + 40), R9 := m_mem m (p + 48), R8 := m_mem m (p + 56),
       RBP := m_mem m (p + 64), RDI := m_mem m (p + 72), RSI := m_mem m (p + 80), RDX := m_mem m (p + 88),
       RCX := m_mem m (p + 96), RBX := m_mem m (p + 104), RAX := m_mem m (p + 112)), m_rsp := p + 120\<rparr>))"
    using assms by (simp add: pops_def enum_gpr_def stack_steps)
  also have "(m_gpr m)
      (R15 := m_mem m p, R14 := m_mem m (p + 8), R13 := m_mem m (p + 16), R12 := m_mem m (p + 24),
       R11 := m_mem m (p + 32), R10 := m_mem m (p + 40), R9 := m_mem m (p + 48), R8 := m_mem m (p + 56),
       RBP := m_mem m (p + 64), RDI := m_mem m (p + 72), RSI := m_mem m (p + 80), RDX := m_mem m (p + 88),
       RCX := m_mem m (p + 96), RBX := m_mem m (p + 104), RAX := m_mem m (p + 112))
      = gpr_of (registers_at (m_mem m) p)"
    by (rule gpr_eqI) (simp add: enum_gpr_def registers_at_def)
  finally show ?thesis .
qed

text \<open>
  From the push of the vector on: \<open>isrHandler\<close> gets the struct, and when it returns, the general
  registers are what they were and the five words above the error code are the state to resume.
\<close>

lemma run_common:
  assumes "m_rsp m = p + 120" "keeps_frame cc"
    and "isrHandler response junk (m_kernel m) (pushed_registers m) = Inr (Returns (st, regs'))"
  shows "\<exists>mem. run response junk cc isrCommon m = Inr (Returns (m\<lparr>m_rip := m_mem m (p + 136),
      m_cs := m_mem m (p + 144), m_rflags := m_mem m (p + 152), m_rsp := m_mem m (p + 160),
      m_ss := m_mem m (p + 168), m_mem := mem, m_kernel := st\<rparr>))"
proof -
  from run_pushes [OF assms(1)] obtain mem where mem:
    "run response junk cc pushes m = Inr (Returns (m\<lparr>m_rsp := p, m_mem := mem\<rparr>))" "registers_at mem p = pushed_registers m" by blast
  define regs where "regs = pushed_registers m"
  define mem' where "mem' = callee_mem cc p mem"
  define g where "g = (callee_gpr cc)(RAX := p)"
  define m' where "m' = m\<lparr>m_rsp := p, m_mem := mem', m_kernel := st, m_gpr := g\<rparr>"
  define mid where "mid = [Mov_rdi_rsp, Call_isrHandler, Mov_rsp_rax]"
  have call: "run response junk cc mid (m\<lparr>m_rsp := p, m_mem := mem\<rparr>)
      = Inr (Returns m')"
    using assms(3) mem(2) by (simp add: m'_def mem'_def g_def mid_def)
  have keep: "mem' p = regs_r15 regs" "mem' (p + 8) = regs_r14 regs" "mem' (p + 16) = regs_r13 regs"
    "mem' (p + 24) = regs_r12 regs" "mem' (p + 32) = regs_r11 regs" "mem' (p + 40) = regs_r10 regs"
    "mem' (p + 48) = regs_r9 regs" "mem' (p + 56) = regs_r8 regs" "mem' (p + 64) = regs_rbp regs"
    "mem' (p + 72) = regs_rdi regs" "mem' (p + 80) = regs_rsi regs" "mem' (p + 88) = regs_rdx regs"
    "mem' (p + 96) = regs_rcx regs" "mem' (p + 104) = regs_rbx regs" "mem' (p + 112) = regs_rax regs"
    "mem' (p + 136) = regs_rip regs" "mem' (p + 144) = regs_cs regs" "mem' (p + 152) = regs_rflags regs"
    "mem' (p + 160) = regs_rsp regs" "mem' (p + 168) = regs_ss regs"
    unfolding regs_def mem(2) [symmetric] mem'_def keeps_frameD [OF assms(2)] by (simp_all add: registers_at_def)
  have "gpr_of (registers_at mem' p) = m_gpr m"
    by (rule gpr_eqI) (simp add: enum_gpr_def registers_at_def keep regs_def pushed_registers_def Let_def)
  then have pop: "run response junk cc pops m'
      = Inr (Returns (m\<lparr>m_rsp := p + 120, m_mem := mem', m_kernel := st\<rparr>))"
    using run_pops [of m' p response junk cc] by (simp add: m'_def)
  have parts: "isrCommon = pushes @ mid @ pops @ [Add_rsp 16, Iretq]"
    by (simp add: isrCommon_def pushes_def enum_gpr_def mid_def pops_def enum_gpr_def)
  have "run response junk cc isrCommon m
      = run response junk cc [Add_rsp 16, Iretq] (m\<lparr>m_rsp := p + 120, m_mem := mem', m_kernel := st\<rparr>)"
    unfolding parts by (simp add: run_append mem(1) call pop del: run.simps)
  also have "\<dots> = Inr (Returns (m\<lparr>m_rip := m_mem m (p + 136), m_cs := m_mem m (p + 144),
      m_rflags := m_mem m (p + 152), m_rsp := m_mem m (p + 160), m_ss := m_mem m (p + 168),
      m_mem := mem', m_kernel := st\<rparr>))"
    using keep(16-20) assms(1) by (simp add: stack_steps Let_def regs_def pushed_registers_def)
  finally show ?thesis by blast
qed

lemma run_common_stops:
  assumes "m_rsp m = p + 120"
  shows "isrHandler response junk (m_kernel m) (pushed_registers m) = Inl e \<Longrightarrow>
      run response junk cc isrCommon m = Inl e"
    and "isrHandler response junk (m_kernel m) (pushed_registers m) = Inr (Halts st) \<Longrightarrow>
      run response junk cc isrCommon m = Inr (Halts st)"
proof -
  from run_pushes [OF assms] obtain mem where mem:
    "run response junk cc pushes m = Inr (Returns (m\<lparr>m_rsp := p, m_mem := mem\<rparr>))"
    "registers_at mem p = pushed_registers m" by blast
  have "isrCommon = pushes @ [Mov_rdi_rsp, Call_isrHandler, Mov_rsp_rax] @ pops @ [Add_rsp 16, Iretq]"
    by (simp add: isrCommon_def pushes_def enum_gpr_def pops_def enum_gpr_def)
  then obtain rest where parts: "isrCommon = pushes @ Mov_rdi_rsp # Call_isrHandler # rest" by simp
  show "isrHandler response junk (m_kernel m) (pushed_registers m) = Inl e \<Longrightarrow> run response junk cc isrCommon m = Inl e"
    "isrHandler response junk (m_kernel m) (pushed_registers m) = Inr (Halts st) \<Longrightarrow>
      run response junk cc isrCommon m = Inr (Halts st)"
    unfolding parts by (simp_all add: run_append mem)
qed

lemma push_byte_vector: "n < 34 \<Longrightarrow> scast (of_nat n :: u8) = (of_nat n :: u64)"
proof -
  have "\<forall>k \<in> set [0..<34]. scast (of_nat k :: u8) = (of_nat k :: u64)" by (simp add: upt_rec)
  then show "n < 34 \<Longrightarrow> scast (of_nat n :: u8) = (of_nat n :: u64)" by simp
qed

text \<open>
  The stub up to the common part. \<open>p\<close> is the address of the struct when the stub and the processor
  agree on the error code.
\<close>

lemma entry_agrees:
  fixes m :: machine
  assumes "errs n \<longleftrightarrow> n \<in> errcode_stubs" "n < 34"
  defines "p \<equiv> (m_rsp m AND NOT 0xf) - 176"
  shows "\<exists>m1. interrupt errs response junk cc n e m = run response junk cc isrCommon m1 \<and> m_rsp m1 = p + 120 \<and>
    m_gpr m1 = m_gpr m \<and> m_kernel m1 = m_kernel m \<and> m_mem m1 (p + 120) = of_nat n \<and>
    m_mem m1 (p + 128) = (if errs n then e else 0) \<and> m_mem m1 (p + 136) = m_rip m \<and>
    m_mem m1 (p + 144) = m_cs m \<and> m_mem m1 (p + 152) = m_rflags m \<and> m_mem m1 (p + 160) = m_rsp m \<and>
    m_mem m1 (p + 168) = m_ss m"
proof -
  note defs = interrupt_def isr_def ISR_ERRCODE_def ISR_NOERRCODE_def enter_def push_def Let_def
  show ?thesis
  proof (cases "errs n")
    case True
    then show ?thesis using assms(1) push_byte_vector [OF assms(2)]
      by (simp add: defs) (intro exI conjI, rule refl, simp_all add: p_def)
  next
    case False
    then show ?thesis using assms(1) push_byte_vector [OF assms(2)]
      by (simp add: defs) (intro exI conjI, rule refl, simp_all add: p_def)
  qed
qed

text \<open>
  When the processor pushes an error code and the stub pushes another one, the five words above the
  stub's one are the error code and the first four of the interrupted state.
\<close>

lemma entry_differs:
  fixes m :: machine
  assumes "errs n" "n \<notin> errcode_stubs" "n < 34"
  defines "p \<equiv> (m_rsp m AND NOT 0xf) - 184"
  shows "\<exists>m1. interrupt errs response junk cc n e m = run response junk cc isrCommon m1 \<and> m_rsp m1 = p + 120 \<and>
    m_gpr m1 = m_gpr m \<and> m_kernel m1 = m_kernel m \<and> m_mem m1 (p + 120) = of_nat n \<and>
    m_mem m1 (p + 136) = e \<and> m_mem m1 (p + 144) = m_rip m \<and> m_mem m1 (p + 152) = m_cs m \<and>
    m_mem m1 (p + 160) = m_rflags m \<and> m_mem m1 (p + 168) = m_rsp m"
proof -
  note defs = interrupt_def isr_def ISR_NOERRCODE_def enter_def push_def Let_def
  show ?thesis using assms(1,2) push_byte_vector [OF assms(3)]
    by (simp add: defs) (intro exI conjI, rule refl, simp_all add: p_def)
qed

text \<open>
  When the stub expects an error code that the processor has not pushed, it takes the instruction
  pointer for it, and the word above the frame for the stack segment.
\<close>

lemma entry_short:
  fixes m :: machine
  assumes "\<not> errs n" "n \<in> errcode_stubs" "n < 34"
  defines "p \<equiv> (m_rsp m AND NOT 0xf) - 168"
  shows "\<exists>m1. interrupt errs response junk cc n e m = run response junk cc isrCommon m1 \<and> m_rsp m1 = p + 120 \<and>
    m_gpr m1 = m_gpr m \<and> m_kernel m1 = m_kernel m \<and> m_mem m1 (p + 120) = of_nat n \<and>
    m_mem m1 (p + 136) = m_cs m \<and> m_mem m1 (p + 144) = m_rflags m \<and> m_mem m1 (p + 152) = m_rsp m \<and>
    m_mem m1 (p + 160) = m_ss m \<and> m_mem m1 (p + 168) = m_mem m (p + 168)"
proof -
  note defs = interrupt_def isr_def ISR_ERRCODE_def enter_def push_def Let_def
  show ?thesis using assms(1,2) push_byte_vector [OF assms(3)]
    by (simp add: defs) (intro exI conjI, rule refl, simp_all add: p_def)
qed

text \<open>The common part, for a vector without a case.\<close>

lemma common_resumes:
  assumes log: "console_log f (int_console (m_kernel m)) lg" "length (snd lg) + 13 < fb_w f div 9"
    and n: "n < 34" "n \<notin> {14, 32, 33}" and cc: "keeps_frame cc"
    and m: "m_rsp m = p + 120" "m_mem m (p + 120) = of_nat n"
  shows "\<exists>mem con. run (Some (f # fs)) junk cc isrCommon m = Inr (Returns (m\<lparr>m_rip := m_mem m (p + 136),
      m_cs := m_mem m (p + 144), m_rflags := m_mem m (p + 152), m_rsp := m_mem m (p + 160),
      m_ss := m_mem m (p + 168), m_mem := mem, m_kernel := (m_kernel m)\<lparr>int_console := con\<rparr>\<rparr>)) \<and>
    console_log f con (add_line (fb_h f div 16) (fst lg) (snd lg @ [0x65, 0x3a, 0x20] @ dec_text n), [])"
proof -
  let ?regs = "pushed_registers m"
  have no: "int_no ?regs = of_nat n" and un: "unat (of_nat n :: u64) = n" using m n(1)
    by (simp_all add: pushed_registers_def Let_def unat_of_nat)
  have "int_no ?regs < 2 ^ 31" "int_no ?regs \<noteq> 14" "int_no ?regs \<noteq> 32" "int_no ?regs \<noteq> 33"
    unfolding no using n un by (auto simp: word_less_unat dest!: arg_cong [of _ _ unat])
  from isrHandler_returns [OF log this, of fs junk, unfolded no un] obtain con where con:
    "isrHandler (Some (f # fs)) junk (m_kernel m) ?regs = Inr (Returns ((m_kernel m)\<lparr>int_console := con\<rparr>, ?regs))"
    "console_log f con (add_line (fb_h f div 16) (fst lg) (snd lg @ [0x65, 0x3a, 0x20] @ dec_text n), [])" by blast
  from run_common [OF m(1) cc con(1)] con(2) show ?thesis by blast
qed

text \<open>
  The state the stub resumes, by whether the processor has pushed an error code and whether the stub
  expects one. The instruction \<open>iretq\<close> takes what it finds; what the processor makes of a
  segment that is none is left to it.
\<close>

definition resumed :: "bool \<Rightarrow> bool \<Rightarrow> u64 \<Rightarrow> machine \<Rightarrow> machine" where
  "resumed pushed expected e m =
     (if pushed = expected then m
      else if pushed then m\<lparr>m_rip := e, m_cs := m_rip m, m_rflags := m_cs m, m_rsp := m_rflags m, m_ss := m_rsp m\<rparr>
      else m\<lparr>m_rip := m_cs m, m_cs := m_rflags m, m_rflags := m_rsp m, m_rsp := m_ss m,
             m_ss := m_mem m (m_rsp m AND NOT 0xf)\<rparr>)"

lemma resumed_kernel [simp]: "m_kernel (resumed a b e m) = m_kernel m" "m_gpr (resumed a b e m) = m_gpr m"
  by (simp_all add: resumed_def)

lemma entry_any:
  fixes m :: machine
  assumes "n < 34"
  shows "\<exists>m1 p. interrupt errs response junk cc n e m = run response junk cc isrCommon m1 \<and>
    m_rsp m1 = p + 120 \<and> m_gpr m1 = m_gpr m \<and> m_kernel m1 = m_kernel m \<and> m_mem m1 (p + 120) = of_nat n \<and>
    (let r = resumed (errs n) (n \<in> errcode_stubs) e m
     in m_mem m1 (p + 136) = m_rip r \<and> m_mem m1 (p + 144) = m_cs r \<and> m_mem m1 (p + 152) = m_rflags r \<and>
        m_mem m1 (p + 160) = m_rsp r \<and> m_mem m1 (p + 168) = m_ss r)"
proof -
  consider "errs n \<longleftrightarrow> n \<in> errcode_stubs" | "errs n" "n \<notin> errcode_stubs" | "\<not> errs n" "n \<in> errcode_stubs" by blast
  then show ?thesis
  proof cases
    case 1
    from entry_agrees [where errs = errs and n = n and m = m and response = response and junk = junk and cc = cc
        and e = e, OF this assms] 1 show ?thesis by (fastforce simp: resumed_def Let_def)
  next
    case 2
    from entry_differs [where errs = errs and n = n and m = m and response = response and junk = junk and cc = cc
        and e = e, OF this assms] 2 show ?thesis by (fastforce simp: resumed_def Let_def)
  next
    case 3
    from entry_short [where errs = errs and n = n and m = m and response = response and junk = junk and cc = cc
        and e = e, OF this assms] 3 show ?thesis by (fastforce simp: resumed_def Let_def)
  qed
qed

lemma interrupt_state:
  assumes "console_log f (int_console (m_kernel m)) lg" "length (snd lg) + 13 < fb_w f div 9"
    and "n < 34" "n \<notin> {14, 32, 33}" "keeps_frame cc"
  shows "\<exists>mem con. interrupt errs (Some (f # fs)) junk cc n e m
      = Inr (Returns ((resumed (errs n) (n \<in> errcode_stubs) e m)\<lparr>m_mem := mem,
          m_kernel := (m_kernel m)\<lparr>int_console := con\<rparr>\<rparr>)) \<and>
    console_log f con (add_line (fb_h f div 16) (fst lg) (snd lg @ [0x65, 0x3a, 0x20] @ dec_text n), [])"
proof -
  define r where "r = resumed (errs n) (n \<in> errcode_stubs) e m"
  obtain m1 p where m1: "interrupt errs (Some (f # fs)) junk cc n e m = run (Some (f # fs)) junk cc isrCommon m1"
    "m_rsp m1 = p + 120" "m_mem m1 (p + 120) = of_nat n" and same: "m_gpr m1 = m_gpr m" "m_kernel m1 = m_kernel m"
    "m_mem m1 (p + 136) = m_rip r" "m_mem m1 (p + 144) = m_cs r" "m_mem m1 (p + 152) = m_rflags r"
    "m_mem m1 (p + 160) = m_rsp r" "m_mem m1 (p + 168) = m_ss r"
    using entry_any [OF assms(3), of errs "Some (f # fs)" junk cc e m, folded r_def] by (auto simp: Let_def)
  from common_resumes [of f m1 lg n cc p fs junk] assms m1(2,3) obtain mem con where
    "run (Some (f # fs)) junk cc isrCommon m1 = Inr (Returns (m1\<lparr>m_rip := m_rip r, m_cs := m_cs r,
      m_rflags := m_rflags r, m_rsp := m_rsp r, m_ss := m_ss r, m_mem := mem,
      m_kernel := (m_kernel m)\<lparr>int_console := con\<rparr>\<rparr>))"
    "console_log f con (add_line (fb_h f div 16) (fst lg) (snd lg @ [0x65, 0x3a, 0x20] @ dec_text n), [])"
    unfolding same by blast
  moreover have "m1\<lparr>m_rip := m_rip r, m_cs := m_cs r, m_rflags := m_rflags r, m_rsp := m_rsp r, m_ss := m_ss r,
      m_mem := mem, m_kernel := (m_kernel m)\<lparr>int_console := con\<rparr>\<rparr>
      = r\<lparr>m_mem := mem, m_kernel := (m_kernel m)\<lparr>int_console := con\<rparr>\<rparr>"
    using same(1) resumed_kernel(2) [of "errs n" "n \<in> errcode_stubs" e m, folded r_def] by (cases r, cases m1) simp
  ultimately show ?thesis using m1(1) by (auto simp: r_def)
qed

text \<open>
  An interrupt whose vector has no case in \<open>isrHandler\<close>, from the entry of the processor to
  \<open>iretq\<close>: when the stub and the processor agree on the error code, the interrupted program goes on
  with every register, its flags and its stack pointer as they were, and the console has one more
  line, with the number of the vector.
\<close>

theorem interrupt_resumes:
  assumes "console_log f (int_console (m_kernel m)) lg" "length (snd lg) + 13 < fb_w f div 9"
    and "n < 34" "n \<notin> {14, 32, 33}" "errs n \<longleftrightarrow> n \<in> errcode_stubs" "keeps_frame cc"
  shows "\<exists>mem con. interrupt errs (Some (f # fs)) junk cc n e m
      = Inr (Returns (m\<lparr>m_mem := mem, m_kernel := (m_kernel m)\<lparr>int_console := con\<rparr>\<rparr>)) \<and>
    console_log f con (add_line (fb_h f div 16) (fst lg) (snd lg @ [0x65, 0x3a, 0x20] @ dec_text n), [])"
  using interrupt_state [OF assms(1-4,6), where errs = errs and e = e and fs = fs and junk = junk] assms(5)
  by (simp add: resumed_def)

text \<open>A program that is interrupted, and a call that pushes its return address.\<close>

definition sample_machine :: machine where
  "sample_machine = \<lparr>m_gpr = (\<lambda>r. if r = RAX then 7 else 9), m_rip = 0x1000, m_cs = 0x28, m_rflags = 0x202,
     m_rsp = 0x8008, m_ss = 0x30, m_mem = (\<lambda>_. 0), m_kernel = boot_interrupts boot_console\<rparr>"

definition sample_callee :: callee where
  "sample_callee = \<lparr>callee_gpr = (\<lambda>_. 0), callee_mem = (\<lambda>sp mem. mem(sp - 8 := 0x2000))\<rparr>"

lemma sample_callee_keeps: "keeps_frame sample_callee"
proof -
  have "sp + 8 * of_nat k \<noteq> sp - 8" if "k < 22" for k :: nat and sp :: u64
  proof
    assume "sp + 8 * of_nat k = sp - 8"
    then have "8 * of_nat k + 8 = (0 :: u64)" by (simp add: algebra_simps)
    then have "of_nat (8 * k + 8) = (0 :: u64)" by simp
    then have "unat (of_nat (8 * k + 8) :: u64) = 0" by (simp only: unat_0)
    moreover have "unat (of_nat (8 * k + 8) :: u64) = 8 * k + 8"
      unfolding unat_of_nat using that by (intro mod_less) simp
    ultimately show False by linarith
  qed
  then show ?thesis by (simp add: keeps_frame_def sample_callee_def)
qed

definition wide_frame :: limine_framebuffer where
  "wide_frame = small_frame\<lparr>fb_w := 144, pitch := 576, address := replicate 4608 0\<rparr>"

lemma wide_frame_log:
  "console_log wide_frame (int_console (m_kernel sample_machine)) ([], [])" "fb_w wide_frame = 144" "fb_h wide_frame = 32"
proof -
  have "frame_usable wide_frame"
    by (simp add: wide_frame_def frame_usable_def frame_ok_def small_frame_def pool_need_def BUMP_ALLOC_POOL_SIZE_def)
  then show "console_log wide_frame (int_console (m_kernel sample_machine)) ([], [])"
    using boot_console_log by (simp add: sample_machine_def boot_interrupts_def)
  show "fb_w wide_frame = 144" "fb_h wide_frame = 32" by (simp_all add: wide_frame_def small_frame_def)
qed

theorem interrupt_resumes_witness:
  "\<exists>m. interrupt (\<lambda>n. n \<in> errcode_stubs) (Some [wide_frame]) 7 sample_callee 6 0 sample_machine = Inr (Returns m) \<and>
     m_gpr m = m_gpr sample_machine \<and> m_rip m = 0x1000 \<and> m_rsp m = 0x8008 \<and>
     console_log wide_frame (int_console (m_kernel m)) ([[0x65, 0x3a, 0x20, 0x36]], [])"
proof -
  have "dec_text 6 = [0x36]" by (simp add: dec_text_def digits.simps dec_glyph_def)
  with interrupt_resumes [OF wide_frame_log(1) _ _ _ _ sample_callee_keeps,
      of 6 "\<lambda>n. n \<in> errcode_stubs" "[]" 7 0] show ?thesis
    by (auto simp: wide_frame_log(2,3) add_line_def sample_machine_def)
qed

text \<open>
  A vector for which the processor pushes an error code and the file has a stub without one, as
  alignment check, vector 17: \<open>isrHandler\<close> returns, and the stub resumes the program at the error code,
  with the old instruction pointer as the code segment, the code segment as the flags and the flags
  as the stack pointer.
\<close>

theorem stub_without_errcode:
  assumes "console_log f (int_console (m_kernel m)) lg" "length (snd lg) + 13 < fb_w f div 9"
    and "n < 34" "n \<notin> {32, 33}" "errs n" "n \<notin> errcode_stubs" "keeps_frame cc"
  shows "\<exists>mem con. interrupt errs (Some (f # fs)) junk cc n e m
      = Inr (Returns (m\<lparr>m_rip := e, m_cs := m_rip m, m_rflags := m_cs m, m_rsp := m_rflags m, m_ss := m_rsp m,
          m_mem := mem, m_kernel := (m_kernel m)\<lparr>int_console := con\<rparr>\<rparr>))"
proof -
  have "n \<notin> {14, 32, 33}" using assms(4,6) by (auto simp: errcode_stubs_def)
  from interrupt_state [OF assms(1-3) this assms(7), where errs = errs and e = e and fs = fs and junk = junk] show ?thesis
    using assms(5,6) by (auto simp: resumed_def)
qed

theorem stub_without_errcode_witness:
  "\<exists>m. interrupt (\<lambda>n. n \<in> insert 17 errcode_stubs) (Some [wide_frame]) 7 sample_callee 17 0 sample_machine
     = Inr (Returns m) \<and> m_rip m = 0 \<and> m_cs m = 0x1000 \<and> m_rsp m = 0x202"
proof -
  have "(17 :: nat) \<notin> errcode_stubs" by (simp add: errcode_stubs_def)
  with stub_without_errcode [OF wide_frame_log(1) _ _ _ _ _ sample_callee_keeps,
      of 17 "\<lambda>n. n \<in> insert 17 errcode_stubs" "[]" 7 0] show ?thesis
    by (auto simp: wide_frame_log(2,3) sample_machine_def)
qed

end
