(* ===== verification/Kernel_Traps.thy ===== *)
theory Kernel_Traps
  imports Kernel IDT_Stub
begin

text \<open>
  Interrupts and exceptions of the booted kernel: what the processor does with the descriptor tables
  that \<open>_start\<close> has loaded, down to the instructions of a stub. \<open>_load_idt\<close> of
  \<open>sys/_asm_idt.asm\<close> gives it the limit and the base of \<open>idtP\<close>; the rest is the architecture.
  Where the code of the stubs lies is for the linker to choose: \<open>code\<close> is the code at an address.
\<close>

section \<open>Events\<close>

text \<open>
  An exception, with the error code of the processor; a vector from the interrupt controller; a
  non-maskable interrupt; an \<open>int\<close> instruction. Among these, only an exception can have an error
  code, for the vectors \<open>errs\<close>, and only a vector from outside waits for the interrupt flag.
\<close>

datatype event = Exception nat u64 | External nat | Nmi | Software nat

fun event_vector :: "event \<Rightarrow> nat" where
  "event_vector (Exception n e) = n"
| "event_vector (External n) = n"
| "event_vector Nmi = 2"
| "event_vector (Software n) = n"

fun event_error :: "(nat \<Rightarrow> bool) \<Rightarrow> event \<Rightarrow> u64 option" where
  "event_error errs (Exception n e) = (if errs n then Some e else None)"
| "event_error errs _ = None"

fun accepts :: "machine \<Rightarrow> event \<Rightarrow> bool" where
  "accepts m (External n) \<longleftrightarrow> m_rflags m AND INTERRUPT_FLAG \<noteq> 0"
| "accepts m _ \<longleftrightarrow> True"

section \<open>Delivery\<close>

text \<open>
  The processor reads the gate of a vector. A vector beyond the limit and a gate of the wrong type
  are general protection faults; a gate of the right type that is not present is a fault of its own;
  the selector of the gate has to name 64-bit code. The table has no trap gates.
\<close>

datatype gate = Enters u64 | Raises nat

definition GENERAL_PROTECTION_FAULT :: nat where "GENERAL_PROTECTION_FAULT = 13"

definition SEGMENT_NOT_PRESENT :: nat where "SEGMENT_NOT_PRESENT = 11"

definition gate_check :: "kernel \<Rightarrow> nat \<Rightarrow> gate" where
  "gate_check k n =
     (if unat (idt_limit (k_idtP k)) < 16 * n + 15 then Raises GENERAL_PROTECTION_FAULT
      else let g = k_idt k ! n in
        if \<not> interrupt_gate g then Raises GENERAL_PROTECTION_FAULT
        else if \<not> gate_present g then Raises SEGMENT_NOT_PRESENT
        else case lookup_segment (k_gdt k) (seg_gdtr (k_segments k)) (selector g) of
            None \<Rightarrow> Raises GENERAL_PROTECTION_FAULT
          | Some r \<Rightarrow> if long_code 0 r then Enters (gate_offset g) else Raises GENERAL_PROTECTION_FAULT)"

text \<open>The error code of such a fault names the gate, and says whether an instruction asked for it.\<close>

definition gate_error :: "event \<Rightarrow> u64" where
  "gate_error ev = of_nat (8 * event_vector ev) + 2 + (case ev of Software _ \<Rightarrow> 0 | _ \<Rightarrow> 1)"

text \<open>
  The delivery of an event, up to the \<open>iretq\<close> of its stub. It has no value when the fault
  itself finds no gate and when an address holds no known code.
\<close>

definition enter_stub :: "(u64 \<Rightarrow> instr list option) \<Rightarrow> limine_framebuffer list option \<Rightarrow> u8 \<Rightarrow> callee \<Rightarrow> u64
    \<Rightarrow> nat \<Rightarrow> u64 option \<Rightarrow> machine \<Rightarrow> (fault + (machine, interrupts) outcome) option" where
  "enter_stub code response junk cc a n err m =
     map_option (\<lambda>is. run response junk cc is
         (enter (\<lambda>_. err \<noteq> None) n (case err of None \<Rightarrow> 0 | Some e \<Rightarrow> e) m))
       (code a)"

definition deliver :: "(u64 \<Rightarrow> instr list option) \<Rightarrow> (nat \<Rightarrow> bool) \<Rightarrow> kernel \<Rightarrow> limine_framebuffer list option
    \<Rightarrow> u8 \<Rightarrow> callee \<Rightarrow> event \<Rightarrow> machine \<Rightarrow> (fault + (machine, interrupts) outcome) option" where
  "deliver code errs k response junk cc ev m =
     (case gate_check k (event_vector ev) of
        Enters a \<Rightarrow> enter_stub code response junk cc a (event_vector ev) (event_error errs ev) m
      | Raises x \<Rightarrow>
          (case gate_check k x of
             Enters a \<Rightarrow> enter_stub code response junk cc a x (Some (gate_error ev)) m
           | Raises _ \<Rightarrow> None))"

section \<open>The gates of the booted kernel\<close>

text \<open>The linker has put the stubs where the gates point.\<close>

definition linked :: "platform \<Rightarrow> (u64 \<Rightarrow> instr list option) \<Rightarrow> bool" where
  "linked p code \<longleftrightarrow> (\<forall>n < 34. code (p_isr p n) = Some (isr n))"

text \<open>The vector whose stub runs, and the error code it finds.\<close>

definition trap_vector :: "event \<Rightarrow> nat" where
  "trap_vector ev = (if event_vector ev < 34 then event_vector ev else GENERAL_PROTECTION_FAULT)"

definition trap_error :: "(nat \<Rightarrow> bool) \<Rightarrow> event \<Rightarrow> u64 option" where
  "trap_error errs ev = (if event_vector ev < 34 then event_error errs ev else Some (gate_error ev))"

lemma trap_vector_less: "trap_vector ev < 34"
  by (simp add: trap_vector_def GENERAL_PROTECTION_FAULT_def)

lemma booted_gate:
  assumes "booted p f entries k" "n < 256"
  shows "gate_check k n = (if n < 34 then Enters (p_isr p n) else Raises GENERAL_PROTECTION_FAULT)"
proof -
  have b: "gates_set (p_isr p) 34 (k_idt k)" "idt_limit (k_idtP k) = 4095" "k_gdt k = boot_gdt"
    "gdtr_limit (seg_gdtr (k_segments k)) = 87"
    using assms(1) by (simp_all add: booted_def gdt_reload_def)
  have "\<not> 4095 < 16 * n + 15" using assms(2) by simp
  then show ?thesis
    using b(1) assms(2) boot_gdt_lookup(1) [OF b(4)]
    by (auto simp: gate_check_def b(2,3) gates_set_def interrupt_gate_def gate_present_def zero_gate_def seg_defs)
qed

lemma deliver_booted:
  assumes "booted p f entries k" "linked p code" "event_vector ev < 256"
  shows "deliver code errs k response junk cc ev m
    = Some (interrupt (\<lambda>_. trap_error errs ev \<noteq> None) response junk cc (trap_vector ev)
        (case trap_error errs ev of None \<Rightarrow> 0 | Some e \<Rightarrow> e) m)"
proof (cases "event_vector ev < 34")
  case True
  then show ?thesis using booted_gate [OF assms(1,3)] assms(2)
    by (simp add: deliver_def enter_stub_def linked_def interrupt_def trap_error_def trap_vector_def)
next
  case False
  have gp: "GENERAL_PROTECTION_FAULT < 34" by (simp add: GENERAL_PROTECTION_FAULT_def)
  then have "gate_check k GENERAL_PROTECTION_FAULT = Enters (p_isr p GENERAL_PROTECTION_FAULT)"
    using booted_gate [OF assms(1), of GENERAL_PROTECTION_FAULT] by simp
  then show ?thesis using booted_gate [OF assms(1,3)] False assms(2) gp
    by (simp add: deliver_def enter_stub_def linked_def interrupt_def trap_error_def trap_vector_def)
qed

section \<open>What an event leaves behind\<close>

text \<open>The state an event resumes, when its stub returns.\<close>

definition after_event :: "(nat \<Rightarrow> bool) \<Rightarrow> event \<Rightarrow> machine \<Rightarrow> machine" where
  "after_event errs ev m =
     resumed (trap_error errs ev \<noteq> None) (trap_vector ev \<in> errcode_stubs)
       (case trap_error errs ev of None \<Rightarrow> 0 | Some e \<Rightarrow> e) m"

lemma deliver_state:
  assumes "booted p f entries k" "linked p code" "event_vector ev < 256"
    and "console_log g (int_console (m_kernel m)) lg" "length (snd lg) + 13 < fb_w g div 9"
    and "trap_vector ev \<notin> {14, 32, 33}" "keeps_frame cc"
  shows "\<exists>mem con. deliver code errs k (Some (g # gs)) junk cc ev m
      = Some (Inr (Returns ((after_event errs ev m)\<lparr>m_mem := mem, m_kernel := (m_kernel m)\<lparr>int_console := con\<rparr>\<rparr>))) \<and>
    console_log g con (add_line (fb_h g div 16) (fst lg)
      (snd lg @ [0x65, 0x3a, 0x20] @ dec_text (trap_vector ev)), [])"
  unfolding deliver_booted [OF assms(1-3)] after_event_def
  using interrupt_state [OF assms(4,5) trap_vector_less assms(6,7), where fs = gs and junk = junk
      and errs = "\<lambda>_. trap_error errs ev \<noteq> None"] by blast

text \<open>
  C26: an event in the booted kernel, from the gate of its vector to the \<open>iretq\<close> of its stub, for
  every vector but 14, 32 and 33, whose handlers do not return (C2), on a console whose open line leaves
  at least 14 columns. A vector from 34 on has no gate: it is delivered as a general protection fault,
  \<open>isrHandler\<close> sees 13, and the program goes on at the instruction where it was, with all its
  registers. So does every event for which the processor and the stub agree on the error code. When
  only the processor has one, the program is resumed at the error code. When only the stub has one, as
  for the vectors 8 and 10 to 13 from the interrupt controller or of an \<open>int\<close> instruction, \<open>iretq\<close>
  takes the code segment for the address. In each of these cases the general registers are restored,
  and the line on the console is completed with the vector. The stubs are where the gates point, and
  the compiled \<open>isrHandler\<close> does not write to the frame it is handed.
\<close>

theorem event_resumes:
  assumes "booted p f entries k" "linked p code" "event_vector ev < 256" "trap_vector ev \<notin> {14, 32, 33}"
    and "console_log f (int_console (m_kernel m)) lg" "length (snd lg) + 13 < fb_w f div 9" "keeps_frame cc"
  shows "\<exists>m'. deliver code errs k (Some (f # fs)) junk cc ev m = Some (Inr (Returns m')) \<and> m_gpr m' = m_gpr m \<and>
    console_log f (int_console (m_kernel m')) (add_line (fb_h f div 16) (fst lg)
      (snd lg @ [0x65, 0x3a, 0x20] @ dec_text (if event_vector ev < 34 then event_vector ev else 13)), []) \<and>
    (if 34 \<le> event_vector ev \<or> (event_error errs ev \<noteq> None \<longleftrightarrow> event_vector ev \<in> errcode_stubs)
     then m_rip m' = m_rip m \<and> m_cs m' = m_cs m \<and> m_rflags m' = m_rflags m \<and> m_rsp m' = m_rsp m \<and> m_ss m' = m_ss m
     else if event_error errs ev \<noteq> None
     then Some (m_rip m') = event_error errs ev \<and> m_cs m' = m_rip m \<and> m_rflags m' = m_cs m \<and> m_rsp m' = m_rflags m
     else m_rip m' = m_cs m \<and> m_cs m' = m_rflags m \<and> m_rflags m' = m_rsp m \<and> m_rsp m' = m_ss m)"
proof -
  have gp: "(13 :: nat) \<in> errcode_stubs" by (simp add: errcode_stubs_def)
  from deliver_state [OF assms(1-3,5,6,4,7), where gs = fs and junk = junk and errs = errs] obtain mem con where
    "deliver code errs k (Some (f # fs)) junk cc ev m
      = Some (Inr (Returns ((after_event errs ev m)\<lparr>m_mem := mem, m_kernel := (m_kernel m)\<lparr>int_console := con\<rparr>\<rparr>)))"
    "console_log f con (add_line (fb_h f div 16) (fst lg)
      (snd lg @ [0x65, 0x3a, 0x20] @ dec_text (trap_vector ev)), [])" by blast
  then show ?thesis
    using gp by (auto simp: after_event_def resumed_def trap_vector_def trap_error_def GENERAL_PROTECTION_FAULT_def)
qed

text \<open>The stubs one after another, 16 bytes each, and the timer of an interrupt controller that was left as it starts.\<close>

definition sample_code :: "u64 \<Rightarrow> instr list option" where
  "sample_code a = (if a - 0xffffffff80001000 < 34 * 16 then Some (isr (unat (a - 0xffffffff80001000) div 16)) else None)"

lemma sample_linked: "p_isr p = p_isr sample_platform \<Longrightarrow> linked p sample_code"
proof -
  have "of_nat n * 16 < (544 :: u64) \<and> unat (of_nat n * 16 :: u64) = n * 16" if "n < 34" for n
  proof -
    have "unat (of_nat (n * 16) :: u64) = n * 16" using that by (simp only: unat_of_nat) simp
    then show ?thesis using that by (simp add: word_less_unat)
  qed
  then show "p_isr p = p_isr sample_platform \<Longrightarrow> linked p sample_code"
    by (simp add: linked_def sample_code_def sample_platform_def)
qed

theorem event_resumes_witness:
  "\<exists>k m'. boot (sample_platform\<lparr>p_framebuffers := Some [wide_boot_frame]\<rparr>) = Inr (Returns k) \<and>
     deliver sample_code (\<lambda>n. n \<in> errcode_stubs) k (Some [wide_boot_frame]) 7 sample_callee (External 8)
       (sample_machine\<lparr>m_kernel := boot_interrupts (k_console k)\<rparr>) = Some (Inr (Returns m')) \<and>
     m_rip m' = 0x28 \<and> m_cs m' = 0x202 \<and> m_rflags m' = 0x8008 \<and>
     console_log wide_boot_frame (int_console (m_kernel m')) (drop 1 boot_lines @ [[0x65, 0x3a, 0x20, 0x38]], [])"
proof -
  let ?p = "sample_platform\<lparr>p_framebuffers := Some [wide_boot_frame]\<rparr>"
  have f: "frame_usable wide_boot_frame" "5 \<le> fb_h wide_boot_frame div 16" "34 \<le> fb_w wide_boot_frame div 9"
    "fb_h wide_boot_frame div 16 = 5" "fb_w wide_boot_frame div 9 = 38"
    by (simp_all add: wide_boot_frame_def frame_usable_def frame_ok_def pool_need_def BUMP_ALLOC_POOL_SIZE_def)
  obtain es where es: "p_framebuffers ?p = Some [wide_boot_frame]" "p_memmap ?p = Some es" "length (usable es) \<le> MAX_FREE_REGIONS"
    by (auto simp: sample_platform_def usable_def LIMINE_MEMMAP_USABLE_def MAX_FREE_REGIONS_def)
  from boot_ok [OF es(1,2) f(1-3) es(3)] obtain k where k: "boot ?p = Inr (Returns k)" "booted ?p wide_boot_frame es k"
    by blast
  let ?m = "sample_machine\<lparr>m_kernel := boot_interrupts (k_console k)\<rparr>"
  have log: "console_log wide_boot_frame (int_console (m_kernel ?m)) (boot_lines, [])"
    using k(2) by (simp add: booted_def boot_interrupts_def)
  have t: "tl (boot_lines @ x) = tl boot_lines @ x" for x by (simp add: boot_lines_def)
  have d: "dec_text 8 = [0x38]" by (simp add: dec_text_def digits.simps dec_glyph_def)
  have v: "trap_vector (External 8) \<notin> {14, 32, 33}" "event_vector (External 8) < 256"
    "(8 :: nat) \<in> errcode_stubs" by (simp_all add: trap_vector_def errcode_stubs_def)
  from event_resumes [OF k(2) sample_linked v(2,1) log _ sample_callee_keeps, of "\<lambda>n. n \<in> errcode_stubs" "[]" 7] k(1)
  show ?thesis by (auto simp: f(4,5) d v(3) add_line_def boot_lines_printable(1) t drop_Suc sample_machine_def)
qed

end
