(* ===== verification/Rsod_Screen.thy ===== *)
theory Rsod_Screen
  imports IDT
begin

text \<open>
  What the exception screen of \<open>_exception\<close> in \<open>kernel/sys/idt.c\<close> looks like. The painting
  goes to the frame buffer behind the terminal's back: the terminal still believes that its old
  cells are shown, and each of the two writes that follow draws the cells it changes and, since the
  cursor is off, the cell at the old place of the cursor.
\<close>

section \<open>Writing over a painted frame buffer\<close>

text \<open>A terminal whose pixels need not show its cells.\<close>

definition painted :: "ctx \<Rightarrow> bool" where
  "painted c \<longleftrightarrow> fb_wf c \<and> draw_wf c \<and> glyphs_ok c \<and> parser_wf c \<and> text_mode c \<and> autoflush c \<and>
     \<not> cursor_enabled c \<and> (\<forall>i < rows c * cols c. fb_map c ! i = None)"

definition in_text :: "ctx \<Rightarrow> 'a list \<Rightarrow> nat \<Rightarrow> nat \<Rightarrow> bool" where
  "in_text c bs x y \<longleftrightarrow> y = cursor_y c \<and> cursor_x c \<le> x \<and> x < cursor_x c + length bs"

lemma raw_putchar_map:
  assumes "fb_wf c" "flanterm_fb_raw_putchar c b = Some c'" "cursor_x c < cols c" "cursor_y c < rows c"
    and "j \<noteq> cursor_y c * cols c + cursor_x c"
  shows "fb_map c' ! j = fb_map c ! j"
proof -
  let ?c = "c\<lparr>cursor_x := sz_add (cursor_x c) 1\<rparr>"
  have "push_to_queue ?c (glyph_cell c b) (cursor_x c) (cursor_y c) = Some c'"
    using assms(2,3) by (simp add: flanterm_fb_raw_putchar_def glyph_cell_def)
  from push_to_queue_map [OF _ this] assms show ?thesis by simp
qed

lemma parser_wf_cframe: "cframe c c' \<Longrightarrow> parser_wf c' = parser_wf c"
  by (rule cframe_sel) (simp_all add: parser_wf_def forget_cursor_def forget_queue_def)

lemma puts_line:
  assumes "fb_wf c" "parser_wf c" "text_mode c" "\<forall>b \<in> set bs. printable b"
    and "cursor_x c + length bs \<le> cols c" "cursor_y c < rows c"
  shows "\<exists>s. puts bs c = Some s \<and> fb_wf s \<and> cframe c s \<and> cursor_x s = cursor_x c + length bs \<and>
    cursor_y s = cursor_y c \<and>
    (\<forall>x < cols c. \<forall>y < rows c. let i = y * cols c + x in
       if in_text c bs x y then screen s ! i = glyph_cell c (bs ! (x - cursor_x c))
       else screen s ! i = screen c ! i \<and> fb_map s ! i = fb_map c ! i)"
  using assms
proof (induction bs arbitrary: c)
  case Nil
  then show ?case by (auto simp: in_text_def Let_def)
next
  case (Cons b bs)
  have x: "cursor_x c < cols c" using Cons.prems(5) by simp
  let ?k = "cursor_y c * cols c + cursor_x c"
  have k: "?k < rows c * cols c" using x Cons.prems(6) by (rule cell_index)
  obtain t where t: "flanterm_fb_raw_putchar c b = Some t" "fb_wf t" "cframe c t"
    "screen t = (screen c)[?k := glyph_cell c b]" "cursor_x t = Suc (cursor_x c)" "cursor_y t = cursor_y c"
    using raw_putchar_no_wrap [OF Cons.prems(1) x Cons.prems(6)] by blast
  have put: "flanterm_putchar c b = Some t"
    using t(1) putchar_plain [OF Cons.prems(2,3)] Cons.prems(4) by simp
  note geo = cframe_geom [OF t(3)]
  obtain s where s: "puts bs t = Some s" "fb_wf s" "cframe t s" "cursor_x s = cursor_x t + length bs"
    "cursor_y s = cursor_y t"
    and cells: "\<And>x y. x < cols t \<Longrightarrow> y < rows t \<Longrightarrow> let i = y * cols t + x in
       if in_text t bs x y then screen s ! i = glyph_cell t (bs ! (x - cursor_x t))
       else screen s ! i = screen t ! i \<and> fb_map s ! i = fb_map t ! i"
    using Cons.IH [OF t(2)] Cons.prems parser_wf_cframe [OF t(3)] text_mode_cframe [OF t(3)] t(5,6) geo by auto
  have glyph: "glyph_cell t = glyph_cell c" by (simp add: fun_eq_iff glyph_cell_def geo)
  have "let i = y * cols c + x in
      if in_text c (b # bs) x y then screen s ! i = glyph_cell c ((b # bs) ! (x - cursor_x c))
      else screen s ! i = screen c ! i \<and> fb_map s ! i = fb_map c ! i"
    if xy: "x < cols c" "y < rows c" for x y
  proof -
    let ?i = "y * cols c + x"
    have i: "?i < rows c * cols c" using xy by (rule cell_index)
    have eq: "?i = ?k \<longleftrightarrow> x = cursor_x c \<and> y = cursor_y c"
      using cell_index_inj [OF xy(1) x, of y "cursor_y c"] by auto
    have cell: "screen t ! ?i = (if ?i = ?k then glyph_cell c b else screen c ! ?i)"
      using i k unfolding t(4) by (simp add: nth_list_update)
    have map: "?i \<noteq> ?k \<Longrightarrow> fb_map t ! ?i = fb_map c ! ?i"
      using raw_putchar_map [OF Cons.prems(1) t(1) x Cons.prems(6)] by simp
    consider "in_text t bs x y" | "?i = ?k" "\<not> in_text t bs x y" | "?i \<noteq> ?k" "\<not> in_text t bs x y" by blast
    then show ?thesis
    proof cases
      case 1
      then have "in_text c (b # bs) x y" "x - cursor_x c = Suc (x - cursor_x t)"
        using t(5,6) by (auto simp: in_text_def)
      then show ?thesis using 1 cells [of x y] xy geo glyph by (simp add: Let_def)
    next
      case 2
      then have "in_text c (b # bs) x y" "x = cursor_x c" using eq by (auto simp: in_text_def)
      then show ?thesis using 2 cells [of x y] xy geo cell by (simp add: Let_def)
    next
      case 3
      then have "\<not> in_text c (b # bs) x y" using eq t(5,6) by (auto simp: in_text_def)
      then show ?thesis using 3 cells [of x y] xy geo cell map by (simp add: Let_def)
    qed
  qed
  then show ?case using put s t(5,6) cframe_trans [OF t(3) s(3)] by (intro exI [of _ s]) simp
qed

lemma painted_grid:
  assumes "painted c"
  shows "grid c = screen c"
  using assms by (intro nth_equalityI) (auto simp: painted_def fb_wf_def geom_wf_def cell_at_def)

lemma painted_glyphs: "painted c \<Longrightarrow> i < rows c * cols c \<Longrightarrow> glyph_ok (screen c ! i)"
  using glyphs_ok_cell [of c i] by (simp add: painted_def pending_wf_queue)

text \<open>
  One write: the text is drawn when its cells change their background, the cell at the old place of
  the cursor is drawn with what the terminal holds there, and every other cell keeps its pixels.
\<close>

lemma write_painted:
  assumes c: "painted c" and bs: "\<forall>b \<in> set bs. printable b" "cursor_x c + length bs \<le> cols c" "cursor_y c < rows c"
    and fresh: "\<And>x y. x < cols c \<Longrightarrow> y < rows c \<Longrightarrow> in_text c bs x y \<Longrightarrow>
      char_bg (screen c ! (y * cols c + x)) \<noteq> text_bg c"
    and D: "\<And>x y. x < cols c \<Longrightarrow> y < rows c \<Longrightarrow> displays c (D x y) x y"
  shows "\<exists>c'. flanterm_write c bs = Some c' \<and> painted c' \<and> rows c' = rows c \<and> cols c' = cols c \<and>
    text_fg c' = text_fg c \<and> text_bg c' = text_bg c \<and>
    old_cursor_x c' = cursor_x c + length bs \<and> old_cursor_y c' = cursor_y c \<and>
    (\<forall>x < cols c. \<forall>y < rows c. screen c' ! (y * cols c + x) =
       (if in_text c bs x y then glyph_cell c (bs ! (x - cursor_x c)) else screen c ! (y * cols c + x))) \<and>
    (\<forall>x < cols c. \<forall>y < rows c. displays c'
       (if in_text c bs x y then glyph_cell c (bs ! (x - cursor_x c))
        else if (x, y) = (old_cursor_x c, old_cursor_y c) then screen c ! (y * cols c + x) else D x y) x y)"
proof -
  note p = c [unfolded painted_def]
  obtain s where s: "puts bs c = Some s" "fb_wf s" "cframe c s" "cursor_x s = cursor_x c + length bs"
    "cursor_y s = cursor_y c"
    and cells: "\<And>x y. x < cols c \<Longrightarrow> y < rows c \<Longrightarrow> let i = y * cols c + x in
       if in_text c bs x y then screen s ! i = glyph_cell c (bs ! (x - cursor_x c))
       else screen s ! i = screen c ! i \<and> fb_map s ! i = fb_map c ! i"
    using puts_line [of c bs] p bs by blast
  note geo = cframe_geom [OF s(3)]
  have sel: "framebuffer s = framebuffer c" "cursor_enabled s = cursor_enabled c" "autoflush s = autoflush c"
    "draw_wf s = draw_wf c" "displays s = displays c" "old_cursor_x s = old_cursor_x c" "old_cursor_y s = old_cursor_y c"
    by (rule cframe_sel [OF s(3)], simp add: forget_cursor_def forget_queue_def draw_wf_def fun_eq_iff
        displays_def fb_index_def cell_pixel_def glyph_bit_def canvas_index_def Let_def)+
  have cell: "screen s ! (y * cols c + x) = (if in_text c bs x y then glyph_cell c (bs ! (x - cursor_x c))
      else screen c ! (y * cols c + x))" if "x < cols c" "y < rows c" for x y
    using cells [OF that] by (simp add: Let_def split: if_splits)
  have "\<exists>x y. i = y * cols c + x \<and> x < cols c \<and> y < rows c" if "i < rows c * cols c" for i
  proof -
    have "0 < cols c" using that by (cases "cols c") auto
    then show ?thesis using that
      by (intro exI [of _ "i mod cols c"] exI [of _ "i div cols c"]) (simp add: less_mult_imp_div_less)
  qed
  then have "glyph_ok ch" if "ch \<in> set (screen s)" for ch
    using that cell painted_glyphs [OF c] geo by (fastforce simp: in_set_conv_nth glyph_cell_def simp del: nth_screen)
  then have gs: "glyphs_ok s"
    using p geo by (intro glyphs_ok_screen [OF s(2)]) (simp_all add: glyphs_ok_def)
  obtain c' where c': "flanterm_fb_double_buffer_flush s = Some c'" "fb_wf c'" "draw_wf c'" "glyphs_ok c'"
    "screen c' = screen s" "grid c' = screen s" "\<forall>i < rows s * cols s. fb_map c' ! i = None" "dframe s c'"
    "old_cursor_x c' = cursor_x s" "old_cursor_y c' = cursor_y s"
    and disp: "\<And>x y. x < cols s \<Longrightarrow> y < rows s \<Longrightarrow> let i = y * cols s + x in
       if (x, y) = (old_cursor_x s, old_cursor_y s) then displays c' (screen s ! i) x y
       else if fb_map s ! i = None then (\<forall>ch. displays c' ch x y = displays s ch x y)
       else recoloured s i \<longrightarrow> displays c' (screen s ! i) x y"
    using flush_repaint [OF s(2) _ gs] p sel by auto
  have sel': "parser_wf c' = parser_wf s" "text_mode c' = text_mode s" "autoflush c' = autoflush s"
    "cursor_enabled c' = cursor_enabled s" "text_fg c' = text_fg s" "text_bg c' = text_bg s"
    by (rule dframe_sel [OF c'(8)], simp add: forget_draw_def parser_wf_def text_mode_def)+
  note geo' = dframe_geom [OF c'(8)]
  have "painted c'"
    using p c'(2-4,7) sel sel' geo geo' parser_wf_cframe [OF s(3)] text_mode_cframe [OF s(3)]
    by (simp add: painted_def)
  moreover have "flanterm_write c bs = Some c'"
    using s(1) c'(1) sel(3) p by (simp add: flanterm_write_def puts_def)
  moreover have "displays c' (if in_text c bs x y then glyph_cell c (bs ! (x - cursor_x c))
      else if (x, y) = (old_cursor_x c, old_cursor_y c) then screen c ! (y * cols c + x) else D x y) x y"
    if xy: "x < cols c" "y < rows c" for x y
  proof -
    let ?i = "y * cols c + x"
    have i: "?i < rows c * cols c" using xy by (rule cell_index)
    note d = disp [of x y, unfolded geo sel(6,7), OF xy, unfolded Let_def]
    show ?thesis
    proof (cases "in_text c bs x y")
      case True
      then have scr: "screen s ! ?i = glyph_cell c (bs ! (x - cursor_x c))" using cell [OF xy] by simp
      have "char_bg (screen s ! ?i) \<noteq> char_bg (grid s ! ?i)"
        unfolding scr geo painted_grid [OF c] using fresh [OF xy True] by (simp add: glyph_cell_def)
      then have "recoloured s ?i" "screen s ! ?i \<noteq> grid s ! ?i" unfolding recoloured_def by auto
      moreover have "fb_map s ! ?i = None \<Longrightarrow> screen s ! ?i = grid s ! ?i" using i geo(1,2) by (simp add: cell_at_def)
      ultimately have "displays c' (screen s ! ?i) x y" using d by (auto split: if_splits)
      then show ?thesis unfolding scr using True by simp
    next
      case False
      then have scr: "screen s ! ?i = screen c ! ?i" "fb_map s ! ?i = None"
        using cells [OF xy] p i by (simp_all add: Let_def)
      show ?thesis using d D [OF xy] False unfolding scr sel(5) by (auto split: if_splits)
    qed
  qed
  ultimately show ?thesis using c'(5,9,10) s(4,5) cell geo geo' sel' by (intro exI [of _ c'] conjI) simp_all
qed

section \<open>The exception screen\<close>

definition red :: flanterm_fb_char where
  "red = \<lparr>char_c = 0x20, char_fg = 0xb25757, char_bg = 0xb25757\<rparr>"

definition dark :: "u8 \<Rightarrow> flanterm_fb_char" where
  "dark b = \<lparr>char_c = ucast b, char_fg = 0x330000, char_bg = 0xb25757\<rparr>"

definition panic_text :: "u8 list" where
  "panic_text = map of_char ''Well that's fucked up, Look's like your PC ran into an issue.''"

lemma panic_text:
  "panic_message = panic_text @ [0]" "length panic_text = 61" "\<forall>b \<in> set panic_text. printable b"
  by (simp_all add: panic_message_def panic_text_def c_string_def printable_def)

lemma write_string_eq: "0 \<notin> set bs \<Longrightarrow> write_string c (bs @ [0]) = of_opt (flanterm_write c bs)"
  by (simp add: write_string_def strlen3_def scan_append)

lemma printable_no_zero: "\<forall>b \<in> set bs. printable b \<Longrightarrow> 0 \<notin> set bs"
  by (auto simp: printable_def)

lemma log_screen_bg: "ch \<in> set (log_screen c ls) \<Longrightarrow> char_bg ch = text_bg c"
  by (auto simp: log_screen_def log_row_def glyph_cell_def empty_char_def split: if_splits)

lemma paint_red:
  assumes con: "console_log f con lg" "con_context con = Some c" and f: "frame_true_colour f"
  shows "\<exists>q. paint con = Inr (c\<lparr>framebuffer := q\<rparr>) \<and> length q = length (framebuffer c) \<and>
    (\<forall>x < cols c. \<forall>y < rows c. displays (c\<lparr>framebuffer := q\<rparr>) red x y)"
proof -
  have log: "framebuffer2 con = Some f" "term_wf c" "surface c = (fb_w f, fb_h f, pitch f)"
    using con by (simp_all add: console_log_def log_ready_def)
  have wf: "draw_wf c" using term_wfD(1) [OF log(2)] by (simp add: drawn_def)
  have dim: "fb_width c = fb_w f" "fb_height c = fb_h f" "fb_pitch c = pitch f"
    using log(3) by (simp_all add: surface_def)
  have len: "length (framebuffer c) = fb_h f * (pitch f div 4)" using wf by (simp add: draw_wf_def dim)
  from fill_rows [OF f len order.refl] obtain q where q: "fill_screen f (framebuffer c) = Some q"
    "length q = length (framebuffer c)"
    "\<forall>y < fb_h f. \<forall>x < pitch f div 4. x < fb_w f \<longrightarrow> q ! (y * (pitch f div 4) + x) = 0xb25757"
    by (auto simp: fill_screen_def)
  have "paint con = Inr (c\<lparr>framebuffer := q\<rparr>)"
    using con(2) log(1) q(1) by (simp add: paint_def getFramebuffer_def getContext_def)
  moreover have "displays (c\<lparr>framebuffer := q\<rparr>) red x y" if xy: "x < cols c" "y < rows c" for x y
    unfolding displays_def
  proof (intro allI impI)
    fix gx gy
    assume g: "gx < glyph_width (c\<lparr>framebuffer := q\<rparr>)" "gy < glyph_height (c\<lparr>framebuffer := q\<rparr>)"
    let ?X = "offset_x c + x * glyph_width c + gx" and ?Y = "offset_y c + y * glyph_height c + gy"
    have "?X < fb_w f" "?Y < fb_h f" using cell_bounds [OF wf] g xy by (simp_all add: dim)
    moreover have "fb_w f \<le> pitch f div 4" using f by (simp add: frame_true_colour_def)
    ultimately have "q ! (?Y * (pitch f div 4) + ?X) = 0xb25757" using q(3) by simp
    then have "q ! fb_index (c\<lparr>framebuffer := q\<rparr>) x y gx gy = 0xb25757"
      by (simp add: fb_index_def dim add.commute)
    moreover have "cell_pixel e red x y gx gy = 0xb25757" for e
      by (simp add: cell_pixel_def red_def)
    ultimately show "framebuffer (c\<lparr>framebuffer := q\<rparr>) ! fb_index (c\<lparr>framebuffer := q\<rparr>) x y gx gy
        = cell_pixel (c\<lparr>framebuffer := q\<rparr>) red x y gx gy" by simp
  qed
  ultimately show ?thesis using q(2) by blast
qed

text \<open>Moving the cursor changes nothing else.\<close>

lemma painted_move:
  assumes "painted c" "x < cols c" "y < rows c"
  shows "flanterm_fb_set_cursor_pos c x y = c\<lparr>cursor_x := x, cursor_y := y\<rparr>"
    "painted (c\<lparr>cursor_x := x, cursor_y := y\<rparr>)" "screen (c\<lparr>cursor_x := x, cursor_y := y\<rparr>) = screen c"
    "displays (c\<lparr>cursor_x := x, cursor_y := y\<rparr>) = displays c"
proof -
  show "flanterm_fb_set_cursor_pos c x y = c\<lparr>cursor_x := x, cursor_y := y\<rparr>"
    using assms(2,3) by (simp add: flanterm_fb_set_cursor_pos_def clamp_pos_def)
  show "screen (c\<lparr>cursor_x := x, cursor_y := y\<rparr>) = screen c" by (rule fb_wf_cong) simp_all
  have "fb_wf (c\<lparr>cursor_x := x, cursor_y := y\<rparr>) = fb_wf c" by (rule fb_wf_cong) simp_all
  moreover have "draw_wf (c\<lparr>cursor_x := x, cursor_y := y\<rparr>) = draw_wf c" by (simp add: draw_wf_def)
  ultimately show "painted (c\<lparr>cursor_x := x, cursor_y := y\<rparr>)" using assms(1)
    by (simp add: painted_def glyphs_ok_def parser_wf_def text_mode_def)
  show "displays (c\<lparr>cursor_x := x, cursor_y := y\<rparr>) = displays c"
    by (simp add: fun_eq_iff displays_def fb_index_def cell_pixel_def glyph_bit_def canvas_index_def Let_def)
qed

text \<open>A write from a given position.\<close>

definition text_cell :: "ctx \<Rightarrow> u8 list \<Rightarrow> nat \<Rightarrow> nat \<Rightarrow> (nat \<Rightarrow> nat \<Rightarrow> flanterm_fb_char) \<Rightarrow> nat \<Rightarrow> nat \<Rightarrow> flanterm_fb_char" where
  "text_cell c bs x0 y0 other x y =
     (if y = y0 \<and> x0 \<le> x \<and> x < x0 + length bs then glyph_cell c (bs ! (x - x0)) else other x y)"

lemma write_at:
  assumes c: "painted c" "x0 < cols c" "y0 < rows c" and bs: "\<forall>b \<in> set bs. printable b" "x0 + length bs \<le> cols c"
    and fresh: "\<And>x. x < cols c \<Longrightarrow> char_bg (screen c ! (y0 * cols c + x)) \<noteq> text_bg c"
    and D: "\<And>x y. x < cols c \<Longrightarrow> y < rows c \<Longrightarrow> displays c (D x y) x y"
  shows "\<exists>c'. flanterm_write (flanterm_fb_set_cursor_pos c x0 y0) bs = Some c' \<and> painted c' \<and>
    rows c' = rows c \<and> cols c' = cols c \<and> text_fg c' = text_fg c \<and> text_bg c' = text_bg c \<and>
    old_cursor_x c' = x0 + length bs \<and> old_cursor_y c' = y0 \<and>
    (\<forall>x < cols c. \<forall>y < rows c. screen c' ! (y * cols c + x) =
       text_cell c bs x0 y0 (\<lambda>x y. screen c ! (y * cols c + x)) x y) \<and>
    (\<forall>x < cols c. \<forall>y < rows c. displays c' (text_cell c bs x0 y0
       (\<lambda>x y. if (x, y) = (old_cursor_x c, old_cursor_y c) then screen c ! (y * cols c + x) else D x y) x y) x y)"
proof -
  note m = painted_move [OF c]
  let ?c = "c\<lparr>cursor_x := x0, cursor_y := y0\<rparr>"
  have sel: "cursor_x ?c = x0" "cursor_y ?c = y0" "rows ?c = rows c" "cols ?c = cols c" "text_fg ?c = text_fg c"
    "text_bg ?c = text_bg c" "old_cursor_x ?c = old_cursor_x c" "old_cursor_y ?c = old_cursor_y c"
    "glyph_cell ?c = glyph_cell c" by (simp_all add: glyph_cell_def fun_eq_iff)
  have it: "in_text ?c bs x y \<longleftrightarrow> y = y0 \<and> x0 \<le> x \<and> x < x0 + length bs" for x y
    by (simp add: in_text_def)
  show ?thesis
    using write_painted [of ?c bs D, OF m(2)] c bs fresh D
    unfolding m(1,3,4) sel it text_cell_def by simp
qed

text \<open>The terminal after the painting, with the new colours.\<close>

lemma painted_colours:
  fixes c q
  defines "d \<equiv> (flanterm_fb_set_text_bg_rgb (flanterm_fb_set_text_fg_rgb (c\<lparr>framebuffer := q\<rparr>) 0x330000)
    0xb25757)\<lparr>cursor_enabled := False\<rparr>"
  assumes c: "term_wf c" "text_mode c" "autoflush c" "flushed c" and q: "length q = length (framebuffer c)"
  shows "painted d" "screen d = screen c" "displays d = displays (c\<lparr>framebuffer := q\<rparr>)"
    "rows d = rows c" "cols d = cols c" "text_fg d = 0x330000" "text_bg d = 0xb25757"
    "old_cursor_x d = cursor_x c" "old_cursor_y d = cursor_y c"
proof -
  have dr: "fb_wf c" "draw_wf c" "glyphs_ok c" "parser_wf c"
    using term_wfD [OF c(1)] by (simp_all add: drawn_def)
  have "fb_map c ! i = None" if "i < rows c * cols c" for i
    using dr(1) that c(4) by (cases "fb_map c ! i") (auto simp: fb_wf_def queue_wf_def flushed_def)
  moreover have "fb_wf d = fb_wf c" unfolding d_def flanterm_fb_set_text_bg_rgb_def flanterm_fb_set_text_fg_rgb_def
    by (rule fb_wf_cong) simp_all
  moreover have "draw_wf d = draw_wf c"
    using q by (simp add: d_def flanterm_fb_set_text_bg_rgb_def flanterm_fb_set_text_fg_rgb_def draw_wf_def)
  moreover have "glyphs_ok d = glyphs_ok c" "parser_wf d = parser_wf c" "text_mode d = text_mode c"
    by (simp_all add: d_def flanterm_fb_set_text_bg_rgb_def flanterm_fb_set_text_fg_rgb_def
        glyphs_ok_def parser_wf_def text_mode_def)
  ultimately show "painted d" using dr c(2,3)
    by (simp add: painted_def)
      (simp add: d_def flanterm_fb_set_text_bg_rgb_def flanterm_fb_set_text_fg_rgb_def)
  show "screen d = screen c" unfolding d_def flanterm_fb_set_text_bg_rgb_def flanterm_fb_set_text_fg_rgb_def
    by (rule fb_wf_cong) simp_all
  show "displays d = displays (c\<lparr>framebuffer := q\<rparr>)"
    by (simp add: d_def flanterm_fb_set_text_bg_rgb_def flanterm_fb_set_text_fg_rgb_def fun_eq_iff
        displays_def fb_index_def cell_pixel_def glyph_bit_def canvas_index_def Let_def)
qed (use c(4) in \<open>simp_all add: d_def flanterm_fb_set_text_bg_rgb_def flanterm_fb_set_text_fg_rgb_def flushed_def\<close>)

lemma exception_screen:
  assumes con: "console_log f con lg" "con_context con = Some c" and f: "frame_true_colour f"
    and size: "12 \<le> rows c" "66 \<le> cols c"
    and ds: "\<forall>b \<in> set ds. printable b" "5 + length ds \<le> cols c"
  shows "\<exists>c'. exception_state con (ds @ [0]) = Inr (con\<lparr>con_context := Some c'\<rparr>) \<and>
    (\<forall>x < cols c. \<forall>y < rows c.
       if y = 10 \<and> 5 \<le> x \<and> x < 66 then displays c' (dark (panic_text ! (x - 5))) x y
       else if y = 11 \<and> 5 \<le> x \<and> x < 5 + length ds then displays c' (dark (ds ! (x - 5))) x y
       else if (x, y) = (66, 10) \<or> (x, y) = (length (snd lg), length (fst lg))
         then displays c' (screen c ! (y * cols c + x)) x y
       else displays c' red x y)"
proof -
  have log: "term_wf c" "text_mode c" "autoflush c" "shows_log c lg" "text_bg c = 0xffffffff" "flushed c"
    using con by (simp_all add: console_log_def log_ready_def)
  from paint_red [OF con f] obtain q where q: "paint con = Inr (c\<lparr>framebuffer := q\<rparr>)"
    "length q = length (framebuffer c)"
    "\<And>x y. x < cols c \<Longrightarrow> y < rows c \<Longrightarrow> displays (c\<lparr>framebuffer := q\<rparr>) red x y" by blast
  define d where "d = (flanterm_fb_set_text_bg_rgb (flanterm_fb_set_text_fg_rgb (c\<lparr>framebuffer := q\<rparr>) 0x330000)
    0xb25757)\<lparr>cursor_enabled := False\<rparr>"
  note d = painted_colours [OF log(1-3,6) q(2), folded d_def]
  have cur: "cursor_x c = length (snd lg)" "cursor_y c = length (fst lg)" using log(4) by (simp_all add: shows_log_def)
  have bg: "char_bg (screen c ! i) = 0xffffffff" if "i < rows c * cols c" for i
  proof -
    have "screen c ! i \<in> set (screen c)" using that by (intro nth_mem) simp
    moreover have "screen c = log_screen c (fst lg @ [snd lg])" using log(4) by (simp add: shows_log_def)
    ultimately show ?thesis using log_screen_bg log(5) by metis
  qed
  have colours: "glyph_cell e b = dark b" if "text_fg e = 0x330000" "text_bg e = 0xb25757" for e b
    using that by (simp add: glyph_cell_def dark_def)
  have "5 < cols d" "10 < rows d" "5 + length panic_text \<le> cols d" using size d panic_text(2) by simp_all
  moreover have "char_bg (screen d ! (10 * cols d + x)) \<noteq> text_bg d" if "x < cols d" for x
  proof -
    have "10 * cols c + x < rows c * cols c" using that d(5) size by (intro cell_index) simp_all
    then show ?thesis unfolding d(2,5,7) bg [OF \<open>10 * cols c + x < rows c * cols c\<close>] by simp
  qed
  moreover have "displays d red x y" if "x < cols d" "y < rows d" for x y
    using q(3) that unfolding d(3-5) by simp
  ultimately have "\<exists>c1. flanterm_write (flanterm_fb_set_cursor_pos d 5 10) panic_text = Some c1 \<and> painted c1 \<and>
      rows c1 = rows d \<and> cols c1 = cols d \<and> text_fg c1 = text_fg d \<and> text_bg c1 = text_bg d \<and>
      old_cursor_x c1 = 5 + length panic_text \<and> old_cursor_y c1 = 10 \<and>
      (\<forall>x < cols d. \<forall>y < rows d. screen c1 ! (y * cols d + x) =
         text_cell d panic_text 5 10 (\<lambda>x y. screen d ! (y * cols d + x)) x y) \<and>
      (\<forall>x < cols d. \<forall>y < rows d. displays c1 (text_cell d panic_text 5 10
         (\<lambda>x y. if (x, y) = (old_cursor_x d, old_cursor_y d) then screen d ! (y * cols d + x) else red) x y) x y)"
    by (intro write_at [OF d(1)] panic_text(3))
  then obtain c1 where c1: "flanterm_write (flanterm_fb_set_cursor_pos d 5 10) panic_text = Some c1" "painted c1"
    "rows c1 = rows c" "cols c1 = cols c" "text_fg c1 = 0x330000" "text_bg c1 = 0xb25757"
    "old_cursor_x c1 = 66" "old_cursor_y c1 = 10"
    and scr1: "\<And>x y. x < cols c \<Longrightarrow> y < rows c \<Longrightarrow> screen c1 ! (y * cols c + x) =
       text_cell d panic_text 5 10 (\<lambda>x y. screen c ! (y * cols c + x)) x y"
    and dis1: "\<And>x y. x < cols c \<Longrightarrow> y < rows c \<Longrightarrow> displays c1 (text_cell d panic_text 5 10
       (\<lambda>x y. if (x, y) = (length (snd lg), length (fst lg)) then screen c ! (y * cols c + x) else red) x y) x y"
    unfolding d(2,4-9) cur panic_text(2) by force
  have below: "screen c1 ! (11 * cols c + x) = screen c ! (11 * cols c + x)" if "x < cols c" for x
    using scr1 [of x 11] that size by (simp add: text_cell_def)
  have bg1: "char_bg (screen c1 ! (11 * cols c1 + x)) \<noteq> text_bg c1" if "x < cols c1" for x
  proof -
    have "11 * cols c + x < rows c * cols c" using that c1(4) size by (intro cell_index) simp_all
    then show ?thesis using below [of x] bg that c1(4,6) by simp
  qed
  define D where "D = text_cell d panic_text 5 10
      (\<lambda>x y. if (x, y) = (length (snd lg), length (fst lg)) then screen c ! (y * cols c + x) else red)"
  have "displays c1 (D x y) x y" if "x < cols c1" "y < rows c1" for x y
    using dis1 [of x y] that unfolding D_def c1(3,4) by simp
  moreover have "5 < cols c1" "11 < rows c1" "5 + length ds \<le> cols c1" using size c1(3,4) ds(2) by simp_all
  ultimately have "\<exists>c2. flanterm_write (flanterm_fb_set_cursor_pos c1 5 11) ds = Some c2 \<and>
      (\<forall>x < cols c1. \<forall>y < rows c1. displays c2 (text_cell c1 ds 5 11
         (\<lambda>x y. if (x, y) = (old_cursor_x c1, old_cursor_y c1) then screen c1 ! (y * cols c1 + x) else D x y) x y) x y)"
    using write_at [OF c1(2) _ _ ds(1) _ bg1, of 5 D] by blast
  then obtain c2 where c2: "flanterm_write (flanterm_fb_set_cursor_pos c1 5 11) ds = Some c2"
    and dis2: "\<And>x y. x < cols c \<Longrightarrow> y < rows c \<Longrightarrow> displays c2 (text_cell c1 ds 5 11
       (\<lambda>x y. if (x, y) = (66, 10) then screen c1 ! (y * cols c + x)
          else D x y) x y) x y"
    unfolding c1(3,4,7,8) by blast
  have "exception_state con (ds @ [0]) = Inr (con\<lparr>con_context := Some c2\<rparr>)"
    unfolding exception_state_def q(1) ebind_simps Let_def panic_text(1)
      write_string_eq [OF printable_no_zero [OF panic_text(3)]] d_def [symmetric] c1(1) of_opt_simps
      write_string_eq [OF printable_no_zero [OF ds(1)]] c2 ebind_simps ..
  moreover have "if y = 10 \<and> 5 \<le> x \<and> x < 66 then displays c2 (dark (panic_text ! (x - 5))) x y
       else if y = 11 \<and> 5 \<le> x \<and> x < 5 + length ds then displays c2 (dark (ds ! (x - 5))) x y
       else if (x, y) = (66, 10) \<or> (x, y) = (length (snd lg), length (fst lg))
         then displays c2 (screen c ! (y * cols c + x)) x y
       else displays c2 red x y" if xy: "x < cols c" "y < rows c" for x y
    using dis2 [OF xy, unfolded D_def] scr1 [OF xy] colours [of d, OF d(6,7)] colours [OF c1(5,6)] panic_text(2)
    by (auto simp: text_cell_def split: if_splits)
  ultimately show ?thesis by blast
qed

text \<open>A page fault, from \<open>isrHandler\<close> to the halt.\<close>

lemma page_fault_state:
  assumes "console_log f (int_console st) lg" "length (snd lg) + 13 < fb_w f div 9" "\<not> rsodBusy st"
    and "int_no regs = 14" "frame_true_colour f" "12 \<le> fb_h f div 16" "66 \<le> fb_w f div 9"
  shows "\<exists>st' c n. isrHandler (Some (f # fs)) junk st regs = Inr (Halts st') \<and>
    con_context (int_console st') = Some c \<and>
    n = length (add_line (fb_h f div 16) (fst lg) (snd lg @ [0x65, 0x3a, 0x20, 0x31, 0x34])) \<and>
    (\<forall>x < fb_w f div 9. \<forall>y < fb_h f div 16.
       if y = 10 \<and> 5 \<le> x \<and> x < 66 then displays c (dark (panic_text ! (x - 5))) x y
       else if y = 11 \<and> 5 \<le> x \<and> x < 15 then displays c (dark (map of_char ''PAGE FAULT'' ! (x - 5))) x y
       else if (x, y) = (66, 10) \<or> (x, y) = (0, n) then \<exists>ch. char_bg ch = 0xffffffff \<and> displays c ch x y
       else displays c red x y)"
proof -
  have "dec_text 14 = [0x31, 0x34]" by (simp add: dec_text_def digits.simps dec_glyph_def)
  with isr_print [OF assms(1,2), of 14 fs junk] obtain con where con:
    "printf (Some (f # fs)) junk (int_console st) (c_string ''e: %d\<newline>'') [14] = Inr con"
    "console_log f con (add_line (fb_h f div 16) (fst lg) (snd lg @ [0x65, 0x3a, 0x20, 0x31, 0x34]), [])"
    by auto
  let ?ls = "add_line (fb_h f div 16) (fst lg) (snd lg @ [0x65, 0x3a, 0x20, 0x31, 0x34])"
  have "?ls \<noteq> []" using assms(6) by (cases "fst lg") (auto simp: add_line_def)
  then obtain c where c: "con_context con = Some c" using con(2) by (auto simp: console_log_def split: option.splits)
  have dim: "rows c = fb_h f div 16" "cols c = fb_w f div 9" and log: "shows_log c (?ls, [])" "text_bg c = 0xffffffff"
    using con(2) c by (simp_all add: console_log_def)
  have bg: "char_bg (screen c ! (y * cols c + x)) = 0xffffffff" if "x < cols c" "y < rows c" for x y
  proof -
    have "screen c ! (y * cols c + x) \<in> set (screen c)" using cell_index [OF that] by (intro nth_mem) simp
    moreover have "screen c = log_screen c (?ls @ [[]])" using log(1) by (simp add: shows_log_def)
    ultimately show ?thesis using log_screen_bg log(2) by metis
  qed
  have ds: "\<forall>b \<in> set (map of_char ''PAGE FAULT''). printable b" "length (map of_char ''PAGE FAULT'' :: u8 list) = 10"
    "c_string ''PAGE FAULT'' = map of_char ''PAGE FAULT'' @ [0]"
    by (simp_all add: printable_def c_string_def)
  have five_ten: "5 + 10 = (15 :: nat)" by simp
  have "12 \<le> rows c" "66 \<le> cols c" "5 + length (map of_char ''PAGE FAULT'' :: u8 list) \<le> cols c"
    using assms(6,7) dim ds(2) by linarith+
  from exception_screen [OF con(2) c assms(5) this(1,2) ds(1) this(3)]
  obtain c' where c': "exception_state con (c_string ''PAGE FAULT'') = Inr (con\<lparr>con_context := Some c'\<rparr>)"
    and cells: "\<And>x y. x < cols c \<Longrightarrow> y < rows c \<Longrightarrow>
       if y = 10 \<and> 5 \<le> x \<and> x < 66 then displays c' (dark (panic_text ! (x - 5))) x y
       else if y = 11 \<and> 5 \<le> x \<and> x < 15 then displays c' (dark (map of_char ''PAGE FAULT'' ! (x - 5))) x y
       else if (x, y) = (66, 10) \<or> (x, y) = (0, length ?ls)
         then displays c' (screen c ! (y * cols c + x)) x y
       else displays c' red x y"
    unfolding ds(2,3) fst_conv snd_conv list.size(3) five_ten by blast
  have "isrHandler (Some (f # fs)) junk st regs = Inr (Halts (st\<lparr>int_console := con\<lparr>con_context := Some c'\<rparr>\<rparr>))"
    using con(1) c' assms(3,4) by (simp add: isrHandler_def exception_def Let_def)
  moreover have "if y = 10 \<and> 5 \<le> x \<and> x < 66 then displays c' (dark (panic_text ! (x - 5))) x y
       else if y = 11 \<and> 5 \<le> x \<and> x < 15 then displays c' (dark (map of_char ''PAGE FAULT'' ! (x - 5))) x y
       else if (x, y) = (66, 10) \<or> (x, y) = (0, length ?ls) then \<exists>ch. char_bg ch = 0xffffffff \<and> displays c' ch x y
       else displays c' red x y" if "x < fb_w f div 9" "y < fb_h f div 16" for x y
    using cells [of x y] bg [of x y] that dim by (auto split: if_splits simp del: list.map)
  ultimately show ?thesis
    by (intro exI [of _ "st\<lparr>int_console := con\<lparr>con_context := Some c'\<rparr>\<rparr>"] exI [of _ c'] exI [of _ "length ?ls"])
      (simp del: list.map)
qed

section \<open>Properties\<close>

text \<open>
  C5: the exception screen of a page fault. On a 32-bit frame buffer for at least twelve rows of
  66 characters, with the console in the state its log describes, at least 14 columns left on the
  open line and no exception screen under way, \<open>isrHandler\<close> halts with both messages on a screen
  that is red, except for two cells which the terminal draws over the red when it removes a cursor
  that is not there: the cell where the next line of the log would have started, and the cell behind
  the first message.
\<close>

theorem page_fault_screen:
  assumes "console_log f (int_console st) lg" "length (snd lg) + 13 < fb_w f div 9" "\<not> rsodBusy st"
    and "int_no regs = 14" "frame_true_colour f" "12 \<le> fb_h f div 16" "66 \<le> fb_w f div 9"
  shows "\<exists>st' c n. isrHandler (Some (f # fs)) junk st regs = Inr (Halts st') \<and>
    con_context (int_console st') = Some c \<and>
    n = length (add_line (fb_h f div 16) (fst lg) (snd lg @ [0x65, 0x3a, 0x20, 0x31, 0x34])) \<and>
    (\<forall>x < fb_w f div 9. \<forall>y < fb_h f div 16.
       if y = 10 \<and> 5 \<le> x \<and> x < 66 then displays c (dark (panic_text ! (x - 5))) x y
       else if y = 11 \<and> 5 \<le> x \<and> x < 15 then displays c (dark (map of_char ''PAGE FAULT'' ! (x - 5))) x y
       else if (x, y) = (66, 10) \<or> (x, y) = (0, n) then \<exists>ch. char_bg ch = 0xffffffff \<and> displays c ch x y
       else displays c red x y)"
  by (rule page_fault_state [OF assms])

theorem page_fault_screen_witness:
  "\<exists>st' c. isrHandler (Some [small_frame\<lparr>fb_w := 603, fb_h := 192, pitch := 2412, address := replicate 115776 0\<rparr>]) 7
     (boot_interrupts boot_console) (zero_registers\<lparr>int_no := 14\<rparr>) = Inr (Halts st') \<and> con_context (int_console st') = Some c \<and>
     displays c (dark 0x57) 5 10 \<and> displays c (dark 0x50) 5 11 \<and> displays c red 0 0 \<and>
     (\<exists>ch. char_bg ch = 0xffffffff \<and> displays c ch 66 10)"
proof -
  let ?f = "small_frame\<lparr>fb_w := 603, fb_h := 192, pitch := 2412, address := replicate 115776 0\<rparr>"
  have "frame_usable ?f"
    by (simp add: frame_usable_def frame_ok_def small_frame_def pool_need_def BUMP_ALLOC_POOL_SIZE_def)
  then have log: "console_log ?f (int_console (boot_interrupts boot_console)) ([], [])"
    using boot_console_log by (simp add: boot_interrupts_def)
  have *: "\<not> rsodBusy (boot_interrupts boot_console)" "frame_true_colour ?f"
    by (simp_all add: boot_interrupts_def frame_true_colour_def small_frame_def)
  have regs14: "int_no (zero_registers\<lparr>int_no := 14\<rparr>) = 14" by simp
  have dims: "fb_w ?f div 9 = 67" "fb_h ?f div 16 = 12" "length (add_line 12 [] [0x65 :: u8, 0x3a, 0x20, 0x31, 0x34]) = 1"
    by (simp_all add: small_frame_def add_line_def)
  have "length (snd ([] :: u8 list list, [] :: u8 list)) + 13 < fb_w ?f div 9" "12 \<le> fb_h ?f div 16" "66 \<le> fb_w ?f div 9"
    by (simp_all add: small_frame_def)
  note screen = page_fault_screen [where regs = "zero_registers\<lparr>int_no := 14\<rparr>", OF log this(1) *(1) regs14 *(2) this(2,3), where fs = "[]" and junk = 7,
      unfolded dims(1,2) fst_conv snd_conv append_Nil dims(3)]
  from screen obtain st' c where st': "isrHandler (Some [?f]) 7 (boot_interrupts boot_console) (zero_registers\<lparr>int_no := 14\<rparr>) = Inr (Halts st')"
    "con_context (int_console st') = Some c"
    and cells: "\<And>x y. x < 67 \<Longrightarrow> y < 12 \<Longrightarrow>
       if y = 10 \<and> 5 \<le> x \<and> x < 66 then displays c (dark (panic_text ! (x - 5))) x y
       else if y = 11 \<and> 5 \<le> x \<and> x < 15 then displays c (dark (map of_char ''PAGE FAULT'' ! (x - 5))) x y
       else if (x, y) = (66, 10) \<or> (x, y) = (0, 1) then \<exists>ch. char_bg ch = 0xffffffff \<and> displays c ch x y
       else displays c red x y" by blast
  then show ?thesis using st' cells [of 5 10] cells [of 5 11] cells [of 0 0] cells [of 66 10]
    by (auto simp: panic_text_def)
qed

end
