(* ===== verification/Kernel_Run.thy ===== *)
theory Kernel_Run
  imports Kernel_Traps Rsod_Screen
begin

text \<open>
  The kernel after \<open>_start\<close> has loaded the interrupt table: code that runs on the machine is
  interrupted any number of times. A run is a sequence of steps, each an event that is delivered and
  returns or code that leaves the state of the kernel alone; what the console shows after a run and
  what the next event does depend on the vectors of the run only.
\<close>

section \<open>Runs\<close>

inductive runs :: "(event \<Rightarrow> machine \<Rightarrow> (fault + (machine, interrupts) outcome) option) \<Rightarrow> machine
    \<Rightarrow> event list \<Rightarrow> machine \<Rightarrow> bool"
  for step m where
  start: "runs step m [] m"
| code: "runs step m evs m1 \<Longrightarrow> m_kernel m2 = m_kernel m1 \<Longrightarrow> runs step m evs m2"
| event: "runs step m evs m1 \<Longrightarrow> event_vector ev < 256 \<Longrightarrow> accepts m1 ev \<Longrightarrow>
    step ev m1 = Some (Inr (Returns m2)) \<Longrightarrow> runs step m (evs @ [ev]) m2"

text \<open>The line of a vector, and the log after a sequence of vectors.\<close>

definition vector_line :: "nat \<Rightarrow> u8 list" where
  "vector_line n = [0x65, 0x3a, 0x20] @ dec_text n"

definition log_after :: "nat \<Rightarrow> nat list \<Rightarrow> u8 list list" where
  "log_after h ns = foldl (add_line h) boot_lines (map vector_line ns)"

section \<open>One event\<close>

text \<open>The state of the kernel between two events: a log of complete lines.\<close>

definition idle :: "limine_framebuffer \<Rightarrow> u8 list list \<Rightarrow> interrupts \<Rightarrow> bool" where
  "idle f ls st \<longleftrightarrow> irqs st = None \<and> \<not> rsodBusy st \<and> console_log f (int_console st) (ls, [])"

lemma idle_boot: "console_log f con (ls, []) \<Longrightarrow> idle f ls (boot_interrupts con)"
  by (simp add: idle_def boot_interrupts_def)

lemma interrupt_idle:
  assumes "idle f ls (m_kernel m)" "13 < fb_w f div 9" "n < 34"
  shows "n \<notin> {14, 32, 33} \<Longrightarrow> keeps_frame cc \<Longrightarrow>
      \<exists>m'. interrupt errs (Some (f # fs)) junk cc n e m = Inr (Returns m') \<and>
        idle f (add_line (fb_h f div 16) ls (vector_line n)) (m_kernel m')"
    and "n \<in> {32, 33} \<Longrightarrow> interrupt errs (Some (f # fs)) junk cc n e m = Inl NullDeref"
    and "n = 14 \<Longrightarrow> frame_true_colour f \<Longrightarrow> 12 \<le> fb_h f div 16 \<Longrightarrow> 66 \<le> fb_w f div 9 \<Longrightarrow>
      \<exists>st. interrupt errs (Some (f # fs)) junk cc n e m = Inr (Halts st)"
proof -
  have st: "console_log f (int_console (m_kernel m)) (ls, [])" "irqs (m_kernel m) = None" "\<not> rsodBusy (m_kernel m)"
    and w: "length (snd (ls, [] :: u8 list)) + 13 < fb_w f div 9"
    using assms(1,2) by (simp_all add: idle_def)
  obtain m1 p where m1: "interrupt errs (Some (f # fs)) junk cc n e m = run (Some (f # fs)) junk cc isrCommon m1"
    "m_rsp m1 = p + 120" "m_mem m1 (p + 120) = of_nat n" "m_kernel m1 = m_kernel m"
    using entry_any [OF assms(3), of errs "Some (f # fs)" junk cc e m] by blast
  have no: "int_no (pushed_registers m1) = of_nat n" using m1(2,3) by (simp add: pushed_registers_def Let_def)
  show "\<exists>m'. interrupt errs (Some (f # fs)) junk cc n e m = Inr (Returns m') \<and>
      idle f (add_line (fb_h f div 16) ls (vector_line n)) (m_kernel m')" if "n \<notin> {14, 32, 33}" "keeps_frame cc"
    using interrupt_state [OF st(1) w assms(3) that, where errs = errs and e = e and fs = fs and junk = junk] st(2,3)
    by (fastforce simp: idle_def vector_line_def)
  show "interrupt errs (Some (f # fs)) junk cc n e m = Inl NullDeref" if "n \<in> {32, 33}"
    using irq_null [OF st(1) w _ st(2), of "pushed_registers m1" fs junk] that run_common_stops(1) [OF m1(2)] m1(1,4)
    by (auto simp: no)
  show "\<exists>st. interrupt errs (Some (f # fs)) junk cc n e m = Inr (Halts st)"
    if "n = 14" "frame_true_colour f" "12 \<le> fb_h f div 16" "66 \<le> fb_w f div 9"
    using page_fault_state [OF st(1) w st(3) _ that(2-4), of "pushed_registers m1" fs junk] that(1)
      run_common_stops(2) [OF m1(2)] m1(1,4) by (auto simp: no)
qed

text \<open>An event of the booted kernel, by its vector.\<close>

lemma trap_vector_cases:
  "trap_vector ev = 14 \<longleftrightarrow> event_vector ev = 14" "trap_vector ev = 32 \<longleftrightarrow> event_vector ev = 32"
  "trap_vector ev = 33 \<longleftrightarrow> event_vector ev = 33"
  by (auto simp: trap_vector_def GENERAL_PROTECTION_FAULT_def)

lemma deliver_idle:
  assumes "booted p f' entries k" "linked p code" "event_vector ev < 256"
    and "idle f ls (m_kernel m)" "frame_true_colour f" "12 \<le> fb_h f div 16" "66 \<le> fb_w f div 9" "keeps_frame cc"
  shows "let out = deliver code errs k (Some (f # fs)) junk cc ev m
     in if event_vector ev = 14 then \<exists>st. out = Some (Inr (Halts st))
        else if event_vector ev = 32 \<or> event_vector ev = 33 then out = Some (Inl NullDeref)
        else \<exists>m'. out = Some (Inr (Returns m')) \<and>
          idle f (add_line (fb_h f div 16) ls (vector_line (trap_vector ev))) (m_kernel m')"
proof -
  have w: "13 < fb_w f div 9" using assms(7) by linarith
  note one = interrupt_idle [OF assms(4) w trap_vector_less, where cc = cc and fs = fs and junk = junk]
  show ?thesis
    unfolding deliver_booted [OF assms(1-3)] Let_def trap_vector_cases [of ev, symmetric]
    using one assms(5-8) by simp
qed

section \<open>Any number of events\<close>

lemma runs_idle:
  assumes "runs (deliver code errs k (Some (f # fs)) junk cc) m evs m'" "idle f boot_lines (m_kernel m)"
    and "booted p f' entries k" "linked p code" "keeps_frame cc"
    and "frame_true_colour f" "12 \<le> fb_h f div 16" "66 \<le> fb_w f div 9"
  shows "idle f (log_after (fb_h f div 16) (map trap_vector evs)) (m_kernel m')"
  using assms(1)
proof (induction rule: runs.induct)
  case start
  then show ?case using assms(2) by (simp add: log_after_def)
next
  case (code evs m1 m2)
  then show ?case by simp
next
  case (event evs m1 ev m2)
  from deliver_idle [OF assms(3,4) event.hyps(2) event.IH assms(6-8,5), of errs fs junk] event.hyps(4)
  show ?case by (simp add: Let_def log_after_def split: if_splits)
qed

text \<open>
  C2: the kernel after its boot, under any events. On a usable (see C1) 32-bit frame buffer for at
  least twelve rows of 66 characters, whatever code runs that leaves the memory of the kernel alone,
  and whichever exceptions, interrupts and \<open>int\<close> instructions of the 256 vectors occur: the
  console is the four lines of the boot followed by one line for each event, scrolled, with the vector
  of the stub that ran; and the next event has one of three outcomes: a page fault halts, the vectors
  32 and 33 dereference \<open>NULL\<close>, and every other one returns. The stubs are where the gates
  point, and the compiled \<open>isrHandler\<close> does not write to the frame it is handed.
\<close>

theorem booted_runs:
  assumes "boot p = Inr (Returns k)" "p_framebuffers p = Some (f # fs)" "p_memmap p = Some entries"
    and "frame_usable f" "frame_true_colour f" "12 \<le> fb_h f div 16" "66 \<le> fb_w f div 9"
    and "length (usable entries) \<le> MAX_FREE_REGIONS"
    and "m_kernel m = boot_interrupts (k_console k)" "linked p code" "keeps_frame cc"
    and "runs (deliver code errs k (p_framebuffers p) junk cc) m evs m'" "event_vector ev < 256"
  shows "console_log f (int_console (m_kernel m')) (log_after (fb_h f div 16) (map trap_vector evs), []) \<and>
    (let out = deliver code errs k (p_framebuffers p) junk cc ev m'
     in if event_vector ev = 14 then \<exists>st. out = Some (Inr (Halts st))
        else if event_vector ev = 32 \<or> event_vector ev = 33 then out = Some (Inl NullDeref)
        else \<exists>m''. out = Some (Inr (Returns m'')))"
proof -
  have "5 \<le> fb_h f div 16" "34 \<le> fb_w f div 9" using assms(6,7) by linarith+
  with boot_ok [OF assms(2-4) _ _ assms(8)] assms(1) have k: "booted p f entries k" by auto
  then have "idle f boot_lines (m_kernel m)" unfolding assms(9) by (intro idle_boot) (simp add: booted_def)
  from runs_idle [OF assms(12) [unfolded assms(2)] this k assms(10,11,5-7)]
  have m': "idle f (log_after (fb_h f div 16) (map trap_vector evs)) (m_kernel m')" .
  from deliver_idle [OF k assms(10,13) m' assms(5-7,11), of errs fs junk] m' show ?thesis
    unfolding assms(2) by (auto simp: Let_def idle_def)
qed

definition panic_frame :: limine_framebuffer where
  "panic_frame = \<lparr>address = replicate 115776 0, fb_w = 603, fb_h = 192, pitch = 2412, bpp = 32\<rparr>"

definition panic_platform :: platform where
  "panic_platform = sample_platform\<lparr>p_framebuffers := Some [panic_frame]\<rparr>"

lemma panic_boot:
  "\<exists>k es. boot panic_platform = Inr (Returns k) \<and> booted panic_platform panic_frame es k \<and>
    p_memmap panic_platform = Some es \<and> length (usable es) \<le> MAX_FREE_REGIONS"
  "p_framebuffers panic_platform = Some [panic_frame]" "linked panic_platform sample_code"
  "frame_usable panic_frame" "frame_true_colour panic_frame" "12 \<le> fb_h panic_frame div 16" "66 \<le> fb_w panic_frame div 9"
proof -
  show f: "frame_usable panic_frame" "frame_true_colour panic_frame" "12 \<le> fb_h panic_frame div 16"
    "66 \<le> fb_w panic_frame div 9"
    by (simp_all add: panic_frame_def frame_usable_def frame_ok_def pool_need_def BUMP_ALLOC_POOL_SIZE_def frame_true_colour_def)
  show p: "p_framebuffers panic_platform = Some [panic_frame]" "linked panic_platform sample_code"
    by (auto simp: panic_platform_def intro!: sample_linked)
  obtain es where es: "p_memmap panic_platform = Some es" "length (usable es) \<le> MAX_FREE_REGIONS"
    by (auto simp: panic_platform_def sample_platform_def usable_def LIMINE_MEMMAP_USABLE_def MAX_FREE_REGIONS_def)
  with boot_ok [OF p(1) es(1) f(1) _ _ es(2)] f(3,4) show
    "\<exists>k es. boot panic_platform = Inr (Returns k) \<and> booted panic_platform panic_frame es k \<and>
      p_memmap panic_platform = Some es \<and> length (usable es) \<le> MAX_FREE_REGIONS" by fastforce
qed

theorem booted_runs_witness:
  "\<exists>k m'. boot panic_platform = Inr (Returns k) \<and>
     runs (deliver sample_code (\<lambda>n. n \<in> errcode_stubs) k (Some [panic_frame]) 7 sample_callee)
       (sample_machine\<lparr>m_kernel := boot_interrupts (k_console k)\<rparr>) [Software 128] m' \<and>
     console_log panic_frame (int_console (m_kernel m')) (boot_lines @ [[0x65, 0x3a, 0x20, 0x31, 0x33]], []) \<and>
     deliver sample_code (\<lambda>n. n \<in> errcode_stubs) k (Some [panic_frame]) 7 sample_callee (External 32) m'
       = Some (Inl NullDeref)"
proof -
  from panic_boot(1) obtain k es where k: "boot panic_platform = Inr (Returns k)"
    "p_memmap panic_platform = Some es" "length (usable es) \<le> MAX_FREE_REGIONS" by blast
  let ?m = "sample_machine\<lparr>m_kernel := boot_interrupts (k_console k)\<rparr>"
  let ?step = "deliver sample_code (\<lambda>n. n \<in> errcode_stubs) k (Some [panic_frame]) 7 sample_callee"
  have m: "m_kernel ?m = boot_interrupts (k_console k)" by simp
  note result = booted_runs [OF k(1) panic_boot(2) k(2) panic_boot(4-7) k(3) m panic_boot(3) sample_callee_keeps,
      unfolded panic_boot(2), where junk = 7 and errs = "\<lambda>n. n \<in> errcode_stubs"]
  from result [OF runs.start, of "Software 128"] obtain m' where m': "?step (Software 128) ?m = Some (Inr (Returns m'))"
    by (auto simp: Let_def)
  then have run: "runs ?step ?m [Software 128] m'" using runs.event [OF runs.start, of "Software 128"] by simp
  have h: "fb_h panic_frame div 16 = 12" by (simp add: panic_frame_def)
  have "dec_text 13 = [0x31, 0x33]" by (simp add: dec_text_def digits.simps dec_glyph_def)
  then have "log_after 12 [13] = boot_lines @ [[0x65, 0x3a, 0x20, 0x31, 0x33]]"
    by (simp add: log_after_def vector_line_def add_line_def boot_lines_printable(1))
  with result [OF run, of "External 32"] k(1) run show ?thesis
    by (auto simp: h Let_def trap_vector_def GENERAL_PROTECTION_FAULT_def)
qed

end
