(* ===== verification/Kernel_Halt.thy ===== *)
theory Kernel_Halt
  imports Kernel_Run
begin

text \<open>
  The end of \<open>_start\<close>: \<open>hcf\<close> of \<open>kernel.c\<close> clears the interrupt flag and executes \<open>hlt\<close>
  in a loop. The processor waits in \<open>hlt\<close> for an event from outside that it accepts; when the
  handler has returned, the loop executes \<open>hlt\<close> again. The loop is a function on the list of the
  events that arrive. Its instructions are not given addresses: the instruction pointer stands for a
  place in the loop.
\<close>

section \<open>The halt\<close>

text \<open>
  The value of the loop after the events is the machine that waits, unless a handler has not returned.
  An event that is not accepted stays pending.
\<close>

primrec hlt_loop :: "(event \<Rightarrow> machine \<Rightarrow> (fault + (machine, interrupts) outcome) option) \<Rightarrow> event list
    \<Rightarrow> machine \<Rightarrow> (fault + (machine, interrupts) outcome) option" where
  "hlt_loop step [] m = Some (Inr (Returns m))"
| "hlt_loop step (ev # evs) m =
     (if accepts m ev
      then case step ev m of Some (Inr (Returns m')) \<Rightarrow> hlt_loop step evs m' | r \<Rightarrow> r
      else hlt_loop step evs m)"

definition hcf :: "(event \<Rightarrow> machine \<Rightarrow> (fault + (machine, interrupts) outcome) option) \<Rightarrow> event list
    \<Rightarrow> machine \<Rightarrow> (fault + (machine, interrupts) outcome) option" where
  "hcf step evs m = hlt_loop step evs (m\<lparr>m_rflags := m_rflags m AND NOT INTERRUPT_FLAG\<rparr>)"

text \<open>The events that can arrive while no instruction is executed.\<close>

fun from_outside :: "event \<Rightarrow> bool" where
  "from_outside (External n) = True"
| "from_outside Nmi = True"
| "from_outside _ = False"

section \<open>The halt lasts\<close>

text \<open>The interrupted program, but for the memory below its stack and the state of the kernel.\<close>

definition same_program :: "machine \<Rightarrow> machine \<Rightarrow> bool" where
  "same_program m m' \<longleftrightarrow> m_gpr m' = m_gpr m \<and> m_rip m' = m_rip m \<and> m_cs m' = m_cs m \<and>
     m_rflags m' = m_rflags m \<and> m_rsp m' = m_rsp m \<and> m_ss m' = m_ss m"

lemma same_program_refl [simp]: "same_program m m"
  by (simp add: same_program_def)

lemma same_program_trans: "same_program m1 m2 \<Longrightarrow> same_program m2 m3 \<Longrightarrow> same_program m1 m3"
  by (simp add: same_program_def)

lemma deliver_nmi:
  assumes "booted p f' entries k" "linked p code" "idle f ls (m_kernel m)" "13 < fb_w f div 9" "keeps_frame cc"
  shows "\<exists>m'. deliver code errs k (Some (f # fs)) junk cc Nmi m = Some (Inr (Returns m')) \<and>
    same_program m m' \<and> idle f (add_line (fb_h f div 16) ls (vector_line 2)) (m_kernel m')"
proof -
  have v: "trap_vector Nmi = 2" "after_event errs Nmi m = m" and n: "event_vector Nmi < 256" "trap_vector Nmi \<notin> {14, 32, 33}"
    by (simp_all add: trap_vector_def after_event_def trap_error_def resumed_def errcode_stubs_def)
  have log: "console_log f (int_console (m_kernel m)) (ls, [])" "length (snd (ls, [] :: u8 list)) + 13 < fb_w f div 9"
    using assms(3,4) by (simp_all add: idle_def)
  from deliver_state [OF assms(1,2) n(1) log n(2) assms(5), where errs = errs and gs = fs and junk = junk] assms(3)
  show ?thesis by (fastforce simp: v same_program_def idle_def vector_line_def)
qed

lemma hlt_loop_waits:
  assumes "booted p f' entries k" "linked p code" "13 < fb_w f div 9" "keeps_frame cc"
    and "idle f ls (m_kernel m)" "m_rflags m AND INTERRUPT_FLAG = 0" "\<forall>ev \<in> set evs. from_outside ev"
  shows "\<exists>m'. hlt_loop (deliver code errs k (Some (f # fs)) junk cc) evs m = Some (Inr (Returns m')) \<and>
    same_program m m' \<and>
    idle f (foldl (add_line (fb_h f div 16)) ls (replicate (count_list evs Nmi) (vector_line 2))) (m_kernel m')"
  using assms(5-7)
proof (induction evs arbitrary: m ls)
  case (Cons ev evs)
  show ?case
  proof (cases ev)
    case (External n)
    then show ?thesis using Cons by simp
  next
    case Nmi
    from deliver_nmi [OF assms(1,2) Cons.prems(1) assms(3,4), of errs fs junk] obtain m1 where
      m1: "deliver code errs k (Some (f # fs)) junk cc event.Nmi m = Some (Inr (Returns m1))" "same_program m m1"
      "idle f (add_line (fb_h f div 16) ls (vector_line 2)) (m_kernel m1)" by blast
    have "m_rflags m1 AND INTERRUPT_FLAG = 0" using m1(2) Cons.prems(2) by (simp add: same_program_def)
    from Cons.IH [OF m1(3) this] Cons.prems(3) m1(1,2) show ?thesis
      by (auto simp: Nmi intro: same_program_trans)
  qed (use Cons.prems(3) in auto)
qed simp

text \<open>
  C3: \<open>hcf\<close> holds the machine. After a boot on a usable (see C1) frame buffer of at least five rows
  of 34 characters, whatever interrupts arrive from outside and in whichever order, the processor is
  still in the loop, with its registers, its stack and the cleared interrupt flag as they were: no
  vector from the interrupt controller is delivered, not even the device vectors 32 and 33, whose
  handlers are missing, and every non-maskable interrupt returns to the loop after one more line, the
  line of vector 2, on the console. The stubs are where the gates point, and the compiled
  \<open>isrHandler\<close> does not write to the frame it is handed.
\<close>

theorem hcf_forever:
  assumes "boot p = Inr (Returns k)" "p_framebuffers p = Some (f # fs)" "p_memmap p = Some entries"
    and "frame_usable f" "5 \<le> fb_h f div 16" "34 \<le> fb_w f div 9" "length (usable entries) \<le> MAX_FREE_REGIONS"
    and "m_kernel m = boot_interrupts (k_console k)" "linked p code" "keeps_frame cc"
    and "\<forall>ev \<in> set evs. from_outside ev"
  shows "\<exists>m'. hcf (deliver code errs k (p_framebuffers p) junk cc) evs m = Some (Inr (Returns m')) \<and>
    m_gpr m' = m_gpr m \<and> m_rip m' = m_rip m \<and> m_rsp m' = m_rsp m \<and>
    m_rflags m' = m_rflags m AND NOT INTERRUPT_FLAG \<and>
    console_log f (int_console (m_kernel m')) (log_after (fb_h f div 16) (replicate (count_list evs Nmi) 2), [])"
proof -
  let ?m = "m\<lparr>m_rflags := m_rflags m AND NOT INTERRUPT_FLAG\<rparr>"
  have k: "booted p f entries k" using boot_ok [OF assms(2-7)] assms(1) by auto
  then have idle: "idle f boot_lines (m_kernel ?m)" using assms(8) by (simp add: idle_boot booted_def)
  have flag: "m_rflags ?m AND INTERRUPT_FLAG = 0" by (simp add: and.assoc)
  have "13 < fb_w f div 9" using assms(6) by linarith
  from hlt_loop_waits [OF k assms(9) this assms(10) idle flag assms(11), of errs fs junk] show ?thesis
    unfolding hcf_def assms(2) by (auto simp: same_program_def idle_def log_after_def)
qed

theorem hcf_forever_witness:
  "\<exists>k m'. boot panic_platform = Inr (Returns k) \<and>
     hcf (deliver sample_code (\<lambda>n. n \<in> errcode_stubs) k (Some [panic_frame]) 7 sample_callee)
       [External 32, Nmi, External 8] (sample_machine\<lparr>m_kernel := boot_interrupts (k_console k)\<rparr>) = Some (Inr (Returns m')) \<and>
     m_rip m' = 0x1000 \<and> m_rflags m' = 2 \<and>
     console_log panic_frame (int_console (m_kernel m')) (boot_lines @ [[0x65, 0x3a, 0x20, 0x32]], [])"
proof -
  from panic_boot(1) obtain k es where k: "boot panic_platform = Inr (Returns k)"
    "p_memmap panic_platform = Some es" "length (usable es) \<le> MAX_FREE_REGIONS" by blast
  let ?m = "sample_machine\<lparr>m_kernel := boot_interrupts (k_console k)\<rparr>"
  have h: "fb_h panic_frame div 16 = 12" "5 \<le> fb_h panic_frame div 16" "34 \<le> fb_w panic_frame div 9"
    by (simp_all add: panic_frame_def)
  have m: "m_kernel ?m = boot_interrupts (k_console k)" "\<forall>ev \<in> set [External 32, Nmi, External 8]. from_outside ev"
    by simp_all
  have "dec_text 2 = [0x32]" by (simp add: dec_text_def digits.simps dec_glyph_def)
  then have "log_after 12 [2] = boot_lines @ [[0x65, 0x3a, 0x20, 0x32]]"
    by (simp add: log_after_def vector_line_def add_line_def boot_lines_printable(1))
  with hcf_forever [OF k(1) panic_boot(2) k(2) panic_boot(4) h(2,3) k(3) m(1) panic_boot(3) sample_callee_keeps m(2),
      unfolded panic_boot(2), where junk = 7 and errs = "\<lambda>n. n \<in> errcode_stubs"] k(1)
  show ?thesis by (auto simp: h(1) sample_machine_def INTERRUPT_FLAG_def)
qed

end
