(* ===== verification/Boot_Protocol.thy ===== *)
theory Boot_Protocol
  imports Kernel
begin

text \<open>
  What the kernel exchanges with the Limine boot loader (\<open>kernel/limine.h\<close>): two static requests,
  which the loader finds in the image of the kernel by their identifiers, and the responses it links
  to them before \<open>_start\<close>. Here the responses become the \<open>platform\<close> that the boot starts
  from. Of the responses the kernel reads \<open>framebuffers\<close>, \<open>entries\<close> and \<open>entry_count\<close>.
\<close>

section \<open>Requests and responses\<close>

definition LIMINE_COMMON_MAGIC :: "u64 list" where
  "LIMINE_COMMON_MAGIC = [0xc7b1dd30df4c8b88, 0x0a82e883a194f07b]"

definition LIMINE_FRAMEBUFFER_REQUEST :: "u64 list" where
  "LIMINE_FRAMEBUFFER_REQUEST = LIMINE_COMMON_MAGIC @ [0x9d5827dcd881dd75, 0xa3148604f6fab11b]"

definition LIMINE_MEMMAP_REQUEST :: "u64 list" where
  "LIMINE_MEMMAP_REQUEST = LIMINE_COMMON_MAGIC @ [0x67cf3d9d378a806f, 0xe304acdfc50c3c62]"

record limine_framebuffer_response =
  fb_revision :: u64
  framebuffer_count :: u64
  framebuffers :: "limine_framebuffer list"

record limine_memmap_response =
  mm_revision :: u64
  entry_count :: u64
  entries :: "memmap_entry list"

record limine_framebuffer_request =
  fb_request_id :: "u64 list"
  fb_request_revision :: u64
  fb_response :: "limine_framebuffer_response option"

record limine_memmap_request =
  mm_request_id :: "u64 list"
  mm_request_revision :: u64
  mm_response :: "limine_memmap_response option"

text \<open>The two statics, of \<open>sys/print.c\<close> and of \<open>kernel.c\<close>, as they are in the image.\<close>

definition framebuffer_request :: limine_framebuffer_request where
  "framebuffer_request = \<lparr>fb_request_id = LIMINE_FRAMEBUFFER_REQUEST, fb_request_revision = 0, fb_response = None\<rparr>"

definition memmap_request :: limine_memmap_request where
  "memmap_request = \<lparr>mm_request_id = LIMINE_MEMMAP_REQUEST, mm_request_revision = 0, mm_response = None\<rparr>"

text \<open>
  The loader links the response it has for an identifier of four words; what it has is a parameter,
  one for each type of response.
\<close>

definition answer_framebuffer :: "(u64 list \<Rightarrow> limine_framebuffer_response option)
    \<Rightarrow> limine_framebuffer_request \<Rightarrow> limine_framebuffer_request" where
  "answer_framebuffer responses req = req\<lparr>fb_response := responses (fb_request_id req)\<rparr>"

definition answer_memmap :: "(u64 list \<Rightarrow> limine_memmap_response option)
    \<Rightarrow> limine_memmap_request \<Rightarrow> limine_memmap_request" where
  "answer_memmap responses req = req\<lparr>mm_response := responses (mm_request_id req)\<rparr>"

section \<open>The loop over the memory map\<close>

text \<open>The loop of \<open>FreelistPMMInit\<close> as it is written, over the indices below \<open>num_entries\<close>.\<close>

definition FreelistPMMInit_counted :: "memmap_entry list \<Rightarrow> u64 \<Rightarrow> pmm \<Rightarrow> fault + pmm" where
  "FreelistPMMInit_counted memmap num_entries s =
     efold (\<lambda>i s. ebind (eget memmap i) (\<lambda>e. init_entry e s)) [0..<unat num_entries] s"

lemma efold_indices:
  "n \<le> length xs \<Longrightarrow> efold (\<lambda>i s. ebind (eget xs i) (\<lambda>x. f x s)) [0..<n] s = efold f (take n xs) s"
proof (induction n)
  case (Suc n)
  then show ?case by (simp add: efold_append take_Suc_conv_app_nth ebind_def split: sum.split)
qed simp

lemma efold_past_end:
  assumes "length xs < n"
  shows "efold (\<lambda>i s. ebind (eget xs i) (\<lambda>x. f x s)) [0..<n] s = ebind (efold f xs s) (\<lambda>_. Inl OutOfBounds)"
proof -
  have "[0..<n] = [0..<length xs] @ length xs # [Suc (length xs)..<n]"
    using assms upt_add_eq_append [of 0 "length xs" "n - length xs"] by (simp add: upt_conv_Cons)
  then show ?thesis using efold_indices [of "length xs" xs f s]
    by (cases "efold f xs s") (simp_all add: efold_append)
qed

text \<open>
  The loop over the memory map of the boot loader: with a count that is covered by the array, the
  loop of the source is \<open>FreelistPMMInit\<close> on the first \<open>entry_count\<close> entries; a larger count
  makes it read past the array, unless the table of regions is full before that and the kernel halts.
\<close>

lemma memmap_counted:
  "FreelistPMMInit_counted memmap n s =
     (if unat n \<le> length memmap then FreelistPMMInit (take (unat n) memmap) s
      else ebind (FreelistPMMInit memmap s) (\<lambda>_. Inl OutOfBounds))"
  by (simp add: FreelistPMMInit_counted_def FreelistPMMInit_def efold_indices efold_past_end)

section \<open>The platform\<close>

definition platform_of :: "limine_framebuffer_request \<Rightarrow> limine_memmap_request
    \<Rightarrow> (nat \<Rightarrow> u64) \<Rightarrow> u64 \<Rightarrow> u64 \<Rightarrow> platform" where
  "platform_of fr mr isr gdt_addr idt_addr = \<lparr>
     p_framebuffers = map_option framebuffers (fb_response fr),
     p_memmap = map_option (\<lambda>r. take (unat (entry_count r)) (entries r)) (mm_response mr),
     p_isr = isr, p_gdt = gdt_addr, p_idt = idt_addr\<rparr>"

text \<open>
  C29: the boot from the loader's answers. The loader answers the two requests by their identifiers,
  with a frame buffer that is usable in the sense of C1 and has at least five rows of 34 characters as
  the first of its list, and with a memory map that has the entries it counts, at most 256 of them
  usable. Then the kernel reaches \<open>hcf\<close>. It has printed on the first of the frame buffers, and its
  allocator is what the loop over \<open>entry_count\<close> entries makes of the map: the usable regions among
  them. The addresses of the stubs and of the two tables are arbitrary.
\<close>

theorem boot_from_loader:
  fixes isr gdt_addr idt_addr fbs mms
  defines "p \<equiv> platform_of (answer_framebuffer fbs framebuffer_request) (answer_memmap mms memmap_request) isr gdt_addr idt_addr"
  assumes "fbs LIMINE_FRAMEBUFFER_REQUEST = Some fr" "framebuffers fr = f # fs"
    and "mms LIMINE_MEMMAP_REQUEST = Some mr" "unat (entry_count mr) \<le> length (entries mr)"
    and "frame_usable f" "5 \<le> fb_h f div 16" "34 \<le> fb_w f div 9"
    and "length (usable (take (unat (entry_count mr)) (entries mr))) \<le> MAX_FREE_REGIONS"
  shows "\<exists>k. boot p = Inr (Returns k) \<and> console_log f (k_console k) (boot_lines, []) \<and>
    FreelistPMMInit_counted (entries mr) (entry_count mr) pmm_boot = Inr (k_pmm k) \<and>
    regions (k_pmm k) = map entry_region (usable (take (unat (entry_count mr)) (entries mr)))"
proof -
  let ?es = "take (unat (entry_count mr)) (entries mr)"
  have p: "p_framebuffers p = Some (f # fs)" "p_memmap p = Some ?es"
    using assms(2-4) by (simp_all add: p_def platform_of_def answer_framebuffer_def answer_memmap_def framebuffer_request_def memmap_request_def)
  from boot_ok [OF p assms(6-9)] obtain k where k: "boot p = Inr (Returns k)" "booted p f ?es k" by blast
  have "FreelistPMMInit ?es pmm_boot = Inr (k_pmm k)" by (rule boot_pmm [OF k(1) p(2)])
  with k assms(5) show ?thesis by (auto simp: booted_def memmap_counted)
qed

definition sample_framebuffers :: "u64 list \<Rightarrow> limine_framebuffer_response option" where
  "sample_framebuffers i = (if i = LIMINE_FRAMEBUFFER_REQUEST
     then Some \<lparr>fb_revision = 1, framebuffer_count = 1, framebuffers = [wide_boot_frame]\<rparr> else None)"

definition sample_memmap :: "u64 list \<Rightarrow> limine_memmap_response option" where
  "sample_memmap i = (if i = LIMINE_MEMMAP_REQUEST
     then Some \<lparr>mm_revision = 0, entry_count = 1, entries = [\<lparr>mm_base = 0x1000, mm_length = 0x2000, mm_type = 0\<rparr>]\<rparr>
     else None)"

theorem boot_from_loader_witness:
  "\<exists>k. boot (platform_of (answer_framebuffer sample_framebuffers framebuffer_request) (answer_memmap sample_memmap memmap_request)
       (\<lambda>n. of_nat n) 0x3000 0x4000) = Inr (Returns k) \<and>
     regions (k_pmm k) = [\<lparr>start_addr = 0x1000, num_pages = 2\<rparr>]"
proof -
  have f: "frame_usable wide_boot_frame" "5 \<le> fb_h wide_boot_frame div 16" "34 \<le> fb_w wide_boot_frame div 9"
    by (simp_all add: wide_boot_frame_def frame_usable_def frame_ok_def pool_need_def BUMP_ALLOC_POOL_SIZE_def)
  let ?mr = "\<lparr>mm_revision = 0, entry_count = 1, entries = [\<lparr>mm_base = 0x1000, mm_length = 0x2000, mm_type = 0\<rparr>]\<rparr>"
  have r: "sample_framebuffers LIMINE_FRAMEBUFFER_REQUEST
      = Some \<lparr>fb_revision = 1, framebuffer_count = 1, framebuffers = [wide_boot_frame]\<rparr>"
    "sample_memmap LIMINE_MEMMAP_REQUEST = Some ?mr" by (simp_all add: sample_framebuffers_def sample_memmap_def)
  have m: "unat (entry_count ?mr) \<le> length (entries ?mr)"
    "length (usable (take (unat (entry_count ?mr)) (entries ?mr))) \<le> MAX_FREE_REGIONS"
    "map entry_region (usable (take (unat (entry_count ?mr)) (entries ?mr))) = [\<lparr>start_addr = 0x1000, num_pages = 2\<rparr>]"
    by (simp_all add: usable_def entry_region_def LIMINE_MEMMAP_USABLE_def MAX_FREE_REGIONS_def PAGE_SIZE_def)
  have "framebuffers \<lparr>fb_revision = 1, framebuffer_count = 1, framebuffers = [wide_boot_frame]\<rparr> = [wide_boot_frame]" by simp
  from boot_from_loader [where fbs = sample_framebuffers and mms = sample_memmap, OF r(1) this r(2) m(1) f m(2)]
  show ?thesis unfolding m(3) by blast
qed

end
