(* ===== verification/VMM.thy ===== *)
theory VMM
  imports PMM Print Timer
begin

text \<open>
  The page tables of \<open>kernel/mm/vmm.c\<close>: \<open>VMMInit\<close>, \<open>VMMMapPage\<close> and
  \<open>VMMUnmapPage\<close>. Memory is a function from the address of an eight-byte cell to its value; a
  table is 512 cells from its address on, and the cells of the three upper levels hold the
  address of a table or \<open>NULL\<close>. The tables come from \<open>allocate\<close> of \<open>pmm.c\<close>.
\<close>

section \<open>Operations\<close>

record vmm =
  vm_mem :: "u64 \<Rightarrow> u64"
  vm_pml4 :: u64
  vm_pmm :: pmm

text \<open>The address of \<open>t->entries[i]\<close>.\<close>

definition slot :: "u64 \<Rightarrow> nat \<Rightarrow> u64" where "slot t i = t + 8 * of_nat i"

definition load :: "vmm \<Rightarrow> u64 \<Rightarrow> nat \<Rightarrow> fault + u64" where
  "load s t i = (if t = 0 then Inl NullDeref else Inr (vm_mem s (slot t i)))"

definition store :: "vmm \<Rightarrow> u64 \<Rightarrow> nat \<Rightarrow> u64 \<Rightarrow> fault + vmm" where
  "store s t i v = (if t = 0 then Inl NullDeref else Inr (s\<lparr>vm_mem := (vm_mem s)(slot t i := v)\<rparr>))"

text \<open>The chain \<open>pml4->entries[i]->entries[j]\<close> and so on, and an entry at its end.\<close>

primrec follow :: "vmm \<Rightarrow> u64 \<Rightarrow> nat list \<Rightarrow> fault + u64" where
  "follow s t [] = Inr t"
| "follow s t (i # is) = ebind (load s t i) (\<lambda>t. follow s t is)"

definition get_entry :: "vmm \<Rightarrow> nat list \<Rightarrow> nat \<Rightarrow> fault + u64" where
  "get_entry s p i = ebind (follow s (vm_pml4 s) p) (\<lambda>t. load s t i)"

definition put_entry :: "vmm \<Rightarrow> nat list \<Rightarrow> nat \<Rightarrow> u64 \<Rightarrow> fault + vmm" where
  "put_entry s p i v = ebind (follow s (vm_pml4 s) p) (\<lambda>t. store s t i v)"

definition new_table :: "vmm \<Rightarrow> nat list \<Rightarrow> nat \<Rightarrow> fault + vmm" where
  "new_table s p i =
     ebind (allocate (vm_pmm s) 1) (\<lambda>(a, pm).
     ebind (put_entry (s\<lparr>vm_pmm := pm\<rparr>) p i a) (\<lambda>s.
     efold (\<lambda>j s. put_entry s (p @ [i]) j 0) [0..<512] s))"

definition ensure_table :: "vmm \<Rightarrow> nat list \<Rightarrow> nat \<Rightarrow> fault + vmm" where
  "ensure_table s p i =
     ebind (get_entry s p i) (\<lambda>e. if e = 0 then new_table s p i else Inr s)"

definition pml4_index :: "u64 \<Rightarrow> nat" where "pml4_index v = unat (drop_bit 39 v AND 0x1FF)"

definition pdpt_index :: "u64 \<Rightarrow> nat" where "pdpt_index v = unat (drop_bit 30 v AND 0x1FF)"

definition pd_index :: "u64 \<Rightarrow> nat" where "pd_index v = unat (drop_bit 21 v AND 0x1FF)"

definition pt_index :: "u64 \<Rightarrow> nat" where "pt_index v = unat (drop_bit 12 v AND 0x1FF)"

definition VMMMapPage :: "vmm \<Rightarrow> u64 \<Rightarrow> u64 \<Rightarrow> fault + vmm" where
  "VMMMapPage s vaddr paddr =
     (let i4 = pml4_index vaddr; i3 = pdpt_index vaddr; i2 = pd_index vaddr; i1 = pt_index vaddr
      in ebind (ensure_table s [] i4) (\<lambda>s.
         ebind (ensure_table s [i4] i3) (\<lambda>s.
         ebind (ensure_table s [i4, i3] i2) (\<lambda>s.
           put_entry s [i4, i3, i2] i1 (paddr OR 0x03)))))"

definition VMMUnmapPage :: "vmm \<Rightarrow> u64 \<Rightarrow> fault + vmm" where
  "VMMUnmapPage s vaddr =
     (let i4 = pml4_index vaddr; i3 = pdpt_index vaddr; i2 = pd_index vaddr; i1 = pt_index vaddr
      in ebind (get_entry s [] i4) (\<lambda>e. if e = 0 then Inr s else
         ebind (get_entry s [i4] i3) (\<lambda>e. if e = 0 then Inr s else
         ebind (get_entry s [i4, i3] i2) (\<lambda>e. if e = 0 then Inr s else
           put_entry s [i4, i3, i2] i1 0))))"

text \<open>
  The loop \<open>for (addr = start; addr < end; addr += PAGE_SIZE)\<close> does not end when the address
  wraps, so it has fuel: \<open>None\<close> is a run that is cut off.
\<close>

fun map_range :: "nat \<Rightarrow> vmm \<Rightarrow> u64 \<Rightarrow> u64 \<Rightarrow> (fault + vmm) option" where
  "map_range 0 s addr end_addr = None"
| "map_range (Suc fuel) s addr end_addr =
     (if addr < end_addr then
        (case VMMMapPage s addr addr of
           Inl e \<Rightarrow> Some (Inl e)
         | Inr s \<Rightarrow> map_range fuel s (addr + 4096) end_addr)
      else Some (Inr s))"

text \<open>
  The value of an initialisation is the console and the tables; when \<open>allocate\<close> has no page for
  a table, the machine halts in \<open>halting\<close>, with the console as it is after the message.
\<close>

type_synonym init_result = "(fault + (console \<times> vmm, console) outcome) option"

definition map_entry :: "limine_framebuffer list option \<Rightarrow> nat \<Rightarrow> memmap_entry \<Rightarrow> console \<times> vmm \<Rightarrow> init_result" where
  "map_entry response fuel e cs =
     (if mm_type e = LIMINE_MEMMAP_USABLE then
        (case print response (fst cs) (c_string ''Found Usable Memmap.\<newline>'') of
           Inl f \<Rightarrow> Some (Inl f)
         | Inr con \<Rightarrow> map_option (\<lambda>r. halting response con r (\<lambda>s. Inr (Returns (con, s))))
             (map_range fuel (snd cs) (mm_base e) (mm_base e + mm_length e)))
      else Some (Inr (Returns cs)))"

primrec map_entries ::
    "limine_framebuffer list option \<Rightarrow> nat \<Rightarrow> memmap_entry list \<Rightarrow> console \<times> vmm \<Rightarrow> init_result" where
  "map_entries response fuel [] cs = Some (Inr (Returns cs))"
| "map_entries response fuel (e # es) cs =
     (case map_entry response fuel e cs of
        Some (Inr (Returns cs)) \<Rightarrow> map_entries response fuel es cs
      | r \<Rightarrow> r)"

definition VMMInit ::
    "limine_framebuffer list option \<Rightarrow> nat \<Rightarrow> memmap_entry list \<Rightarrow> console \<times> vmm \<Rightarrow> init_result" where
  "VMMInit response fuel memmap cs =
     (case halting response (fst cs)
             (ebind (allocate (vm_pmm (snd cs)) 1) (\<lambda>(a, pm).
                efold (\<lambda>i s. put_entry s [] i 0) [0..<512] ((snd cs)\<lparr>vm_pml4 := a, vm_pmm := pm\<rparr>)))
             (\<lambda>s. Inr (Returns (fst cs, s))) of
        Inr (Returns cs) \<Rightarrow> map_entries response fuel memmap cs
      | r \<Rightarrow> Some r)"

section \<open>The tree of tables\<close>

text \<open>
  The cell at the end of a path from a table; 0 where a table on the way is missing. For paths of
  up to three indices it is a table, for four indices the entry of a page.
\<close>

primrec node :: "(u64 \<Rightarrow> u64) \<Rightarrow> u64 \<Rightarrow> nat list \<Rightarrow> u64" where
  "node m t [] = t"
| "node m t (i # is) = (if t = 0 then 0 else node m (m (slot t i)) is)"

lemma node_0 [simp]: "node m 0 p = 0"
  by (cases p) simp_all

lemma node_append: "node m t (p @ q) = node m (node m t p) q"
  by (induction p arbitrary: t) simp_all

lemma node_snoc: "node m t (p @ [i]) = (if node m t p = 0 then 0 else m (slot (node m t p) i))"
  by (simp add: node_append)

definition aligned :: "u64 \<Rightarrow> bool" where "aligned a \<longleftrightarrow> unat a mod 4096 = 0"

definition valid_path :: "nat list \<Rightarrow> bool" where "valid_path p \<longleftrightarrow> length p \<le> 3 \<and> (\<forall>i \<in> set p. i < 512)"

text \<open>
  The tables are pages of their own: no two paths lead to the same table, and no table is a free
  page.
\<close>

definition tree_wf :: "(u64 \<Rightarrow> u64) \<Rightarrow> u64 \<Rightarrow> u64 set \<Rightarrow> bool" where
  "tree_wf m r F \<longleftrightarrow> r \<noteq> 0 \<and> (\<forall>a \<in> F. aligned a \<and> a \<noteq> 0) \<and>
     (\<forall>p. valid_path p \<longrightarrow> node m r p \<noteq> 0 \<longrightarrow> aligned (node m r p) \<and> node m r p \<notin> F) \<and>
     (\<forall>p q. valid_path p \<longrightarrow> valid_path q \<longrightarrow> node m r p \<noteq> 0 \<longrightarrow> node m r p = node m r q \<longrightarrow> p = q)"

lemma alignedE:
  assumes "aligned a"
  obtains c where "unat a = 4096 * c"
  using assms unfolding aligned_def mod_eq_0_iff_dvd by (rule dvdE)

lemma slot_inj:
  assumes "aligned t" "aligned u" "i < 512" "j < 512" "slot t i = slot u j"
  shows "t = u" "i = j"
proof -
  have nat: "unat (slot a k) = unat a + 8 * k" if "aligned a" "k < 512" for a k
  proof -
    from that(1) obtain c where c: "unat a = 4096 * c" by (rule alignedE)
    then have "c < 4503599627370496" using unat_lt_64 [of a] by linarith
    then have "unat a + 4096 \<le> 18446744073709551616" using c by linarith
    moreover have "unat (8 * of_nat k :: u64) = 8 * k"
      using that(2) by (simp add: unat_word_ariths unat_of_nat)
    ultimately show ?thesis using that(2) by (simp add: slot_def unat_word_ariths)
  qed
  have eq: "unat t + 8 * i = unat u + 8 * j"
    using nat [OF assms(1,3)] nat [OF assms(2,4)] assms(5) by simp
  obtain a where "unat t = 4096 * a" using assms(1) by (rule alignedE)
  moreover obtain b where "unat u = 4096 * b" using assms(2) by (rule alignedE)
  moreover from calculation have "a = b"
    using eq assms(3,4) by (cases a b rule: linorder_cases) linarith+
  ultimately have "unat t = unat u \<and> i = j" using eq by simp
  then show "t = u" "i = j" by (simp_all add: word_unat_eq_iff)
qed

text \<open>Cells that are read along no path do not matter.\<close>

lemma node_cong:
  assumes "\<And>q i r. p = q @ i # r \<Longrightarrow> node m t q \<noteq> 0 \<Longrightarrow> m' (slot (node m t q) i) = m (slot (node m t q) i)"
  shows "node m' t p = node m t p"
  using assms
proof (induction p rule: rev_induct)
  case (snoc i p)
  have "node m' t p = node m t p"
  proof (rule snoc.IH)
    fix q j r
    assume "p = q @ j # r" "node m t q \<noteq> 0"
    then show "m' (slot (node m t q) j) = m (slot (node m t q) j)"
      using snoc.prems [of q j "r @ [i]"] by simp
  qed
  moreover have "node m t p \<noteq> 0 \<Longrightarrow> m' (slot (node m t p) i) = m (slot (node m t p) i)"
    using snoc.prems [of p i "[]"] by simp
  ultimately show ?case by (simp add: node_snoc)
qed simp

lemma valid_path_append: "valid_path (p @ q) \<Longrightarrow> valid_path p"
  by (simp add: valid_path_def)

lemma tree_table: "tree_wf m r F \<Longrightarrow> valid_path p \<Longrightarrow> node m r p \<noteq> 0 \<Longrightarrow> aligned (node m r p) \<and> node m r p \<notin> F"
  and tree_free: "tree_wf m r F \<Longrightarrow> a \<in> F \<Longrightarrow> aligned a \<and> a \<noteq> 0"
  by (simp_all add: tree_wf_def)

lemma tree_slot:
  assumes "tree_wf m r F" "valid_path p" "valid_path q" "node m r p \<noteq> 0" "node m r q \<noteq> 0"
    and "i < 512" "j < 512" "slot (node m r p) i = slot (node m r q) j"
  shows "p = q \<and> i = j"
proof -
  have "aligned (node m r p)" "aligned (node m r q)" using assms(1-5) by (auto simp: tree_wf_def)
  from slot_inj [OF this assms(6-8)] have "node m r p = node m r q" "i = j" by simp_all
  then show ?thesis using assms(1-4) by (auto simp: tree_wf_def)
qed

text \<open>
  Writing an entry: the paths that go on behind it change, and no other does.
\<close>

lemma node_upd:
  assumes wf: "tree_wf m r F" and p: "valid_path p" "i < 512" "node m r p \<noteq> 0"
    and q: "length q \<le> 4" "\<forall>j \<in> set q. j < 512" "\<And>s. q \<noteq> p @ i # s"
  shows "node (m(slot (node m r p) i := v)) r q = node m r q"
proof (rule node_cong)
  fix q' j s
  assume q': "q = q' @ j # s" "node m r q' \<noteq> 0"
  then have "valid_path q'" "j < 512" using q by (auto simp: valid_path_def)
  moreover have "p \<noteq> q' \<or> i \<noteq> j" using q(3) q'(1) by auto
  ultimately have "slot (node m r p) i \<noteq> slot (node m r q') j"
    using tree_slot [OF wf p(1) _ p(3) q'(2) p(2)] by blast
  then show "(m(slot (node m r p) i := v)) (slot (node m r q') j) = m (slot (node m r q') j)" by simp
qed

text \<open>Writing the entry of a page keeps the tree.\<close>

lemma tree_upd_leaf:
  assumes wf: "tree_wf m r F" and p: "valid_path p" "length p = 3" "i < 512" "node m r p \<noteq> 0"
  shows "tree_wf (m(slot (node m r p) i := v)) r F"
    and "\<forall>j \<in> set q. j < 512 \<Longrightarrow> length q = 4 \<Longrightarrow>
      node (m(slot (node m r p) i := v)) r q = (if q = p @ [i] then v else node m r q)"
proof -
  let ?m = "m(slot (node m r p) i := v)"
  have same: "node ?m r q = node m r q" if "valid_path q" for q
    using that p(2) by (intro node_upd [OF wf p(1,3,4)]) (auto simp: valid_path_def)
  then show "tree_wf ?m r F" using wf unfolding tree_wf_def by auto
  show "node ?m r q = (if q = p @ [i] then v else node m r q)" if "\<forall>j \<in> set q. j < 512" "length q = 4"
  proof (cases "q = p @ [i]")
    case True
    then show ?thesis using same [OF p(1)] p(4) by (simp add: node_snoc)
  next
    case False
    have "q \<noteq> p @ i # s" for s using False that(2) p(2) by auto
    then show ?thesis using False that by (simp add: node_upd [OF wf p(1,3,4)])
  qed
qed

text \<open>A page that is no table does not matter for the tree.\<close>

lemma node_off_tree:
  assumes wf: "tree_wf m r F" and a: "a \<in> F" and same: "\<And>x. (\<And>j. j < 512 \<Longrightarrow> x \<noteq> slot a j) \<Longrightarrow> m' x = m x"
    and q: "length q \<le> 4" "\<forall>j \<in> set q. j < 512"
  shows "node m' r q = node m r q"
proof (rule node_cong)
  fix q' j s
  assume q': "q = q' @ j # s" "node m r q' \<noteq> 0"
  then have v: "valid_path q'" "j < 512" using q by (auto simp: valid_path_def)
  then have "aligned (node m r q')" "node m r q' \<noteq> a" "aligned a"
    using wf q'(2) a by (auto simp: tree_wf_def)
  then have "slot (node m r q') j \<noteq> slot a k" if "k < 512" for k
    using slot_inj(1) v(2) that by blast
  then show "m' (slot (node m r q') j) = m (slot (node m r q') j)" by (intro same) blast
qed

text \<open>A free page becomes a table: the entry that was empty leads to it, and it is empty itself.\<close>

definition link_node :: "(u64 \<Rightarrow> u64) \<Rightarrow> u64 \<Rightarrow> nat list \<Rightarrow> u64 \<Rightarrow> nat list \<Rightarrow> u64" where
  "link_node m r p a q = (if q = p then a else if take (length p) q = p then 0 else node m r q)"

lemma link_off:
  assumes wf: "tree_wf m r F" and a: "a \<in> F" and p: "valid_path (p @ [i])" "node m r p \<noteq> 0"
    and same: "\<And>x. x \<noteq> slot (node m r p) i \<Longrightarrow> (\<And>j. j < 512 \<Longrightarrow> x \<noteq> slot a j) \<Longrightarrow> m' x = m x"
    and q: "length q \<le> 4" "\<forall>j \<in> set q. j < 512" "\<And>s. q \<noteq> p @ i # s"
  shows "node m' r q = node m r q"
proof (rule node_cong)
  fix q' j s
  assume q': "q = q' @ j # s" "node m r q' \<noteq> 0"
  then have v: "valid_path q'" "j < 512" using q by (auto simp: valid_path_def)
  have pv: "valid_path p" "i < 512" using p(1) by (auto simp: valid_path_def)
  have "p \<noteq> q' \<or> i \<noteq> j" using q(3) q'(1) by auto
  then have "slot (node m r q') j \<noteq> slot (node m r p) i"
    using tree_slot [OF wf v(1) pv(1) q'(2) p(2) v(2) pv(2)] by blast
  moreover have "aligned (node m r q')" "node m r q' \<noteq> a" "aligned a"
    using wf q'(2) a v by (auto simp: tree_wf_def)
  then have "slot (node m r q') j \<noteq> slot a k" if "k < 512" for k
    using slot_inj(1) v(2) that by blast
  ultimately show "m' (slot (node m r q') j) = m (slot (node m r q') j)" by (rule same)
qed

lemma link_new:
  assumes wf: "tree_wf m r F" and a: "a \<in> F" and p: "valid_path (p @ [i])" "node m r p \<noteq> 0"
    and set: "m' (slot (node m r p) i) = a"
    and same: "\<And>x. x \<noteq> slot (node m r p) i \<Longrightarrow> (\<And>j. j < 512 \<Longrightarrow> x \<noteq> slot a j) \<Longrightarrow> m' x = m x"
  shows "node m' r (p @ [i]) = a"
  using link_off [OF wf a p same, of p] p set by (simp add: node_snoc valid_path_def)

lemma tree_link:
  assumes wf: "tree_wf m r F" and a: "a \<in> F" and p: "valid_path (p @ [i])" "node m r p \<noteq> 0"
    and set: "m' (slot (node m r p) i) = a" and zero: "\<And>j. j < 512 \<Longrightarrow> m' (slot a j) = 0"
    and same: "\<And>x. x \<noteq> slot (node m r p) i \<Longrightarrow> (\<And>j. j < 512 \<Longrightarrow> x \<noteq> slot a j) \<Longrightarrow> m' x = m x"
  shows "length q \<le> 4 \<Longrightarrow> \<forall>j \<in> set q. j < 512 \<Longrightarrow> node m' r q = link_node m r (p @ [i]) a q"
    and "tree_wf m' r (F - {a})"
proof -
  note off = link_off [OF wf a p same] and new = link_new [OF wf a p set same]
  have eq: "node m' r q = link_node m r (p @ [i]) a q" if q: "length q \<le> 4" "\<forall>j \<in> set q. j < 512" for q
  proof (cases "take (length (p @ [i])) q = p @ [i]")
    case True
    then have q_eq: "q = (p @ [i]) @ drop (length (p @ [i])) q" by (metis append_take_drop_id)
    show ?thesis
    proof (cases "drop (length (p @ [i])) q")
      case Nil
      then have "q = p @ [i]" using q_eq by simp
      then show ?thesis using new by (simp add: link_node_def)
    next
      case (Cons j s)
      then have "q = (p @ [i]) @ j # s" "j < 512" using q_eq q(2) by (metis in_set_dropD list.set_intros(1))+
      then have "node m' r q = node m' (node m' r (p @ [i])) (j # s)" by (simp only: node_append)
      then have "node m' r q = 0" using new zero \<open>j < 512\<close> by simp
      then show ?thesis using True \<open>q = (p @ [i]) @ j # s\<close> by (auto simp: link_node_def)
    qed
  next
    case False
    then have "q \<noteq> p @ i # s" for s by auto
    then show ?thesis using False off q by (auto simp: link_node_def)
  qed
  show "length q \<le> 4 \<Longrightarrow> \<forall>j \<in> set q. j < 512 \<Longrightarrow> node m' r q = link_node m r (p @ [i]) a q"
    by (rule eq)
  have v: "node m' r q = link_node m r (p @ [i]) a q" if "valid_path q" for q
    using that by (intro eq) (auto simp: valid_path_def)
  have tab: "aligned (node m r q)" "node m r q \<notin> F" if "valid_path q" "node m r q \<noteq> 0" for q
    using wf that by (simp_all add: tree_wf_def)
  have inj: "q = q'" if "valid_path q" "valid_path q'" "node m r q \<noteq> 0" "node m r q = node m r q'" for q q'
    using wf that by (simp add: tree_wf_def)
  have aF: "aligned a" using wf a by (simp add: tree_wf_def)
  have "aligned (link_node m r (p @ [i]) a q) \<and> link_node m r (p @ [i]) a q \<notin> F - {a}"
    if "valid_path q" "link_node m r (p @ [i]) a q \<noteq> 0" for q
    using that tab [of q] aF by (auto simp: link_node_def split: if_splits)
  moreover have "q = q'" if "valid_path q" "valid_path q'" "link_node m r (p @ [i]) a q \<noteq> 0"
      "link_node m r (p @ [i]) a q = link_node m r (p @ [i]) a q'" for q q'
    using that tab [of q] tab [of q'] inj [of q q'] a by (auto simp: link_node_def split: if_splits)
  ultimately show "tree_wf m' r (F - {a})"
    using wf unfolding tree_wf_def by (simp add: v)
qed

section \<open>The pages for the tables\<close>

text \<open>What the page tables rely on: an allocator that hands out each of its pages once.\<close>

locale page_source =
  fixes alloc :: "'s \<Rightarrow> fault + (u64 \<times> 's)" and avail :: "'s \<Rightarrow> u64 list" and inv :: "'s \<Rightarrow> bool"
  assumes alloc_some: "inv s \<Longrightarrow> avail s \<noteq> [] \<Longrightarrow> \<exists>a s'. alloc s = Inr (a, s')"
    and alloc_page: "inv s \<Longrightarrow> alloc s = Inr (a, s') \<Longrightarrow> mset (avail s) = add_mset a (mset (avail s')) \<and> inv s'"
begin

lemma alloc_takes:
  assumes "inv s" "distinct (avail s)" "k < length (avail s)"
  shows "\<exists>a s'. alloc s = Inr (a, s') \<and> a \<in> set (avail s) \<and> set (avail s') = set (avail s) - {a} \<and>
    inv s' \<and> distinct (avail s') \<and> k \<le> length (avail s')"
proof -
  obtain a s' where a: "alloc s = Inr (a, s')" using alloc_some [OF assms(1)] assms(3) by fastforce
  then have m: "mset (avail s) = mset (a # avail s')" "inv s'" using alloc_page [OF assms(1)] by simp_all
  then have "distinct (a # avail s')" "set (avail s) = set (a # avail s')" "length (avail s) = length (a # avail s')"
    using assms(2) mset_eq_imp_distinct_iff mset_eq_setD mset_eq_length by blast+
  then show ?thesis using a m(2) assms(3) by auto
qed

end

lemma page_range_1: "page_range a 1 = [a]"
  by (simp add: page_range_def)

interpretation pages: page_source "\<lambda>s. allocate s 1" free_pages pmm_wf
proof
  fix s
  assume s: "pmm_wf s" "free_pages s \<noteq> []"
  from s(1) show "\<exists>a s'. allocate s 1 = Inr (a, s')"
  proof (cases rule: allocate_cases [of s 1])
    case halt
    have "num_pages r = 0" if "r \<in> set (regions s)" for r
      using halt(2) that by (simp add: word_less_unat unat_eq_zero)
    then have "free_pages s = []" by (simp add: free_pages_def region_pages_def)
    then show ?thesis using s(2) by simp
  next
    case fit
    then show ?thesis by blast
  qed
next
  fix s a s'
  assume "pmm_wf s" "allocate s 1 = Inr (a, s')"
  from allocate_conserves_pages [OF this]
  show "mset (free_pages s) = add_mset a (mset (free_pages s')) \<and> pmm_wf s'" by (simp add: page_range_1)
qed

section \<open>The operations on the tree\<close>

abbreviation free_set :: "vmm \<Rightarrow> u64 set" where "free_set s \<equiv> set (free_pages (vm_pmm s))"

abbreviation entry :: "vmm \<Rightarrow> nat list \<Rightarrow> u64" where "entry s p \<equiv> node (vm_mem s) (vm_pml4 s) p"

definition vmm_wf :: "vmm \<Rightarrow> bool" where
  "vmm_wf s \<longleftrightarrow> pmm_wf (vm_pmm s) \<and> distinct (free_pages (vm_pmm s)) \<and>
     tree_wf (vm_mem s) (vm_pml4 s) (free_set s)"

lemma follow_node: "node (vm_mem s) t p \<noteq> 0 \<Longrightarrow> follow s t p = Inr (node (vm_mem s) t p)"
  by (induction p arbitrary: t) (auto simp: load_def split: if_splits)

lemma get_entry_node: "entry s p \<noteq> 0 \<Longrightarrow> get_entry s p i = Inr (entry s (p @ [i]))"
  by (simp add: get_entry_def follow_node load_def node_snoc)

lemma put_entry_node:
  "entry s p \<noteq> 0 \<Longrightarrow> put_entry s p i v = Inr (s\<lparr>vm_mem := (vm_mem s)(slot (entry s p) i := v)\<rparr>)"
  by (simp add: put_entry_def follow_node store_def)

lemma zero_loop:
  assumes wf: "tree_wf (vm_mem s) (vm_pml4 s) F" and a: "a \<in> F" and p: "valid_path (p @ [i])" "entry s p \<noteq> 0"
    and n: "n \<le> 512"
  defines "m1 \<equiv> (vm_mem s)(slot (entry s p) i := a)"
  shows "efold (\<lambda>j s. put_entry s (p @ [i]) j 0) [0..<n] (s\<lparr>vm_mem := m1\<rparr>)
    = Inr (s\<lparr>vm_mem := \<lambda>x. if \<exists>j < n. x = slot a j then 0 else m1 x\<rparr>)"
  using n
proof (induction n)
  case 0
  then show ?case by simp
next
  case (Suc n)
  let ?m = "\<lambda>x. if \<exists>j < n. x = slot a j then 0 else m1 x"
  have "aligned a" "a \<noteq> 0" using tree_free [OF wf a] by simp_all
  moreover have "aligned (entry s p)" "entry s p \<noteq> a"
    using tree_table [OF wf valid_path_append [OF p(1)] p(2)] a by blast+
  moreover have "i < 512" using p(1) by (simp add: valid_path_def)
  ultimately have "slot (entry s p) i \<noteq> slot a j" if "j < n" for j
    using slot_inj(1) [of "entry s p" a i j] Suc.prems that by auto
  then have "?m (slot (entry s p) i) = a" by (auto simp: m1_def)
  moreover have "?m x = vm_mem s x" if x: "x \<noteq> slot (entry s p) i" "\<And>j. j < 512 \<Longrightarrow> x \<noteq> slot a j" for x
  proof -
    have "x \<noteq> slot a j" if "j < n" for j by (rule x(2)) (use that Suc.prems in simp)
    then show ?thesis using x(1) by (auto simp: m1_def)
  qed
  ultimately have "node ?m (vm_pml4 s) (p @ [i]) = a" by (rule link_new [OF wf a p])
  then have e: "entry (s\<lparr>vm_mem := ?m\<rparr>) (p @ [i]) = a" by simp
  then have "put_entry (s\<lparr>vm_mem := ?m\<rparr>) (p @ [i]) n 0 = Inr (s\<lparr>vm_mem := ?m(slot a n := 0)\<rparr>)"
    using put_entry_node [of "s\<lparr>vm_mem := ?m\<rparr>" "p @ [i]" n 0] \<open>a \<noteq> 0\<close> by simp
  moreover have "?m(slot a n := 0) = (\<lambda>x. if \<exists>j < Suc n. x = slot a j then 0 else m1 x)"
    by (auto simp: fun_eq_iff less_Suc_eq)
  ultimately show ?case using Suc by (simp add: efold_append)
qed

lemma new_table_ok:
  assumes wf: "vmm_wf s" and p: "valid_path (p @ [i])" "entry s p \<noteq> 0"
    and free: "k < length (free_pages (vm_pmm s))"
  shows "\<exists>s' a. new_table s p i = Inr s' \<and> vmm_wf s' \<and> vm_pml4 s' = vm_pml4 s \<and>
    a \<in> free_set s \<and> free_set s' = free_set s - {a} \<and> k \<le> length (free_pages (vm_pmm s')) \<and>
    (\<forall>q. length q \<le> 4 \<longrightarrow> (\<forall>j \<in> set q. j < 512) \<longrightarrow>
       entry s' q = link_node (vm_mem s) (vm_pml4 s) (p @ [i]) a q)"
proof -
  have w: "pmm_wf (vm_pmm s)" "distinct (free_pages (vm_pmm s))" "tree_wf (vm_mem s) (vm_pml4 s) (free_set s)"
    using wf by (simp_all add: vmm_wf_def)
  from pages.alloc_takes [OF w(1,2) free] obtain a pm where a: "allocate (vm_pmm s) 1 = Inr (a, pm)"
    "a \<in> free_set s" "set (free_pages pm) = free_set s - {a}" "pmm_wf pm" "distinct (free_pages pm)"
    "k \<le> length (free_pages pm)" by blast
  let ?s = "s\<lparr>vm_pmm := pm\<rparr>" and ?t = "entry s p"
  let ?m1 = "(vm_mem s)(slot ?t i := a)"
  define M where "M = (\<lambda>x. if \<exists>j < 512. x = slot a j then 0 else ?m1 x)"
  have put: "put_entry ?s p i a = Inr (?s\<lparr>vm_mem := ?m1\<rparr>)"
    using put_entry_node [of ?s p i a] p(2) by simp
  have loop: "efold (\<lambda>j s. put_entry s (p @ [i]) j 0) [0..<512] (?s\<lparr>vm_mem := ?m1\<rparr>) = Inr (?s\<lparr>vm_mem := M\<rparr>)"
  proof -
    have sel: "vm_mem ?s = vm_mem s" "vm_pml4 ?s = vm_pml4 s" by simp_all
    from zero_loop [of ?s "free_set s" a p i 512] show ?thesis
      unfolding sel M_def using w(3) a(2) p by (simp only: order.refl simp_thms)
  qed
  have "aligned a" "aligned ?t" "?t \<noteq> a"
    using tree_free [OF w(3) a(2)] tree_table [OF w(3) valid_path_append [OF p(1)] p(2)] a(2) by blast+
  moreover have "i < 512" using p(1) by (simp add: valid_path_def)
  ultimately have "slot ?t i \<noteq> slot a j" if "j < 512" for j using slot_inj(1) that by blast
  then have set: "M (slot ?t i) = a" by (auto simp: M_def)
  have zero: "M (slot a j) = 0" if "j < 512" for j using that by (auto simp: M_def)
  have same: "M x = vm_mem s x" if "x \<noteq> slot ?t i" "\<And>j. j < 512 \<Longrightarrow> x \<noteq> slot a j" for x
    using that by (auto simp: M_def)
  have nodes: "\<forall>q. length q \<le> 4 \<longrightarrow> (\<forall>j \<in> set q. j < 512) \<longrightarrow>
      node M (vm_pml4 s) q = link_node (vm_mem s) (vm_pml4 s) (p @ [i]) a q"
    by (intro allI impI, rule tree_link(1) [OF w(3) a(2) p set zero same]) assumption+
  have wf': "tree_wf M (vm_pml4 s) (free_set s - {a})"
    by (rule tree_link(2) [OF w(3) a(2) p set zero same]) assumption+
  have "new_table s p i = Inr (?s\<lparr>vm_mem := M\<rparr>)" 
    unfolding new_table_def a(1) ebind_simps prod.case put loop ..
  moreover have sel: "vm_mem (?s\<lparr>vm_mem := M\<rparr>) = M" "vm_pml4 (?s\<lparr>vm_mem := M\<rparr>) = vm_pml4 s"
    "vm_pmm (?s\<lparr>vm_mem := M\<rparr>) = pm" by simp_all
  moreover have "vmm_wf (?s\<lparr>vm_mem := M\<rparr>)"
    unfolding vmm_wf_def sel a(3) using a(4,5) wf' by blast
  ultimately show ?thesis using a(2,3,6) nodes by (intro exI conjI) (assumption | simp only:)+
qed

text \<open>
  What a step on the way to a page keeps: the invariant, and every entry of a page.
\<close>

definition page_path :: "nat list \<Rightarrow> bool" where
  "page_path q \<longleftrightarrow> length q = 4 \<and> (\<forall>j \<in> set q. j < 512)"

definition keeps_pages :: "vmm \<Rightarrow> vmm \<Rightarrow> bool" where
  "keeps_pages s s' \<longleftrightarrow> vmm_wf s' \<and> vm_pml4 s' = vm_pml4 s \<and> free_set s' \<subseteq> free_set s \<and>
     (\<forall>q. page_path q \<longrightarrow> entry s' q = entry s q)"

lemma keeps_pages_trans: "keeps_pages s s' \<Longrightarrow> keeps_pages s' s'' \<Longrightarrow> keeps_pages s s''"
  by (auto simp: keeps_pages_def)

lemma root_nonzero: "vmm_wf s \<Longrightarrow> entry s [] \<noteq> 0"
  by (simp add: vmm_wf_def tree_wf_def)

lemma ensure_table_ok:
  assumes wf: "vmm_wf s" and p: "valid_path (p @ [i])" "entry s p \<noteq> 0"
    and free: "k < length (free_pages (vm_pmm s))"
  shows "\<exists>s'. ensure_table s p i = Inr s' \<and> keeps_pages s s' \<and> entry s' (p @ [i]) \<noteq> 0 \<and>
    k \<le> length (free_pages (vm_pmm s'))"
proof (cases "entry s (p @ [i]) = 0")
  case False
  then show ?thesis using wf p(2) free by (auto simp: ensure_table_def get_entry_node keeps_pages_def)
next
  case True
  from new_table_ok [OF assms] obtain s' a where s': "new_table s p i = Inr s'" "vmm_wf s'"
    "vm_pml4 s' = vm_pml4 s" "a \<in> free_set s" "free_set s' = free_set s - {a}"
    "k \<le> length (free_pages (vm_pmm s'))" and nodes: "\<forall>q. length q \<le> 4 \<longrightarrow> (\<forall>j \<in> set q. j < 512) \<longrightarrow>
       entry s' q = link_node (vm_mem s) (vm_pml4 s) (p @ [i]) a q" by blast
  have len: "length (p @ [i]) \<le> 3" using p(1) by (simp add: valid_path_def)
  have "entry s' q = entry s q" if q: "page_path q" for q
  proof -
    have "q \<noteq> p @ [i]" using q len by (auto simp: page_path_def)
    moreover have "entry s q = 0" if "take (length (p @ [i])) q = p @ [i]"
    proof -
      have "q = (p @ [i]) @ drop (length (p @ [i])) q" using that by (metis append_take_drop_id)
      then have "entry s q = node (vm_mem s) (entry s (p @ [i])) (drop (length (p @ [i])) q)"
        by (metis node_append)
      then show ?thesis using True by simp
    qed
    ultimately show ?thesis using nodes q by (simp add: page_path_def link_node_def)
  qed
  then have "keeps_pages s s'" using s' by (simp add: keeps_pages_def)
  moreover have "entry s' (p @ [i]) = a"
    using nodes [rule_format, of "p @ [i]"] p(1) by (auto simp: valid_path_def link_node_def)
  moreover have "a \<noteq> 0" using wf s'(4) tree_free by (auto simp: vmm_wf_def)
  ultimately show ?thesis using s'(1,6) True p(2) by (simp add: ensure_table_def get_entry_node)
qed

lemma put_page_ok:
  assumes wf: "vmm_wf s" and p: "valid_path p" "length p = 3" "i < 512" "entry s p \<noteq> 0"
  shows "\<exists>s'. put_entry s p i v = Inr s' \<and> vmm_wf s' \<and> vm_pmm s' = vm_pmm s \<and>
    (\<forall>q. page_path q \<longrightarrow> entry s' q = (if q = p @ [i] then v else entry s q))"
proof -
  have w: "tree_wf (vm_mem s) (vm_pml4 s) (free_set s)" using wf by (simp add: vmm_wf_def)
  show ?thesis
    using put_entry_node [OF p(4), of i v] tree_upd_leaf [OF w p, where v = v] wf
    by (auto simp: vmm_wf_def page_path_def)
qed

definition path :: "u64 \<Rightarrow> nat list" where
  "path v = [pml4_index v, pdpt_index v, pd_index v, pt_index v]"

lemma index_less:
  "pml4_index v < 512" "pdpt_index v < 512" "pd_index v < 512" "pt_index v < 512"
proof -
  have "unat (w AND 0x1FF) < 512" for w :: u64
  proof -
    have "(w AND 0x1FF) \<le> 0x1FF" by (rule word_and_le1)
    then show ?thesis by (simp add: word_le_unat)
  qed
  then show "pml4_index v < 512" "pdpt_index v < 512" "pd_index v < 512" "pt_index v < 512"
    by (simp_all add: pml4_index_def pdpt_index_def pd_index_def pt_index_def)
qed

lemma page_path: "page_path (path v)"
  using index_less [of v] by (simp add: page_path_def path_def)

lemma VMMMapPage_ok:
  assumes wf: "vmm_wf s" and free: "3 \<le> length (free_pages (vm_pmm s))"
  shows "\<exists>s'. VMMMapPage s v pa = Inr s' \<and> vmm_wf s' \<and> free_set s' \<subseteq> free_set s \<and>
    length (free_pages (vm_pmm s)) \<le> length (free_pages (vm_pmm s')) + 3 \<and>
    (\<forall>q. page_path q \<longrightarrow> entry s' q = (if q = path v then pa OR 3 else entry s q))"
proof -
  let ?i4 = "pml4_index v" and ?i3 = "pdpt_index v" and ?i2 = "pd_index v" and ?i1 = "pt_index v"
  note less = index_less [of v]
  define k where "k = length (free_pages (vm_pmm s)) - 3"
  then have k: "length (free_pages (vm_pmm s)) = Suc (Suc (Suc k))" using free by simp
  obtain s1 where s1: "ensure_table s [] ?i4 = Inr s1" "keeps_pages s s1" "entry s1 [?i4] \<noteq> 0"
    "Suc (Suc k) \<le> length (free_pages (vm_pmm s1))"
    using ensure_table_ok [OF wf, of "[]" ?i4 "Suc (Suc k)"] root_nonzero [OF wf] less(1) k
    by (auto simp: valid_path_def)
  have w1: "vmm_wf s1" using s1(2) by (simp add: keeps_pages_def)
  obtain s2 where s2: "ensure_table s1 [?i4] ?i3 = Inr s2" "keeps_pages s1 s2" "entry s2 [?i4, ?i3] \<noteq> 0"
    "Suc k \<le> length (free_pages (vm_pmm s2))"
    using ensure_table_ok [OF w1, of "[?i4]" ?i3 "Suc k"] s1(3,4) less by (auto simp: valid_path_def)
  have w2: "vmm_wf s2" using s2(2) by (simp add: keeps_pages_def)
  obtain s3 where s3: "ensure_table s2 [?i4, ?i3] ?i2 = Inr s3" "keeps_pages s2 s3"
    "entry s3 [?i4, ?i3, ?i2] \<noteq> 0" "k \<le> length (free_pages (vm_pmm s3))"
    using ensure_table_ok [OF w2, of "[?i4, ?i3]" ?i2 k] s2(3,4) less by (auto simp: valid_path_def)
  have w3: "vmm_wf s3" using s3(2) by (simp add: keeps_pages_def)
  obtain s' where s': "put_entry s3 [?i4, ?i3, ?i2] ?i1 (pa OR 3) = Inr s'" "vmm_wf s'" "vm_pmm s' = vm_pmm s3"
    "\<forall>q. page_path q \<longrightarrow> entry s' q = (if q = path v then pa OR 3 else entry s3 q)"
    using put_page_ok [OF w3, of "[?i4, ?i3, ?i2]" ?i1 "pa OR 3"] s3(3) less
    by (auto simp: valid_path_def path_def)
  have "keeps_pages s s3" using s1(2) s2(2) s3(2) keeps_pages_trans by blast
  then show ?thesis using s1(1) s2(1) s3(1,4) s' k by (auto simp: VMMMapPage_def Let_def keeps_pages_def)
qed

lemma VMMUnmapPage_ok:
  assumes wf: "vmm_wf s"
  shows "\<exists>s'. VMMUnmapPage s v = Inr s' \<and> vmm_wf s' \<and> vm_pmm s' = vm_pmm s \<and>
    (\<forall>q. page_path q \<longrightarrow> entry s' q = (if q = path v then 0 else entry s q))"
proof -
  let ?i4 = "pml4_index v" and ?i3 = "pdpt_index v" and ?i2 = "pd_index v" and ?i1 = "pt_index v"
  note less = index_less [of v]
  have path: "path v = [?i4] @ [?i3, ?i2, ?i1]" "path v = [?i4, ?i3] @ [?i2, ?i1]"
    "path v = [?i4, ?i3, ?i2] @ [?i1]" by (simp_all add: path_def)
  have none: "entry s (path v) = 0" if "path v = p @ q" "entry s p = 0" for p q
    unfolding that(1) node_append that(2) by simp
  note g4 = get_entry_node [OF root_nonzero [OF wf], of ?i4]
  consider "entry s [?i4] = 0" | "entry s [?i4] \<noteq> 0" "entry s [?i4, ?i3] = 0"
    | "entry s [?i4] \<noteq> 0" "entry s [?i4, ?i3] \<noteq> 0" "entry s [?i4, ?i3, ?i2] = 0"
    | "entry s [?i4] \<noteq> 0" "entry s [?i4, ?i3] \<noteq> 0" "entry s [?i4, ?i3, ?i2] \<noteq> 0" by blast
  then show ?thesis
  proof cases
    case 1
    then show ?thesis using wf g4 none [OF path(1)] by (auto simp: VMMUnmapPage_def Let_def)
  next
    case 2
    then show ?thesis using wf g4 get_entry_node [OF 2(1), of ?i3] none [OF path(2)]
      by (auto simp: VMMUnmapPage_def Let_def)
  next
    case 3
    then show ?thesis using wf g4 get_entry_node [OF 3(1), of ?i3] get_entry_node [OF 3(2), of ?i2]
        none [OF path(3)]
      by (auto simp: VMMUnmapPage_def Let_def)
  next
    case 4
    then show ?thesis using g4 get_entry_node [OF 4(1), of ?i3] get_entry_node [OF 4(2), of ?i2]
        put_page_ok [OF wf, of "[?i4, ?i3, ?i2]" ?i1 0] less
      by (auto simp: VMMUnmapPage_def Let_def valid_path_def path_def)
  qed
qed

section \<open>Translations\<close>

text \<open>What the tables say of a virtual address; 0 where nothing is mapped.\<close>

definition translate :: "vmm \<Rightarrow> u64 \<Rightarrow> u64" where
  "translate s v = entry s (path v)"

text \<open>The bits of an address above the offset in its page.\<close>

definition page_number :: "u64 \<Rightarrow> u64" where
  "page_number v = drop_bit 12 (take_bit 48 v)"

lemma word_eq_bits: "(x :: u64) = y \<longleftrightarrow> (\<forall>n < 64. bit x n = bit y n)"
  by (auto intro: bit_word_eqI)

lemma bounded_bits:
  "m \<le> 64 \<Longrightarrow> (\<forall>n < 64 :: nat. (n < m \<and> P n) = (n < m \<and> Q n)) \<longleftrightarrow> (\<forall>n < m. P n = Q n)"
  by (metis order_less_le_trans)

lemma shifted_bits: "(\<forall>n < m :: nat. P (k + n)) \<longleftrightarrow> (\<forall>n. k \<le> n \<and> n < k + m \<longrightarrow> P n)"
  by (metis add_less_cancel_left le_add1 le_Suc_ex)

lemma index_eq_iff:
  fixes v w :: u64
  assumes "k + 9 \<le> 64"
  shows "unat (drop_bit k v AND 0x1FF) = unat (drop_bit k w AND (0x1FF :: u64)) \<longleftrightarrow>
    (\<forall>n. k \<le> n \<and> n < k + 9 \<longrightarrow> bit v n = bit w n)"
proof -
  have m: "(0x1FF :: u64) = mask 9" by (simp add: mask_eq_exp_minus_1)
  have "unat (drop_bit k v AND mask 9) = unat (drop_bit k w AND (mask 9 :: u64)) \<longleftrightarrow>
      drop_bit k v AND mask 9 = drop_bit k w AND mask 9" by (rule word_unat_eq_iff [symmetric])
  also have "\<dots> \<longleftrightarrow> (\<forall>n < 9. bit v (k + n) = bit w (k + n))"
    unfolding word_eq_bits
    using bounded_bits [of 9 "\<lambda>n. bit v (k + n)" "\<lambda>n. bit w (k + n)"]
    by (simp add: bit_and_iff bit_mask_iff bit_drop_bit_eq conj_commute)
  also have "\<dots> \<longleftrightarrow> (\<forall>n. k \<le> n \<and> n < k + 9 \<longrightarrow> bit v n = bit w n)"
    by (rule shifted_bits)
  finally show ?thesis unfolding m .
qed

lemma path_eq_iff: "path v = path w \<longleftrightarrow> page_number v = page_number w"
proof -
  have "page_number v = page_number w \<longleftrightarrow> (\<forall>n. 12 \<le> n \<and> n < 48 \<longrightarrow> bit v n = bit w n)"
  proof -
    have "page_number v = page_number w \<longleftrightarrow> (\<forall>n. n < 36 \<longrightarrow> bit v (12 + n) = bit w (12 + n))"
      unfolding page_number_def word_eq_bits
      using bounded_bits [of 36 "\<lambda>n. bit v (12 + n)" "\<lambda>n. bit w (12 + n)"]
      by (simp add: bit_drop_bit_eq bit_take_bit_iff)
    also have "\<dots> \<longleftrightarrow> (\<forall>n. 12 \<le> n \<and> n < 48 \<longrightarrow> bit v n = bit w n)"
      using shifted_bits [of 36 "\<lambda>n. bit v n = bit w n" 12] by simp
    finally show ?thesis .
  qed
  moreover have "(\<forall>n. 12 \<le> n \<and> n < 48 \<longrightarrow> P n) \<longleftrightarrow> (\<forall>n. 39 \<le> n \<and> n < 39 + 9 \<longrightarrow> P n) \<and>
      (\<forall>n. 30 \<le> n \<and> n < 30 + 9 \<longrightarrow> P n) \<and> (\<forall>n. 21 \<le> n \<and> n < 21 + 9 \<longrightarrow> P n) \<and>
      (\<forall>n. 12 \<le> n \<and> n < 12 + 9 \<longrightarrow> P n)" for P :: "nat \<Rightarrow> bool"
  proof -
    have "12 \<le> n \<and> n < 48 \<longleftrightarrow> 39 \<le> n \<and> n < 39 + 9 \<or> 30 \<le> n \<and> n < 30 + 9 \<or> 21 \<le> n \<and> n < 21 + 9
        \<or> 12 \<le> n \<and> n < 12 + 9" for n :: nat by presburger
    then show ?thesis by blast
  qed
  ultimately show ?thesis
    by (simp add: path_def pml4_index_def pdpt_index_def pd_index_def pt_index_def index_eq_iff)
qed

text \<open>
  The walk of the processor: an entry without the present bit ends it, and the address of the next
  table is in bits 12 to 51.
\<close>

definition next_table :: "u64 \<Rightarrow> u64 option" where
  "next_table e = (if bit e 0 then Some (e AND 0x000FFFFFFFFFF000) else None)"

definition hw_entry :: "vmm \<Rightarrow> nat \<Rightarrow> u64 option \<Rightarrow> u64 option" where
  "hw_entry s i t = (case t of None \<Rightarrow> None | Some t \<Rightarrow> next_table (vm_mem s (slot t i)))"

definition hw_translate :: "vmm \<Rightarrow> u64 \<Rightarrow> u64 option" where
  "hw_translate s v = hw_entry s (pt_index v) (hw_entry s (pd_index v) (hw_entry s (pdpt_index v)
     (hw_entry s (pml4_index v) (Some (vm_pml4 s)))))"

lemma aligned_not_present: "aligned a \<Longrightarrow> \<not> bit a 0"
proof -
  assume "aligned a"
  then obtain c where "unat a = 4096 * c" by (rule alignedE)
  then have "even (unat a)" by simp
  then have "\<not> bit (unat a) 0" by (simp only: bit_0 not_not)
  then show ?thesis unfolding bit_unsigned_iff by (simp only: possible_bit_0 simp_thms)
qed

text \<open>A state with an empty top table at 0x1000 and four free pages.\<close>

definition sample_vmm :: vmm where
  "sample_vmm = \<lparr>vm_mem = (\<lambda>_. 0), vm_pml4 = 0x1000,
     vm_pmm = pmm_table [\<lparr>start_addr = 0x5000, num_pages = 4\<rparr>]\<rparr>"

lemma sample_vmm_pages: "free_pages (vm_pmm sample_vmm) = [0x5000, 0x6000, 0x7000, 0x8000]"
  by (simp add: sample_vmm_def free_pages_def pmm_table(2) MAX_FREE_REGIONS_def region_pages_def page_range_def
      PAGE_SIZE_def upt_conv_Cons)

lemma sample_vmm_wf: "vmm_wf sample_vmm"
proof -
  have "node (\<lambda>_. 0) r p = (if p = [] then r else 0)" for r p by (cases p) simp_all
  then have "tree_wf (\<lambda>_. 0) 0x1000 {0x5000, 0x6000, 0x7000, 0x8000}"
    by (auto simp: tree_wf_def aligned_def split: if_splits)
  then show ?thesis unfolding vmm_wf_def sample_vmm_pages
    by (simp add: sample_vmm_def pmm_table(1) MAX_FREE_REGIONS_def)
qed

text \<open>With the invariant of the tables, the entries of the top level have no present bit.\<close>

lemma hw_translate_none:
  assumes "vmm_wf s"
  shows "hw_translate s v = None"
proof -
  have w: "tree_wf (vm_mem s) (vm_pml4 s) (free_set s)" using assms by (simp add: vmm_wf_def)
  let ?e = "entry s [pml4_index v]"
  have e: "?e = vm_mem s (slot (vm_pml4 s) (pml4_index v))" using root_nonzero [OF assms] by simp
  have "\<not> bit ?e 0"
  proof (cases "?e = 0")
    case False
    then show ?thesis
      using tree_table [OF w, of "[pml4_index v]"] aligned_not_present index_less(1) [of v]
      by (simp add: valid_path_def)
  qed simp
  then show ?thesis using e by (simp add: hw_translate_def hw_entry_def next_table_def)
qed

section \<open>Properties\<close>

text \<open>
  C21: mapping a page. With three free pages for tables, \<open>VMMMapPage\<close> succeeds whatever tables
  exist; afterwards every address of the page translates to the frame with the present and write
  bits, every other address translates as before, and the tables are still pages of their own
  that the allocator does not hand out.
\<close>

theorem map_page:
  assumes "vmm_wf s" "3 \<le> length (free_pages (vm_pmm s))"
  shows "\<exists>s'. VMMMapPage s v pa = Inr s' \<and> vmm_wf s' \<and>
    (\<forall>w. translate s' w = (if page_number w = page_number v then pa OR 3 else translate s w))"
  using VMMMapPage_ok [OF assms] page_path path_eq_iff by (metis translate_def)

theorem map_page_witness:
  "\<exists>s'. VMMMapPage sample_vmm 0xffff800000001000 0x3000 = Inr s' \<and>
     translate s' 0xffff800000001234 = 0x3003 \<and> translate s' 0xffff800000002234 = 0"
proof -
  from map_page [OF sample_vmm_wf, of "0xffff800000001000" "0x3000"] obtain s' where
    s': "VMMMapPage sample_vmm 0xffff800000001000 0x3000 = Inr s'"
    "\<And>w. translate s' w = (if page_number w = page_number 0xffff800000001000 then 0x3003 else translate sample_vmm w)"
    by (auto simp: sample_vmm_pages)
  have "translate sample_vmm 0xffff800000002234 = 0" by (simp add: translate_def path_def sample_vmm_def)
  then show ?thesis using s' by (simp add: page_number_def)
qed

text \<open>
  C23: unmapping a page. \<open>VMMUnmapPage\<close> always returns; afterwards no address of the page is
  mapped, every other address translates as before, and no page is given back.
\<close>

theorem unmap_page:
  assumes "vmm_wf s"
  shows "\<exists>s'. VMMUnmapPage s v = Inr s' \<and> vmm_wf s' \<and> vm_pmm s' = vm_pmm s \<and>
    (\<forall>w. translate s' w = (if page_number w = page_number v then 0 else translate s w))"
  using VMMUnmapPage_ok [OF assms] page_path path_eq_iff by (metis translate_def)

theorem unmap_page_witness:
  "\<exists>s'. VMMUnmapPage sample_vmm 0x400000 = Inr s' \<and> translate s' 0x400fff = 0"
proof -
  have "page_number 0x400fff = page_number 0x400000" by (simp add: page_number_def)
  with unmap_page [OF sample_vmm_wf, of "0x400000"] show ?thesis by auto
qed

text \<open>
  C24: the processor does not see these tables. After \<open>VMMMapPage\<close>, with three free pages for tables,
  the walk of the code itself finds the frame it has just stored with its flags; but the entries of the
  upper levels are plain addresses of pages, without the present bit, so that the walk of the hardware
  ends at the first of them: it translates no address whatever, also not the one that was mapped.
\<close>

theorem tables_not_present:
  assumes "vmm_wf s" "3 \<le> length (free_pages (vm_pmm s))"
  shows "\<exists>s'. VMMMapPage s v pa = Inr s' \<and> translate s' v = pa OR 3 \<and> (\<forall>w. hw_translate s' w = None)"
  using VMMMapPage_ok [OF assms, of v pa] hw_translate_none page_path by (metis translate_def)

theorem tables_not_present_witness:
  "\<exists>s'. VMMMapPage sample_vmm 0x400000 0x3000 = Inr s' \<and> translate s' 0x400000 = 0x3003 \<and> hw_translate s' 0x400000 = None"
  using tables_not_present [OF sample_vmm_wf, of "0x400000" "0x3000"] by (auto simp: sample_vmm_pages)

end
