(* ===== verification/VMM_Init.thy ===== *)
theory VMM_Init
  imports VMM
begin

text \<open>
  What \<open>VMMInit\<close> of \<open>kernel/mm/vmm.c\<close> does. The operations on the page tables are refined to
  three numbers and functions of the state: the paths that have a table, the entries of the
  pages, and the number of free pages. In these terms the pages an operation takes from the
  allocator are known exactly, and with them the states in which it runs out of memory.
\<close>

section \<open>The tables of a state\<close>

definition table_paths :: "vmm \<Rightarrow> nat list set" where
  "table_paths s = {p. p \<noteq> [] \<and> valid_path p \<and> entry s p \<noteq> 0}"

definition page_entries :: "vmm \<Rightarrow> nat list \<Rightarrow> u64" where
  "page_entries s q = (if page_path q then entry s q else 0)"

abbreviation nfree :: "vmm \<Rightarrow> nat" where "nfree s \<equiv> length (free_pages (vm_pmm s))"

abbreviation no_memory :: fault where
  "no_memory \<equiv> Halted ''NULL returned from allocation. Halting...''"

lemma length_distinct_minus:
  assumes "distinct xs" "distinct ys" "set ys = set xs - {a}" "a \<in> set xs"
  shows "Suc (length ys) = length xs"
proof -
  have "card (set ys) = card (set xs) - 1" using assms(3,4) by simp
  moreover have "0 < card (set xs)" using assms(4) by (auto simp: card_gt_0_iff)
  ultimately show ?thesis using assms(1,2) by (simp add: distinct_card)
qed

lemma allocate_none:
  assumes "pmm_wf pm" "free_pages pm = []"
  shows "allocate pm 1 = Inl no_memory"
  using assms(1)
proof (cases rule: allocate_cases [of pm 1])
  case (fit i)
  have "region_pages (regions pm ! i) = []"
    using assms(2) fit(1) by (simp add: free_pages_def)
  then have "unat (num_pages (regions pm ! i)) = 0" by (simp add: region_pages_def page_range_def)
  then show ?thesis using fit(2) by (simp add: word_le_unat)
qed

section \<open>Growth\<close>

text \<open>
  A step that needs tables at the paths \<open>T\<close> and changes the entries of the pages by \<open>h\<close>: it
  halts exactly when the missing tables are more than the free pages.
\<close>

definition grows :: "vmm \<Rightarrow> nat list set \<Rightarrow> ((nat list \<Rightarrow> u64) \<Rightarrow> nat list \<Rightarrow> u64) \<Rightarrow> fault + vmm \<Rightarrow> bool" where
  "grows s T h r \<longleftrightarrow>
     (if card (T - table_paths s) \<le> nfree s
      then \<exists>s'. r = Inr s' \<and> vmm_wf s' \<and> table_paths s' = table_paths s \<union> T \<and>
        page_entries s' = h (page_entries s) \<and> nfree s' + card (T - table_paths s) = nfree s
      else r = Inl no_memory)"

lemma grows_bind:
  assumes r: "grows s T h r" and fin: "finite T" "finite U"
    and f: "\<And>s'. vmm_wf s' \<Longrightarrow> table_paths s' = table_paths s \<union> T \<Longrightarrow> grows s' U k (f s')"
  shows "grows s (T \<union> U) (\<lambda>m. k (h m)) (ebind r f)"
proof -
  let ?P = "table_paths s"
  have "(T \<union> U) - ?P = (T - ?P) \<union> (U - (?P \<union> T))" by blast
  then have card: "card ((T \<union> U) - ?P) = card (T - ?P) + card (U - (?P \<union> T))"
    using fin by (simp only:) (rule card_Un_disjoint; auto)
  show ?thesis
  proof (cases "card (T - ?P) \<le> nfree s")
    case False
    then show ?thesis using r card by (simp add: grows_def)
  next
    case True
    then obtain s' where s': "r = Inr s'" "vmm_wf s'" "table_paths s' = ?P \<union> T"
      "page_entries s' = h (page_entries s)" "nfree s' + card (T - ?P) = nfree s"
      using r by (auto simp: grows_def)
    note g = f [OF s'(2,3), unfolded grows_def s'(3,4)]
    show ?thesis
    proof (cases "card (U - (?P \<union> T)) \<le> nfree s'")
      case False
      then have "\<not> card ((T \<union> U) - ?P) \<le> nfree s" using s'(5) card by linarith
      then show ?thesis using g False s'(1) by (simp add: grows_def)
    next
      case True
      then obtain s'' where "f s' = Inr s''" "vmm_wf s''" "table_paths s'' = ?P \<union> T \<union> U"
        "page_entries s'' = k (h (page_entries s))" "nfree s'' + card (U - (?P \<union> T)) = nfree s'"
        using g by auto
      moreover from this(5) have "nfree s'' + card ((T \<union> U) - ?P) = nfree s" using s'(5) card by linarith
      ultimately show ?thesis using s'(1) by (auto simp: grows_def Un_assoc)
    qed
  qed
qed

lemma grows_stay: "vmm_wf s \<Longrightarrow> T \<subseteq> table_paths s \<Longrightarrow> grows s T (\<lambda>m. m) (Inr s)"
  by (auto simp: grows_def Diff_eq_empty_iff [THEN iffD2] Un_absorb2)

lemma ensure_table_grows:
  assumes wf: "vmm_wf s" and p: "valid_path (p @ [i])" "entry s p \<noteq> 0"
  shows "grows s {p @ [i]} (\<lambda>m. m) (ensure_table s p i)"
proof (cases "entry s (p @ [i]) = 0")
  case False
  then have "ensure_table s p i = Inr s" using p(2) by (simp add: ensure_table_def get_entry_node)
  then show ?thesis using grows_stay [OF wf, of "{p @ [i]}"] p(1) False by (simp add: table_paths_def)
next
  case True
  then have new: "ensure_table s p i = new_table s p i" "p @ [i] \<notin> table_paths s"
    using p(2) by (simp_all add: ensure_table_def get_entry_node table_paths_def)
  then have card: "{p @ [i]} - table_paths s = {p @ [i]}" by blast
  show ?thesis
  proof (cases "nfree s = 0")
    case none: True
    then have "new_table s p i = Inl no_memory"
      using wf allocate_none by (simp add: new_table_def vmm_wf_def)
    then show ?thesis using none card new(1) by (simp add: grows_def)
  next
    case False
    then obtain s' a where s': "new_table s p i = Inr s'" "vmm_wf s'" "a \<in> free_set s" "free_set s' = free_set s - {a}"
      and nodes: "\<forall>q. length q \<le> 4 \<longrightarrow> (\<forall>j \<in> set q. j < 512) \<longrightarrow>
         entry s' q = link_node (vm_mem s) (vm_pml4 s) (p @ [i]) a q"
      using new_table_ok [OF wf p, of 0] by blast
    have a: "a \<noteq> 0" using wf s'(3) tree_free by (auto simp: vmm_wf_def)
    have below: "entry s q = 0" if "take (length (p @ [i])) q = p @ [i]" for q
    proof -
      have "q = (p @ [i]) @ drop (length (p @ [i])) q" using that by (metis append_take_drop_id)
      then have "entry s q = node (vm_mem s) (entry s (p @ [i])) (drop (length (p @ [i])) q)"
        by (metis node_append)
      then show ?thesis using True by simp
    qed
    have eq: "entry s' q = (if q = p @ [i] then a else entry s q)" if "length q \<le> 4" "\<forall>j \<in> set q. j < 512" for q
      using nodes that below [of q] by (auto simp: link_node_def)
    have "table_paths s' = table_paths s \<union> {p @ [i]}"
      using a p(1) eq True by (auto simp: table_paths_def valid_path_def split: if_splits)
    moreover have "page_entries s' = page_entries s"
    proof
      fix q
      have "q \<noteq> p @ [i]" if "page_path q" using that p(1) by (auto simp: page_path_def valid_path_def)
      then show "page_entries s' q = page_entries s q"
        using eq [of q] by (simp add: page_entries_def page_path_def)
    qed
    moreover have "Suc (nfree s') = nfree s"
      using wf s' by (intro length_distinct_minus [of _ _ a]) (simp_all add: vmm_wf_def)
    ultimately show ?thesis using s'(1,2) card new(1) False by (simp add: grows_def)
  qed
qed

lemma put_page_grows:
  assumes wf: "vmm_wf s" and p: "valid_path p" "length p = 3" "i < 512" "entry s p \<noteq> 0"
  shows "grows s {} (\<lambda>m. m(p @ [i] := v)) (put_entry s p i v)"
proof -
  have w: "tree_wf (vm_mem s) (vm_pml4 s) (free_set s)" using wf by (simp add: vmm_wf_def)
  let ?s = "s\<lparr>vm_mem := (vm_mem s)(slot (entry s p) i := v)\<rparr>"
  have put: "put_entry s p i v = Inr ?s" by (rule put_entry_node [OF p(4)])
  have up: "entry ?s q = entry s q" if "valid_path q" for q
    using that node_upd [OF w p(1,3,4), of q v] p(2) by (force simp: valid_path_def)
  then have "table_paths ?s = table_paths s" by (auto simp: table_paths_def)
  moreover have "page_entries ?s = (page_entries s)(p @ [i] := v)"
    using tree_upd_leaf(2) [OF w p, where v = v] p by (auto simp: fun_eq_iff page_entries_def page_path_def valid_path_def)
  moreover have "vmm_wf ?s" using put_page_ok [OF wf p, of v] put by auto
  ultimately show ?thesis using put by (simp add: grows_def)
qed

section \<open>One page\<close>

definition steps :: "u64 \<Rightarrow> nat list set" where
  "steps v = {[pml4_index v], [pml4_index v, pdpt_index v], [pml4_index v, pdpt_index v, pd_index v]}"

lemma steps_take: "steps v = {take 1 (path v), take 2 (path v), take 3 (path v)}"
  by (simp add: steps_def path_def)

lemma finite_steps [simp]: "finite (steps v)"
  by (simp add: steps_def)

lemma VMMMapPage_grows:
  assumes wf: "vmm_wf s"
  shows "grows s (steps v) (\<lambda>m. m(path v := pa OR 3)) (VMMMapPage s v pa)"
proof -
  let ?i4 = "pml4_index v" and ?i3 = "pdpt_index v" and ?i2 = "pd_index v" and ?i1 = "pt_index v"
  note less = index_less [of v]
  have "grows s ({[?i4]} \<union> ({[?i4, ?i3]} \<union> ({[?i4, ?i3, ?i2]} \<union> {}))) (\<lambda>m. m([?i4, ?i3, ?i2] @ [?i1] := pa OR 3))
    (ebind (ensure_table s [] ?i4) (\<lambda>s. ebind (ensure_table s [?i4] ?i3) (\<lambda>s.
     ebind (ensure_table s [?i4, ?i3] ?i2) (\<lambda>s. put_entry s [?i4, ?i3, ?i2] ?i1 (pa OR 3)))))"
  proof (rule grows_bind [where h = "\<lambda>m. m"], goal_cases)
    case 1
    then show ?case using ensure_table_grows [OF wf, of "[]" ?i4] root_nonzero [OF wf] less by (simp add: valid_path_def)
  next
    case (4 s1)
    show ?case
    proof (rule grows_bind [where h = "\<lambda>m. m"], goal_cases)
      case 1
      have "[?i4] \<in> table_paths s1" using 4 by simp
      then show ?case using ensure_table_grows [OF 4(1), of "[?i4]" ?i3] less
        by (simp add: valid_path_def table_paths_def)
    next
      case (4 s2)
      show ?case
      proof (rule grows_bind [where h = "\<lambda>m. m"], goal_cases)
        case 1
        have "[?i4, ?i3] \<in> table_paths s2" using 4 by simp
        then show ?case using ensure_table_grows [OF 4(1), of "[?i4, ?i3]" ?i2] less
          by (simp add: valid_path_def table_paths_def)
      next
        case (4 s3)
        have "[?i4, ?i3, ?i2] \<in> table_paths s3" using 4 by simp
        then show ?case using less 4(1) by (intro put_page_grows) (simp_all add: valid_path_def table_paths_def)
      qed simp_all
    qed simp_all
  qed simp_all
  then show ?thesis by (simp add: VMMMapPage_def steps_def path_def Let_def insert_commute)
qed

section \<open>A range of pages\<close>

text \<open>The addresses the loop over a range visits, and the pages they stand for.\<close>

definition page_addrs :: "u64 \<Rightarrow> u64 \<Rightarrow> u64 list" where
  "page_addrs a b = map (\<lambda>k. a + of_nat k * 4096) [0..<(unat b - unat a + 4095) div 4096]"

abbreviation map_pages :: "u64 list \<Rightarrow> vmm \<Rightarrow> fault + vmm" where
  "map_pages \<equiv> efold (\<lambda>a s. VMMMapPage s a a)"

definition identity_entries :: "u64 list \<Rightarrow> (nat list \<Rightarrow> u64) \<Rightarrow> nat list \<Rightarrow> u64" where
  "identity_entries as = fold (\<lambda>a m. m(path a := a OR 3)) as"

lemma page_addrs_empty: "\<not> a < b \<Longrightarrow> page_addrs a b = []"
  by (simp add: page_addrs_def word_less_unat)

lemma page_addrs_Cons:
  assumes "a < b" "unat b + 4096 \<le> 2 ^ 64"
  shows "page_addrs a b = a # page_addrs (a + 4096) b"
proof -
  have less: "unat a < unat b" using assms(1) by (simp add: word_less_unat)
  then have a: "unat (a + 4096) = unat a + 4096" using assms(2) by (simp add: unat_word_ariths)
  have count: "(unat b - unat a + 4095) div 4096 = Suc ((unat b - (unat a + 4096) + 4095) div 4096)"
  proof (cases "unat b \<le> unat a + 4096")
    case True
    obtain d where "unat b = unat a + 1 + d" "d < 4096"
      by (rule that [of "unat b - unat a - 1"]) (use True less in linarith)+
    then show ?thesis by simp
  next
    case False
    then obtain d where "unat b = unat a + 4096 + d" using le_Suc_ex [of "unat a + 4096" "unat b"] by auto
    then show ?thesis by simp
  qed
  have upt: "[0..<Suc n] = 0 # map Suc [0..<n]" for n
    unfolding map_Suc_upt by (simp add: upt_conv_Cons del: upt_Suc)
  have "a + of_nat (Suc k) * 4096 = a + 4096 + of_nat k * 4096" for k
    by (simp add: algebra_simps)
  then show ?thesis
    unfolding page_addrs_def a count upt by (simp add: comp_def del: of_nat_Suc)
qed

lemma map_range_eq:
  assumes "unat b + 4096 \<le> 2 ^ 64" "length (page_addrs a b) < fuel"
  shows "map_range fuel s a b = Some (map_pages (page_addrs a b) s)"
  using assms(2)
proof (induction fuel arbitrary: s a)
  case (Suc fuel)
  show ?case
  proof (cases "a < b")
    case True
    from page_addrs_Cons [OF True assms(1)] show ?thesis
      using Suc True by (cases "VMMMapPage s a a") simp_all
  qed (simp add: page_addrs_empty)
qed simp

lemma map_pages_grows:
  "vmm_wf s \<Longrightarrow> grows s (\<Union> (steps ` set as)) (identity_entries as) (map_pages as s)"
proof (induction "as" arbitrary: s)
  case Nil
  then show ?case using grows_stay [of s "{}"] by (simp add: identity_entries_def id_def)
next
  case (Cons a "as")
  have "grows s (steps a \<union> \<Union> (steps ` set as)) (\<lambda>m. identity_entries as (m(path a := a OR 3)))
    (ebind (VMMMapPage s a a) (map_pages as))"
    by (rule grows_bind [where h = "\<lambda>m. m(path a := a OR 3)"])
      (use VMMMapPage_grows [OF Cons.prems, of a a] Cons.IH in auto)
  then show ?case by (simp add: identity_entries_def)
qed

text \<open>Addresses of whole pages below \<open>2 ^ 48\<close> have entries of their own.\<close>

definition low_page :: "u64 \<Rightarrow> bool" where
  "low_page a \<longleftrightarrow> aligned a \<and> unat a < 2 ^ 48"

definition page_base :: "u64 \<Rightarrow> u64" where
  "page_base v = push_bit 12 (page_number v)"

lemma page_base_low: "low_page a \<Longrightarrow> page_base a = a"
proof -
  assume a: "low_page a"
  then obtain c where c: "unat a = 4096 * c" "unat a < 2 ^ 48"
    unfolding low_page_def by (blast elim: alignedE)
  have low: "take_bit 48 a = a"
    using c(2) by (simp add: word_unat_eq_iff unsigned_take_bit_eq take_bit_nat_eq_self)
  have "unat (push_bit 12 (drop_bit 12 a)) = take_bit 64 (push_bit 12 (drop_bit 12 (unat a)))"
    using unat_lt_64 [of a]
    by (simp add: unsigned_push_bit_eq unsigned_drop_bit_eq take_bit_nat_eq_self del: push_bit_of_nat)
  then have "unat (push_bit 12 (drop_bit 12 a)) = unat a"
    using c by (simp add: drop_bit_eq_div push_bit_eq_mult take_bit_nat_eq_self)
  then have "push_bit 12 (drop_bit 12 a) = a" by (simp only: word_unat_eq_iff)
  then show ?thesis unfolding page_base_def page_number_def low .
qed

lemma unat_page_number: "unat (page_number v) = unat v mod 2 ^ 48 div 4096"
  unfolding page_number_def unsigned_drop_bit_eq unsigned_take_bit_eq
  by (simp add: drop_bit_eq_div take_bit_eq_mod)

lemma unat_page_base: "unat (page_base v) = unat v mod 2 ^ 48 div 4096 * 4096"
proof -
  have "unat v mod 2 ^ 48 div 4096 * 4096 < 2 ^ 64"
    using mod_less_divisor [of "2 ^ 48" "unat v"] by (simp add: order_le_less_trans [OF div_times_less_eq_dividend])
  then show ?thesis
    unfolding page_base_def unsigned_push_bit_eq unat_page_number
    by (simp add: push_bit_eq_mult take_bit_nat_eq_self)
qed

lemma low_page_base: "low_page (page_base v)"
proof -
  have "unat v mod 2 ^ 48 div 4096 * 4096 < 2 ^ 48"
    using mod_less_divisor [of "2 ^ 48" "unat v"] by (simp add: order_le_less_trans [OF div_times_less_eq_dividend])
  then show ?thesis by (simp add: low_page_def aligned_def unat_page_base)
qed

lemma path_page_base: "path (page_base v) = path v"
  using low_page_base [of v]
  by (simp add: path_eq_iff word_unat_eq_iff unat_page_number unat_page_base low_page_def)

lemma path_low: "low_page a \<Longrightarrow> path v = path a \<longleftrightarrow> page_base v = a"
  by (metis page_base_low path_page_base path_eq_iff page_base_def)

lemma identity_entries_simps [simp]:
  "identity_entries [] m = m"
  "identity_entries (a # as) m = identity_entries as (m(path a := a OR 3))"
  by (simp_all add: identity_entries_def)

lemma identity_entries_path:
  "\<forall>a \<in> set as. low_page a \<Longrightarrow> identity_entries as m (path v) =
    (if page_base v \<in> set as then page_base v OR 3 else m (path v))"
proof (induction "as" arbitrary: m)
  case (Cons a "as")
  let ?m = "m(path a := a OR 3)"
  have "identity_entries (a # as) m (path v) = (if page_base v \<in> set as then page_base v OR 3 else ?m (path v))"
    unfolding identity_entries_simps by (rule Cons.IH) (use Cons.prems in simp)
  then show ?case using path_low [of a v] Cons.prems by auto
qed simp

text \<open>Which addresses the loop visits.\<close>

lemma in_page_addrs:
  assumes "aligned a" "unat b \<le> 2 ^ 48"
  shows "p \<in> set (page_addrs a b) \<longleftrightarrow> low_page p \<and> unat a \<le> unat p \<and> unat p < unat b"
proof -
  obtain d where d: "unat a = 4096 * d" using assms(1) by (rule alignedE)
  have k: "unat (a + of_nat k * 4096) = 4096 * (d + k)" "4096 * (d + k) < unat b"
    if "k < (unat b - unat a + 4095) div 4096" for k
  proof -
    have "4096 * k < unat b - unat a" using that by linarith
    then have "4096 * k + unat a < unat b" by (simp only: less_diff_conv)
    then show less: "4096 * (d + k) < unat b" unfolding d by simp
    then have "unat (of_nat k * 4096 :: u64) = 4096 * k" using assms(2) by (simp add: unat_word_ariths unat_of_nat)
    then show "unat (a + of_nat k * 4096) = 4096 * (d + k)"
      using less assms(2) d by (simp add: unat_word_ariths)
  qed
  show ?thesis
  proof
    assume "p \<in> set (page_addrs a b)"
    then obtain j where "j < (unat b - unat a + 4095) div 4096" "p = a + of_nat j * 4096"
      by (auto simp only: page_addrs_def set_map image_iff set_upt atLeastLessThan_iff)
    then show "low_page p \<and> unat a \<le> unat p \<and> unat p < unat b"
      using k [of j] assms(2) d by (simp add: low_page_def aligned_def)
  next
    assume p: "low_page p \<and> unat a \<le> unat p \<and> unat p < unat b"
    then obtain c where c: "unat p = 4096 * c" unfolding low_page_def by (blast elim: alignedE)
    then have "c - d < (unat b - unat a + 4095) div 4096" "d + (c - d) = c" using p d by linarith+
    moreover from this have "p = a + of_nat (c - d) * 4096"
      using k(1) [of "c - d"] c by (simp add: word_unat_eq_iff)
    ultimately show "p \<in> set (page_addrs a b)"
      unfolding page_addrs_def set_map set_upt by (intro image_eqI [of _ _ "c - d"]) (assumption, simp)
  qed
qed

section \<open>The top table\<close>

lemma empty_root:
  assumes pm: "pmm_wf pm" "distinct (free_pages pm)" and a: "aligned a" "a \<noteq> 0" "a \<notin> set (free_pages pm)"
    and F: "\<forall>b \<in> set (free_pages pm). aligned b \<and> b \<noteq> 0" and zero: "\<And>j. j < 512 \<Longrightarrow> m (slot a j) = 0"
  defines "s \<equiv> \<lparr>vm_mem = m, vm_pml4 = a, vm_pmm = pm\<rparr>"
  shows "vmm_wf s" "table_paths s = {}" "page_entries s = (\<lambda>_. 0)"
proof -
  have node: "node m a p = (if p = [] then a else 0)" if "\<forall>i \<in> set p. i < 512" for p
    using that zero by (cases p) simp_all
  then show "vmm_wf s" using assms
    by (auto simp: vmm_wf_def tree_wf_def valid_path_def split: if_splits)
  have "p \<noteq> [] \<Longrightarrow> valid_path p \<Longrightarrow> node m a p = 0" "page_path p \<Longrightarrow> node m a p = 0" for p
    using node [of p] by (auto simp: valid_path_def page_path_def)
  then show "table_paths s = {}" "page_entries s = (\<lambda>_. 0)"
    by (auto simp: s_def table_paths_def page_entries_def fun_eq_iff)
qed

lemma clear_root:
  assumes "vm_pml4 s \<noteq> 0"
  shows "efold (\<lambda>i s. put_entry s [] i 0) is s
    = Inr (s\<lparr>vm_mem := \<lambda>x. if \<exists>j \<in> set is. x = slot (vm_pml4 s) j then 0 else vm_mem s x\<rparr>)"
  using assms
proof (induction "is" arbitrary: s)
  case (Cons i "is")
  let ?s = "s\<lparr>vm_mem := (vm_mem s)(slot (vm_pml4 s) i := 0)\<rparr>"
  have "put_entry s [] i 0 = Inr ?s" using Cons.prems by (simp add: put_entry_def store_def)
  then show ?case using Cons.IH [of ?s] Cons.prems
    by (auto simp: fun_eq_iff intro!: arg_cong [where f = "\<lambda>m. s\<lparr>vm_mem := m\<rparr>"])
qed simp

section \<open>The memory map\<close>

text \<open>
  What the boot loader promises of its memory map: the usable entries consist of whole pages, do
  not hold address 0, end below the 48 bits of an address that the tables can translate, and come
  in the order of their addresses without an overlap.
\<close>

abbreviation entry_end :: "memmap_entry \<Rightarrow> nat" where
  "entry_end e \<equiv> unat (mm_base e) + unat (mm_length e)"

definition entry_sane :: "memmap_entry \<Rightarrow> bool" where
  "entry_sane e \<longleftrightarrow> aligned (mm_base e) \<and> aligned (mm_length e) \<and> mm_base e \<noteq> 0 \<and> entry_end e \<le> 2 ^ 48"

definition memmap_sane :: "memmap_entry list \<Rightarrow> bool" where
  "memmap_sane memmap \<longleftrightarrow> (\<forall>e \<in> set (usable memmap). entry_sane e) \<and>
     sorted_wrt (\<lambda>d e. entry_end d \<le> unat (mm_base e)) (usable memmap)"

definition entry_addrs :: "memmap_entry \<Rightarrow> u64 list" where
  "entry_addrs e = page_addrs (mm_base e) (mm_base e + mm_length e)"

lemma entry_sane_end: "entry_sane e \<Longrightarrow> unat (mm_base e + mm_length e) = entry_end e"
  by (simp add: entry_sane_def unat_word_ariths)

lemma in_entry_addrs:
  "entry_sane e \<Longrightarrow> p \<in> set (entry_addrs e) \<longleftrightarrow> low_page p \<and> unat (mm_base e) \<le> unat p \<and> unat p < entry_end e"
  using in_page_addrs [of "mm_base e" "mm_base e + mm_length e" p] entry_sane_end [of e]
  by (simp add: entry_addrs_def entry_sane_def)

lemma length_entry_addrs:
  assumes "entry_sane e"
  shows "length (entry_addrs e) = unat (mm_length e) div 4096"
proof -
  obtain c where "unat (mm_length e) = 4096 * c" using assms unfolding entry_sane_def by (blast elim: alignedE)
  then show ?thesis using entry_sane_end [OF assms] by (simp add: entry_addrs_def page_addrs_def)
qed

text \<open>The pages the allocator starts with are the addresses the loops visit.\<close>

lemma entry_pages:
  assumes "entry_sane e"
  shows "region_pages (entry_region e) = entry_addrs e"
proof -
  have "unat (mm_length e div 4096) = (unat (mm_base e + mm_length e) - unat (mm_base e) + 4095) div 4096"
    using length_entry_addrs [OF assms] by (simp add: entry_addrs_def page_addrs_def unat_div)
  then show ?thesis
    by (simp add: region_pages_def entry_region_def page_range_def entry_addrs_def page_addrs_def PAGE_SIZE_def)
qed

lemma distinct_page_addrs:
  assumes "aligned a" "unat b \<le> 2 ^ 48"
  shows "distinct (page_addrs a b)"
  unfolding page_addrs_def distinct_map
proof (intro conjI inj_onI)
  fix i j
  assume ij: "i \<in> set [0..<(unat b - unat a + 4095) div 4096]" "j \<in> set [0..<(unat b - unat a + 4095) div 4096]"
    and eq: "a + of_nat i * 4096 = a + of_nat j * 4096"
  have k: "unat (of_nat k * 4096 :: u64) = 4096 * k" if "k \<in> set [0..<(unat b - unat a + 4095) div 4096]" for k
  proof -
    have "k < (unat b - unat a + 4095) div 4096" using that by (simp only: set_upt atLeastLessThan_iff)
    then have "4096 * k < 2 ^ 48" using assms(2) by linarith
    then show ?thesis by (simp add: unat_word_ariths unat_of_nat)
  qed
  have "of_nat i * 4096 = (of_nat j * 4096 :: u64)" using eq by (simp only: add_left_cancel)
  then have "4096 * i = 4096 * j" unfolding k [OF ij(1), symmetric] k [OF ij(2), symmetric] by (rule arg_cong)
  then show "i = j" by (simp only: mult_cancel1) simp
qed simp

lemma sane_pages:
  assumes "\<forall>e \<in> set es. entry_sane e" "sorted_wrt (\<lambda>d e. entry_end d \<le> unat (mm_base e)) es"
  shows "distinct (concat (map entry_addrs es))"
    and "p \<in> set (concat (map entry_addrs es)) \<Longrightarrow> low_page p \<and> p \<noteq> 0"
proof -
  show "distinct (concat (map entry_addrs es))"
    using assms
  proof (induction es)
    case (Cons e es)
    have "distinct (entry_addrs e)" unfolding entry_addrs_def
      using Cons.prems(1) entry_sane_end [of e] by (intro distinct_page_addrs) (simp_all add: entry_sane_def)
    moreover have "set (entry_addrs e) \<inter> set (entry_addrs d) = {}" if "d \<in> set es" for d
    proof (rule equals0I)
      fix p
      assume "p \<in> set (entry_addrs e) \<inter> set (entry_addrs d)"
      then have "unat p < entry_end e" "unat (mm_base d) \<le> unat p"
        using Cons.prems(1) that in_entry_addrs by auto
      moreover have "entry_end e \<le> unat (mm_base d)" using Cons.prems(2) that by simp
      ultimately show False by linarith
    qed
    ultimately show ?case using Cons by auto
  qed simp
  assume "p \<in> set (concat (map entry_addrs es))"
  then obtain e where e: "entry_sane e" "p \<in> set (entry_addrs e)" using assms(1) by auto
  then have "0 < unat (mm_base e)" by (simp add: entry_sane_def unat_gt_0)
  then have "p \<noteq> 0" using e in_entry_addrs [OF e(1), of p] by auto
  then show "low_page p \<and> p \<noteq> 0" using e in_entry_addrs by blast
qed

section \<open>The messages\<close>

definition found_line :: "u8 list" where
  "found_line = map of_char ''Found Usable Memmap.''"

lemma found_line:
  "c_string ''Found Usable Memmap.\<newline>'' = found_line @ [0x0a, 0]" "length found_line = 20"
  "\<forall>b \<in> set found_line. b \<noteq> 0x0a \<and> 0x20 \<le> b \<and> b \<le> 0x7e"
  by (simp_all add: c_string_def found_line_def)

definition memory_line :: "u8 list" where
  "memory_line = map of_char ''NULL returned from allocation. Halting...''"

lemma memory_line:
  "c_string (''NULL returned from allocation. Halting...'' @ ''\<newline>'') = memory_line @ [0x0a, 0]" "length memory_line = 41"
  "\<forall>b \<in> set memory_line. b \<noteq> 0x0a \<and> 0x20 \<le> b \<and> b \<le> 0x7e"
  by (simp only: memory_line_def c_line) (simp_all add: memory_line_def)

text \<open>The machine that has halted for want of a page, after at most \<open>n\<close> usable entries.\<close>

definition out_of_memory :: "limine_framebuffer \<Rightarrow> u8 list list \<Rightarrow> nat \<Rightarrow> init_result \<Rightarrow> bool" where
  "out_of_memory f ls n r \<longleftrightarrow> (\<exists>con. r = Some (Inr (Halts con)) \<and>
     (41 < fb_w f div 9 \<longrightarrow> (\<exists>k \<le> n.
        console_log f con (foldl (add_line (fb_h f div 16)) ls (replicate k found_line @ [memory_line]), []))))"

lemma halt_out_of_memory:
  assumes "console_log f con (ls, [])"
  shows "\<exists>con'. halting (Some (f # fs)) con (Inl no_memory) k = Inr (Halts con') \<and>
    (41 < fb_w f div 9 \<longrightarrow> console_log f con' (add_line (fb_h f div 16) ls memory_line, []))"
proof -
  have "\<forall>b \<in> set memory_line. 0x20 \<le> b \<and> b \<le> 0x7e" using memory_line(3) by blast
  from print_total [OF assms this, of fs] obtain con' where
    con': "print (Some (f # fs)) con (memory_line @ [0x0a, 0]) = Inr con'" by blast
  moreover have "console_log f con' (add_line (fb_h f div 16) ls memory_line, [])" if "41 < fb_w f div 9"
    using print_line [OF assms memory_line(3), of fs] that con' by (auto simp: memory_line(2))
  ultimately show ?thesis unfolding halting_simps memory_line(1) by simp
qed

lemma map_entries_eq:
  assumes "console_log f con (ls, [])" "20 < fb_w f div 9"
    and "\<forall>e \<in> set (usable es). entry_sane e \<and> unat (mm_length e) div 4096 < fuel"
  shows "case map_pages (concat (map entry_addrs (usable es))) s of
      Inr s' \<Rightarrow> \<exists>con'. map_entries (Some (f # fs)) fuel es (con, s) = Some (Inr (Returns (con', s'))) \<and>
        console_log f con' (foldl (add_line (fb_h f div 16)) ls (replicate (length (usable es)) found_line), [])
    | Inl e \<Rightarrow> e = no_memory \<longrightarrow>
        out_of_memory f ls (length (usable es)) (map_entries (Some (f # fs)) fuel es (con, s))"
  using assms(1,3)
proof (induction es arbitrary: con ls s)
  case Nil
  then show ?case by (auto simp: usable_def)
next
  case (Cons e es)
  show ?case
  proof (cases "mm_type e = LIMINE_MEMMAP_USABLE")
    case False
    then have us: "usable (e # es) = usable es" by (simp add: usable_def)
    have "map_entries (Some (f # fs)) fuel (e # es) (con, s) = map_entries (Some (f # fs)) fuel es (con, s)"
      using False by (simp add: map_entry_def)
    then show ?thesis using Cons.IH [OF Cons.prems(1), of s] Cons.prems(2) by (simp only: us)
  next
    case True
    then have e: "entry_sane e" "length (entry_addrs e) < fuel" "\<forall>e \<in> set (usable es). entry_sane e \<and> unat (mm_length e) div 4096 < fuel"
      using Cons.prems(2) length_entry_addrs [of e] by (simp_all add: usable_def)
    obtain con1 where con1: "print (Some (f # fs)) con (found_line @ [0x0a, 0]) = Inr con1"
      "console_log f con1 (add_line (fb_h f div 16) ls found_line, [])"
      using print_line [OF Cons.prems(1) found_line(3), of fs] assms(2) found_line(2) by auto
    have us: "usable (e # es) = e # usable es" using True by (simp add: usable_def)
    have entry: "map_entry (Some (f # fs)) fuel e (con, s)
        = Some (halting (Some (f # fs)) con1 (map_pages (entry_addrs e) s) (\<lambda>s. Inr (Returns (con1, s))))"
      using True con1(1) e(1,2) entry_sane_end [OF e(1)]
      by (simp add: map_entry_def found_line(1) map_range_eq entry_addrs_def entry_sane_def)
    have lines: "foldl (add_line (fb_h f div 16)) ls (replicate (Suc k) found_line @ l)
        = foldl (add_line (fb_h f div 16)) (add_line (fb_h f div 16) ls found_line) (replicate k found_line @ l)" for k l
      by simp
    show ?thesis
    proof (cases "map_pages (entry_addrs e) s")
      case (Inl err)
      obtain con' where con': "halting (Some (f # fs)) con1 (Inl no_memory) (\<lambda>s :: vmm. Inr (Returns (con1, s))) = Inr (Halts con')"
        "41 < fb_w f div 9 \<longrightarrow> console_log f con' (add_line (fb_h f div 16) (add_line (fb_h f div 16) ls found_line) memory_line, [])"
        using halt_out_of_memory [OF con1(2)] by blast
      have "err = no_memory \<Longrightarrow> map_entries (Some (f # fs)) fuel (e # es) (con, s) = Some (Inr (Halts con'))"
        using Inl con'(1) by (simp add: entry del: halting_simps)
      then have "err = no_memory \<longrightarrow> out_of_memory f ls (length (usable (e # es))) (map_entries (Some (f # fs)) fuel (e # es) (con, s))"
        using con'(2) by (auto simp: out_of_memory_def us intro!: exI [of _ 1])
      moreover have "map_pages (concat (map entry_addrs (usable (e # es)))) s = Inl err"
        using Inl by (simp add: us efold_append)
      ultimately show ?thesis by simp
    next
      case (Inr s1)
      then have step: "map_entries (Some (f # fs)) fuel (e # es) (con, s) = map_entries (Some (f # fs)) fuel es (con1, s1)"
        "map_pages (concat (map entry_addrs (usable (e # es)))) s = map_pages (concat (map entry_addrs (usable es))) s1"
        by (simp_all add: us efold_append entry)
      have more: "out_of_memory f (add_line (fb_h f div 16) ls found_line) n r \<Longrightarrow> out_of_memory f ls (Suc n) r" for n r
        unfolding out_of_memory_def using lines by (metis Suc_le_mono)
      show ?thesis
        unfolding step using Cons.IH [OF con1(2) e(3), of s1] lines [of "length (usable es)" "[]"] more
        by (simp add: us split: sum.splits)
    qed
  qed
qed

section \<open>Initialisation\<close>

text \<open>The tables that the pages of a list of addresses need, the top table included.\<close>

definition tables_needed :: "u64 list \<Rightarrow> nat" where
  "tables_needed as = Suc (card (\<Union> (steps ` set as)))"

text \<open>The identity map of a list of pages.\<close>

definition identity_mapped :: "vmm \<Rightarrow> u64 list \<Rightarrow> bool" where
  "identity_mapped s as \<longleftrightarrow>
     (\<forall>v. translate s v = (if page_base v \<in> set as then page_base v OR 3 else 0))"

lemma root_ok:
  assumes pm: "pmm_wf (vm_pmm s)" "distinct (free_pages (vm_pmm s))" "free_pages (vm_pmm s) \<noteq> []"
    and F: "\<forall>b \<in> free_set s. aligned b \<and> b \<noteq> 0"
  shows "\<exists>a pm' s'. allocate (vm_pmm s) 1 = Inr (a, pm') \<and>
    efold (\<lambda>i s. put_entry s [] i 0) [0..<512] (s\<lparr>vm_pml4 := a, vm_pmm := pm'\<rparr>) = Inr s' \<and>
    vmm_wf s' \<and> table_paths s' = {} \<and> page_entries s' = (\<lambda>_. 0) \<and> Suc (nfree s') = nfree s"
proof -
  from pages.alloc_takes [OF pm(1,2), of 0] pm(3) obtain a pm' where a: "allocate (vm_pmm s) 1 = Inr (a, pm')"
    "a \<in> free_set s" "set (free_pages pm') = free_set s - {a}" "pmm_wf pm'" "distinct (free_pages pm')" by auto
  define m where "m = (\<lambda>x. if \<exists>j \<in> set [0..<512]. x = slot a j then 0 else vm_mem s x)"
  let ?s = "\<lparr>vm_mem = m, vm_pml4 = a, vm_pmm = pm'\<rparr>"
  have zero: "m (slot a j) = 0" if "j < 512" for j
    using that by (auto simp: m_def simp del: upt_rec_numeral)
  have sel: "vm_mem \<lparr>vm_mem = k, vm_pml4 = a, vm_pmm = pm'\<rparr> = k" "vm_pml4 \<lparr>vm_mem = k, vm_pml4 = a, vm_pmm = pm'\<rparr> = a"
    "\<lparr>vm_mem = k, vm_pml4 = a, vm_pmm = pm'\<rparr>\<lparr>vm_mem := l\<rparr> = \<lparr>vm_mem = l, vm_pml4 = a, vm_pmm = pm'\<rparr>" for k l
    by simp_all
  have eq: "s\<lparr>vm_pml4 := a, vm_pmm := pm'\<rparr> = \<lparr>vm_mem = vm_mem s, vm_pml4 = a, vm_pmm = pm'\<rparr>" by simp
  have "efold (\<lambda>i s. put_entry s [] i 0) [0..<512] (s\<lparr>vm_pml4 := a, vm_pmm := pm'\<rparr>) = Inr ?s"
    unfolding eq using clear_root [of "\<lparr>vm_mem = vm_mem s, vm_pml4 = a, vm_pmm = pm'\<rparr>" "[0..<512]"] a(2) F
    unfolding m_def sel by blast
  moreover have "vmm_wf ?s" "table_paths ?s = {}" "page_entries ?s = (\<lambda>_. 0)"
    using empty_root [OF a(4,5), of a m] zero a(2,3) F by auto
  moreover have "Suc (nfree ?s) = nfree s"
    using length_distinct_minus [OF pm(2) a(5,3,2)] by simp
  ultimately show ?thesis using a(1) by blast
qed

lemma VMMInit_eq:
  assumes con: "console_log f con (ls, [])" "20 < fb_w f div 9"
    and map: "memmap_sane memmap" "\<forall>e \<in> set (usable memmap). unat (mm_length e) div 4096 < fuel"
    and pm: "pmm_wf (vm_pmm s)" "distinct (free_pages (vm_pmm s))" "\<forall>b \<in> free_set s. aligned b \<and> b \<noteq> 0"
  defines "as \<equiv> concat (map entry_addrs (usable memmap))"
  shows "if tables_needed as \<le> nfree s
    then \<exists>con' s'. VMMInit (Some (f # fs)) fuel memmap (con, s) = Some (Inr (Returns (con', s'))) \<and> vmm_wf s' \<and>
      console_log f con' (foldl (add_line (fb_h f div 16)) ls (replicate (length (usable memmap)) found_line), []) \<and>
      nfree s' + tables_needed as = nfree s \<and> identity_mapped s' as
    else out_of_memory f ls (length (usable memmap)) (VMMInit (Some (f # fs)) fuel memmap (con, s))"
proof (cases "free_pages (vm_pmm s) = []")
  case True
  obtain con' where con': "halting (Some (f # fs)) con (Inl no_memory) (\<lambda>s :: vmm. Inr (Returns (con, s))) = Inr (Halts con')"
    "41 < fb_w f div 9 \<longrightarrow> console_log f con' (add_line (fb_h f div 16) ls memory_line, [])"
    using halt_out_of_memory [OF con(1)] by blast
  have "VMMInit (Some (f # fs)) fuel memmap (con, s) = Some (Inr (Halts con'))"
    using allocate_none [OF pm(1) True] con'(1) by (simp add: VMMInit_def del: halting_simps)
  then have "out_of_memory f ls (length (usable memmap)) (VMMInit (Some (f # fs)) fuel memmap (con, s))"
    using con'(2) by (auto simp: out_of_memory_def intro!: exI [of _ 0])
  then show ?thesis using True by (simp add: tables_needed_def)
next
  case False
  let ?T = "\<Union> (steps ` set as)"
  have sane: "\<forall>e \<in> set (usable memmap). entry_sane e" using map(1) by (simp add: memmap_sane_def)
  obtain a pm' s0 where s0: "allocate (vm_pmm s) 1 = Inr (a, pm')"
    "efold (\<lambda>i s. put_entry s [] i 0) [0..<512] (s\<lparr>vm_pml4 := a, vm_pmm := pm'\<rparr>) = Inr s0"
    "vmm_wf s0" "table_paths s0 = {}" "page_entries s0 = (\<lambda>_. 0)" "Suc (nfree s0) = nfree s"
    using root_ok [OF pm(1,2) False pm(3)] by blast
  have init: "VMMInit (Some (f # fs)) fuel memmap (con, s) = map_entries (Some (f # fs)) fuel memmap (con, s0)"
    unfolding VMMInit_def snd_conv fst_conv s0(1) ebind_simps prod.case s0(2) halting_simps by simp
  note run = map_entries_eq [OF con, of memmap fuel fs s0, folded as_def]
  note g = map_pages_grows [OF s0(3), of "as", unfolded grows_def s0(4) Diff_empty]
  show ?thesis
  proof (cases "tables_needed as \<le> nfree s")
    case False
    then have "\<not> card ?T \<le> nfree s0" using s0(6) by (simp add: tables_needed_def)
    then show ?thesis using g init False run sane map(2) by simp
  next
    case True
    then have "card ?T \<le> nfree s0" using s0(6) by (simp add: tables_needed_def)
    then obtain s' where s': "map_pages as s0 = Inr s'" "vmm_wf s'"
      "page_entries s' = identity_entries as (\<lambda>_. 0)" "nfree s' + card ?T = nfree s0"
      using g s0(5) by auto
    have "\<forall>a \<in> set as. low_page a"
      using sane_pages(2) [of "usable memmap"] map(1) unfolding as_def memmap_sane_def by blast
    then have "identity_mapped s' as"
      using identity_entries_path [of "as" "\<lambda>_. 0"] page_path s'(3)
      by (metis identity_mapped_def translate_def page_entries_def)
    moreover have "nfree s' + tables_needed as = nfree s"
      using s'(4) s0(6) by (simp add: tables_needed_def)
    ultimately show ?thesis using True init s'(1,2) run sane map(2) by auto
  qed
qed

section \<open>Properties\<close>

text \<open>
  C22: the page tables after the allocator. On a memory map of the boot loader, with the pages
  the allocator holds after \<open>FreelistPMMInit\<close>, \<open>VMMInit\<close> halts exactly when the tables for
  all pages are more than the pages there are; the console, if it has at least 42 columns, then ends
  with the message of the allocator. Otherwise it maps every usable page to itself, present and
  writable, and no other address; it takes no more pages than it needs, and prints one line for each
  usable entry. The entries are those of a sane map: aligned, disjoint, in ascending order, without
  address 0, below the 256 TiB the tables cover; the console has at least 21 columns and no open line.
\<close>

theorem VMMInit_identity:
  assumes "FreelistPMMInit memmap pmm_boot = Inr (vm_pmm s)" "memmap_sane memmap"
    and "console_log f con (ls, [])" "20 < fb_w f div 9"
    and "\<forall>e \<in> set (usable memmap). unat (mm_length e) div 4096 < fuel"
  defines "pages \<equiv> free_pages (vm_pmm s)"
  shows "if tables_needed pages \<le> length pages
    then \<exists>con' s'. VMMInit (Some (f # fs)) fuel memmap (con, s) = Some (Inr (Returns (con', s'))) \<and> vmm_wf s' \<and>
      console_log f con' (foldl (add_line (fb_h f div 16)) ls (replicate (length (usable memmap)) found_line), []) \<and>
      nfree s' + tables_needed pages = length pages \<and> identity_mapped s' pages
    else \<exists>con'. VMMInit (Some (f # fs)) fuel memmap (con, s) = Some (Inr (Halts con')) \<and>
      (41 < fb_w f div 9 \<longrightarrow> (\<exists>k \<le> length (usable memmap).
         console_log f con' (foldl (add_line (fb_h f div 16)) ls (replicate k found_line @ [memory_line]), [])))"
proof -
  have "length (usable memmap) \<le> MAX_FREE_REGIONS"
    using assms(1) FreelistPMMInit_full [OF pmm_wf_boot, of memmap] by (force simp: not_le)
  then have pm: "pmm_wf (vm_pmm s)" "regions (vm_pmm s) = map entry_region (usable memmap)"
    using FreelistPMMInit_room [OF pmm_wf_boot, of memmap] assms(1) by auto
  have sane: "\<forall>e \<in> set (usable memmap). entry_sane e"
    "sorted_wrt (\<lambda>d e. entry_end d \<le> unat (mm_base e)) (usable memmap)"
    using assms(2) by (simp_all add: memmap_sane_def)
  have "map (region_pages \<circ> entry_region) (usable memmap) = map entry_addrs (usable memmap)"
    using sane(1) by (simp add: entry_pages)
  then have "pages = concat (map entry_addrs (usable memmap))"
    by (simp only: pages_def free_pages_def pm(2) map_map)
  then show ?thesis
    using VMMInit_eq [OF assms(3,4,2,5) pm(1), of fs] sane_pages [OF sane]
    by (simp only: pages_def low_page_def out_of_memory_def) blast
qed

definition sample_memmap :: "memmap_entry list" where
  "sample_memmap = [\<lparr>mm_base = 0x1000, mm_length = 0x5000, mm_type = 0\<rparr>,
     \<lparr>mm_base = 0xa0000, mm_length = 0x60000, mm_type = 1\<rparr>]"

abbreviation sample_frame :: limine_framebuffer where
  "sample_frame \<equiv> \<lparr>address = replicate 24480 0, fb_w = 306, fb_h = 80, pitch = 1224, bpp = 32\<rparr>"

lemma sample_memmap_usable: "usable sample_memmap = [\<lparr>mm_base = 0x1000, mm_length = 0x5000, mm_type = 0\<rparr>]"
  by (simp add: sample_memmap_def usable_def LIMINE_MEMMAP_USABLE_def)

lemma sample_memmap_sane: "memmap_sane sample_memmap"
  by (simp add: memmap_sane_def sample_memmap_usable entry_sane_def aligned_def)

lemma sample_memmap_pages:
  assumes "FreelistPMMInit sample_memmap pmm_boot = Inr pm"
  shows "free_pages pm = [0x1000, 0x2000, 0x3000, 0x4000, 0x5000]"
proof -
  have "regions pm = [\<lparr>start_addr = 0x1000, num_pages = 5\<rparr>]"
    using FreelistPMMInit_room [OF pmm_wf_boot, of sample_memmap] assms
    by (auto simp: sample_memmap_usable entry_region_def MAX_FREE_REGIONS_def PAGE_SIZE_def)
  then show ?thesis by (simp add: free_pages_def region_pages_def page_range_def PAGE_SIZE_def upt_conv_Cons)
qed

lemma sample_steps: "v \<in> {0x1000, 0x2000, 0x3000, 0x4000, 0x5000} \<Longrightarrow> steps v = {[0], [0, 0], [0, 0, 0]}"
  by (auto simp: steps_def pml4_index_def pdpt_index_def pd_index_def)

theorem VMMInit_identity_witness:
  "\<exists>pm con' s'. FreelistPMMInit sample_memmap pmm_boot = Inr pm \<and>
     VMMInit (Some [sample_frame]) 6 sample_memmap (boot_console, \<lparr>vm_mem = \<lambda>_. 7, vm_pml4 = 0, vm_pmm = pm\<rparr>)
       = Some (Inr (Returns (con', s'))) \<and>
     translate s' 0x5123 = 0x5003 \<and> translate s' 0x6000 = 0 \<and> nfree s' = 1"
proof -
  obtain pm where pm: "FreelistPMMInit sample_memmap pmm_boot = Inr pm"
    using FreelistPMMInit_room [OF pmm_wf_boot, of sample_memmap] by (auto simp: sample_memmap_usable MAX_FREE_REGIONS_def)
  note pages = sample_memmap_pages [OF pm]
  have "frame_usable sample_frame"
    by (simp add: frame_usable_def frame_ok_def pool_need_def BUMP_ALLOC_POOL_SIZE_def)
  note log = boot_console_log [OF this]
  have need: "tables_needed [0x1000, 0x2000, 0x3000, 0x4000, 0x5000] = 4"
    by (simp add: tables_needed_def sample_steps)
  let ?s = "\<lparr>vm_mem = \<lambda>_. 7, vm_pml4 = 0, vm_pmm = pm\<rparr>"
  have "\<exists>con' s'. VMMInit (Some [sample_frame]) 6 sample_memmap (boot_console, ?s) = Some (Inr (Returns (con', s'))) \<and>
      nfree s' + 4 = 5 \<and> identity_mapped s' [0x1000, 0x2000, 0x3000, 0x4000, 0x5000]"
    using VMMInit_identity [of sample_memmap ?s, OF _ sample_memmap_sane log, of 6 "[]"] pm
    by (auto simp: pages need sample_memmap_usable)
  then obtain con' s' where s': "VMMInit (Some [sample_frame]) 6 sample_memmap (boot_console, ?s) = Some (Inr (Returns (con', s')))"
    "nfree s' = 1" "identity_mapped s' [0x1000, 0x2000, 0x3000, 0x4000, 0x5000]" by auto
  have "page_base 0x5123 = 0x5000" "page_base 0x6000 = 0x6000" by (simp_all add: page_base_def page_number_def)
  then have "translate s' 0x5123 = 0x5003" "translate s' 0x6000 = 0"
    using s'(3) by (simp_all add: identity_mapped_def)
  then show ?thesis using pm s'(1,2) by blast
qed

end
