(* ===== verification/FB_Alloc.thy ===== *)
theory FB_Alloc
  imports FB_Init
begin

text \<open>
  The memory of a terminal: \<open>flanterm_fb_init\<close> of \<open>kernel/flanterm/backends/fb.c\<close> with the
  allocator of its caller, the label \<open>fail\<close> that gives back what was taken, and
  \<open>flanterm_fb_deinit\<close>. The callbacks \<open>_malloc\<close> and \<open>_free\<close> belong to the caller: they are
  parameters, functions on a state of their own. What a block contains is modelled in \<open>FB_Init\<close>;
  here is which blocks there are.
\<close>

section \<open>Operations\<close>

type_synonym 's malloc_fn = "nat \<Rightarrow> 's \<Rightarrow> u64 \<times> 's"

type_synonym 's free_fn = "u64 \<Rightarrow> nat \<Rightarrow> 's \<Rightarrow> 's"

text \<open>The fill level of the static pool and the state of the callbacks.\<close>

type_synonym 's mem = "nat \<times> 's"

text \<open>
  The pointers a context holds and the sizes it keeps of them; the address of the context itself is
  the first one. \<open>0\<close> is \<open>NULL\<close>.
\<close>

record blocks =
  ctx_ptr :: u64
  font_bits_size :: nat
  font_bits_ptr :: u64
  font_bool_size :: nat
  font_bool_ptr :: u64
  canvas_size :: nat
  canvas_ptr :: u64
  grid_size :: nat
  queue_size :: nat
  map_size :: nat
  grid_ptr :: u64
  queue_ptr :: u64
  map_ptr :: u64

definition no_blocks :: blocks where
  "no_blocks = \<lparr>ctx_ptr = 0, font_bits_size = 0, font_bits_ptr = 0, font_bool_size = 0, font_bool_ptr = 0,
     canvas_size = 0, canvas_ptr = 0, grid_size = 0, queue_size = 0, map_size = 0, grid_ptr = 0,
     queue_ptr = 0, map_ptr = 0\<rparr>"

text \<open>\<open>_malloc\<close>, replaced by \<open>bump_alloc\<close> when it is \<open>NULL\<close>; \<open>pool\<close> is the address of the pool.\<close>

definition fb_malloc :: "u64 \<Rightarrow> 's malloc_fn option \<Rightarrow> nat \<Rightarrow> 's mem \<Rightarrow> u64 \<times> 's mem" where
  "fb_malloc pool malloc n m =
     (case malloc of
        None \<Rightarrow> (case bump_alloc n (fst m) of
            None \<Rightarrow> (0, m)
          | Some p \<Rightarrow> (pool + of_nat (fst m), (p, snd m)))
      | Some f \<Rightarrow> (case f n (snd m) of (q, s) \<Rightarrow> (q, (fst m, s))))"

definition free_block :: "'s free_fn \<Rightarrow> u64 \<Rightarrow> nat \<Rightarrow> 's \<Rightarrow> 's" where
  "free_block f p n s = (if p \<noteq> 0 then f p n s else s)"

text \<open>
  The label \<open>fail\<close>. The first test reads a field of the context, which is \<open>NULL\<close> when the
  context itself could not be allocated.
\<close>

definition fb_fail :: "nat \<Rightarrow> 's malloc_fn option \<Rightarrow> 's free_fn option \<Rightarrow> blocks \<Rightarrow> 's mem
    \<Rightarrow> fault + 's mem \<times> 'r option" where
  "fb_fail orig_bump_alloc_ptr malloc free b m =
     (case malloc of
        None \<Rightarrow> Inr ((orig_bump_alloc_ptr, snd m), None)
      | Some _ \<Rightarrow>
     (case free of
        None \<Rightarrow> Inr (m, None)
      | Some f \<Rightarrow>
          if ctx_ptr b = 0 then Inl NullDeref
          else (let s = snd m;
                    s = free_block f (canvas_ptr b) (canvas_size b) s;
                    s = free_block f (map_ptr b) (map_size b) s;
                    s = free_block f (queue_ptr b) (queue_size b) s;
                    s = free_block f (grid_ptr b) (grid_size b) s;
                    s = free_block f (font_bool_ptr b) (font_bool_size b) s;
                    s = free_block f (font_bits_ptr b) (font_bits_size b) s;
                    s = free_block f (ctx_ptr b) SIZEOF_CONTEXT s
                in Inr ((fst m, s), None))))"

text \<open>One request: the pointer is stored whatever it is, and \<open>NULL\<close> jumps to \<open>fail\<close>.\<close>

definition fb_request :: "(nat \<Rightarrow> 's mem \<Rightarrow> u64 \<times> 's mem) \<Rightarrow> (blocks \<Rightarrow> 's mem \<Rightarrow> fault + 's mem \<times> 'r option)
    \<Rightarrow> nat \<Rightarrow> (u64 \<Rightarrow> blocks) \<Rightarrow> 's mem \<Rightarrow> (blocks \<Rightarrow> 's mem \<Rightarrow> fault + 's mem \<times> 'r option)
    \<Rightarrow> fault + 's mem \<times> 'r option" where
  "fb_request mal fail n store m k =
     (case mal n m of (p, m) \<Rightarrow> if p = 0 then fail (store p) m else k (store p) m)"

definition fb_request_arrays :: "(nat \<Rightarrow> 's mem \<Rightarrow> u64 \<times> 's mem)
    \<Rightarrow> (blocks \<Rightarrow> 's mem \<Rightarrow> fault + 's mem \<times> (ctx \<times> blocks) option)
    \<Rightarrow> fb_args \<Rightarrow> ctx \<Rightarrow> blocks \<Rightarrow> 's mem \<Rightarrow> fault + 's mem \<times> (ctx \<times> blocks) option" where
  "fb_request_arrays mal fail a ctx b m =
     (let n = sz_mul (rows ctx) (cols ctx);
          gs = sz_mul n SIZEOF_CHAR; qs = sz_mul n SIZEOF_QUEUE_ITEM; ms = sz_mul n SIZEOF_POINTER;
          cs = sz_mul (sz_mul (a_width a) (a_height a)) 4
      in fb_request mal fail gs (\<lambda>p. b\<lparr>grid_size := gs, grid_ptr := p\<rparr>) m (\<lambda>b m.
         fb_request mal fail qs (\<lambda>p. b\<lparr>queue_size := qs, queue_ptr := p\<rparr>) m (\<lambda>b m.
         fb_request mal fail ms (\<lambda>p. b\<lparr>map_size := ms, map_ptr := p\<rparr>) m (\<lambda>b m.
         fb_request mal fail cs (\<lambda>p. b\<lparr>canvas_size := cs, canvas_ptr := p\<rparr>) m (\<lambda>b m.
         ebind (of_opt (start_arrays a ctx)) (\<lambda>ctx. Inr (m, Some (ctx, b))))))))"

definition flanterm_fb_init_alloc :: "u64 \<Rightarrow> 's malloc_fn option \<Rightarrow> 's free_fn option \<Rightarrow> fb_args \<Rightarrow> 's mem
    \<Rightarrow> fault + 's mem \<times> (ctx \<times> blocks) option" where
  "flanterm_fb_init_alloc pool malloc free a m =
     (let mal = fb_malloc pool malloc; fail = fb_fail (fst m) malloc free
      in fb_request mal fail SIZEOF_CONTEXT (\<lambda>p. no_blocks\<lparr>ctx_ptr := p\<rparr>) m (\<lambda>b m.
         ebind (of_opt (init_colours a zero_context)) (\<lambda>ctx.
         case init_font a of (fw, fh, spacing, font) \<Rightarrow>
         let n = FONT_BYTES fw fh in
         fb_request mal fail n (\<lambda>p. b\<lparr>font_bits_size := n, font_bits_ptr := p\<rparr>) m (\<lambda>b m.
         ebind (of_opt (copy_in n font)) (\<lambda>bits.
         let font_w = sz_add fw spacing; total = sz_mul (sz_mul 256 fh) font_w in
         fb_request mal fail total (\<lambda>p. b\<lparr>font_bool_size := total, font_bool_ptr := p\<rparr>) m (\<lambda>b m.
         ebind (of_opt (expand_font fh font_w bits (replicate total False))) (\<lambda>fb.
         ebind (of_opt (init_geometry a font_w fh (ctx\<lparr>font_width := font_w, font_height := fh,
                 font_bits := bits, font_bool := fb\<rparr>))) (\<lambda>ctx.
         fb_request_arrays mal fail a ctx b m))))))))"

definition flanterm_fb_deinit :: "blocks \<Rightarrow> 's free_fn option \<Rightarrow> 's \<Rightarrow> 's" where
  "flanterm_fb_deinit b free s =
     (case free of None \<Rightarrow> s
      | Some f \<Rightarrow>
          let s = f (font_bits_ptr b) (font_bits_size b) s;
              s = f (font_bool_ptr b) (font_bool_size b) s;
              s = f (grid_ptr b) (grid_size b) s;
              s = f (queue_ptr b) (queue_size b) s;
              s = f (map_ptr b) (map_size b) s;
              s = f (canvas_ptr b) (canvas_size b) s
          in f (ctx_ptr b) SIZEOF_CONTEXT s)"

section \<open>The blocks of a context\<close>

definition held :: "u64 \<Rightarrow> nat \<Rightarrow> (u64 \<times> nat) multiset" where
  "held p n = (if p = 0 then {#} else {#(p, n)#})"

definition taken :: "blocks \<Rightarrow> (u64 \<times> nat) multiset" where
  "taken b = held (ctx_ptr b) SIZEOF_CONTEXT + held (font_bits_ptr b) (font_bits_size b)
     + held (font_bool_ptr b) (font_bool_size b) + held (grid_ptr b) (grid_size b)
     + held (queue_ptr b) (queue_size b) + held (map_ptr b) (map_size b) + held (canvas_ptr b) (canvas_size b)"

text \<open>
  What \<open>malloc\<close> and \<open>free\<close> promise: a request either fails and changes nothing, or adds a block to
  the live ones; a live block given back with its size is removed from them.
\<close>

definition allocator :: "'s malloc_fn \<Rightarrow> 's free_fn \<Rightarrow> ('s \<Rightarrow> (u64 \<times> nat) multiset) \<Rightarrow> bool" where
  "allocator mal fre live \<longleftrightarrow>
     (\<forall>n s. live (snd (mal n s)) = live s + held (fst (mal n s)) n) \<and>
     (\<forall>p n s. p \<noteq> 0 \<longrightarrow> (p, n) \<in># live s \<longrightarrow> live (fre p n s) = live s - {#(p, n)#})"

lemma held_nonzero: "p \<noteq> 0 \<Longrightarrow> held p n = {#(p, n)#}"
  by (simp add: held_def)

lemma held_null [simp]: "held 0 n = {#}"
  by (simp add: held_def)

lemma free_held:
  assumes "allocator mal fre live" "live s = M + held p n"
  shows "live (free_block fre p n s) = M"
  using assms by (auto simp: allocator_def free_block_def held_def)

lemma free_live:
  assumes "allocator mal fre live" "live s = M + held p n" "p \<noteq> 0"
  shows "live (fre p n s) = M"
  using free_held [OF assms(1,2)] assms(3) by (simp add: free_block_def)

lemma fb_fail_frees:
  assumes al: "allocator mal fre live" and b: "live s = L + taken b" "ctx_ptr b \<noteq> 0"
  shows "\<exists>s'. fb_fail orig (Some mal) (Some fre) b (bp, s) = Inr ((bp, s'), None) \<and> live s' = L"
proof -
  define s1 where "s1 = free_block fre (canvas_ptr b) (canvas_size b) s"
  define s2 where "s2 = free_block fre (map_ptr b) (map_size b) s1"
  define s3 where "s3 = free_block fre (queue_ptr b) (queue_size b) s2"
  define s4 where "s4 = free_block fre (grid_ptr b) (grid_size b) s3"
  define s5 where "s5 = free_block fre (font_bool_ptr b) (font_bool_size b) s4"
  define s6 where "s6 = free_block fre (font_bits_ptr b) (font_bits_size b) s5"
  define s7 where "s7 = free_block fre (ctx_ptr b) SIZEOF_CONTEXT s6"
  note fr = free_held [OF al]
  note b(1) [unfolded taken_def add.assoc [symmetric]]
  from fr [OF this, folded s1_def] have "live s1 = L + held (ctx_ptr b) SIZEOF_CONTEXT
    + held (font_bits_ptr b) (font_bits_size b) + held (font_bool_ptr b) (font_bool_size b)
    + held (grid_ptr b) (grid_size b) + held (queue_ptr b) (queue_size b) + held (map_ptr b) (map_size b)" .
  from fr [OF fr [OF fr [OF this, folded s2_def], folded s3_def], folded s4_def]
  have "live s4 = L + held (ctx_ptr b) SIZEOF_CONTEXT
    + held (font_bits_ptr b) (font_bits_size b) + held (font_bool_ptr b) (font_bool_size b)" .
  from fr [OF fr [OF fr [OF this, folded s5_def], folded s6_def], folded s7_def] have "live s7 = L" .
  moreover have "fb_fail orig (Some mal) (Some fre) b (bp, s) = Inr ((bp, s7), None)"
    using b(2) by (simp add: fb_fail_def Let_def s1_def s2_def s3_def s4_def s5_def s6_def s7_def)
  ultimately show ?thesis by blast
qed

definition complete :: "blocks \<Rightarrow> bool" where
  "complete b \<longleftrightarrow> ctx_ptr b \<noteq> 0 \<and> font_bits_ptr b \<noteq> 0 \<and> font_bool_ptr b \<noteq> 0 \<and> grid_ptr b \<noteq> 0 \<and>
     queue_ptr b \<noteq> 0 \<and> map_ptr b \<noteq> 0 \<and> canvas_ptr b \<noteq> 0"

lemma deinit_frees:
  assumes al: "allocator mal fre live" and b: "live s = L + taken b" "complete b"
  shows "live (flanterm_fb_deinit b (Some fre) s) = L"
proof -
  define s1 where "s1 = fre (font_bits_ptr b) (font_bits_size b) s"
  define s2 where "s2 = fre (font_bool_ptr b) (font_bool_size b) s1"
  define s3 where "s3 = fre (grid_ptr b) (grid_size b) s2"
  define s4 where "s4 = fre (queue_ptr b) (queue_size b) s3"
  define s5 where "s5 = fre (map_ptr b) (map_size b) s4"
  define s6 where "s6 = fre (canvas_ptr b) (canvas_size b) s5"
  have nz: "ctx_ptr b \<noteq> 0" "font_bits_ptr b \<noteq> 0" "font_bool_ptr b \<noteq> 0" "grid_ptr b \<noteq> 0"
    "queue_ptr b \<noteq> 0" "map_ptr b \<noteq> 0" "canvas_ptr b \<noteq> 0" using b(2) by (simp_all add: complete_def)
  note fr = free_live [OF al]
  have "live s = (L + held (ctx_ptr b) SIZEOF_CONTEXT + held (canvas_ptr b) (canvas_size b)
    + held (map_ptr b) (map_size b) + held (queue_ptr b) (queue_size b) + held (grid_ptr b) (grid_size b)
    + held (font_bool_ptr b) (font_bool_size b)) + held (font_bits_ptr b) (font_bits_size b)"
    using b(1) by (simp add: taken_def ac_simps)
  from fr [OF fr [OF fr [OF this nz(2), folded s1_def] nz(3), folded s2_def] nz(4), folded s3_def]
  have "live s3 = L + held (ctx_ptr b) SIZEOF_CONTEXT + held (canvas_ptr b) (canvas_size b)
    + held (map_ptr b) (map_size b) + held (queue_ptr b) (queue_size b)" .
  from fr [OF fr [OF fr [OF fr [OF this nz(5), folded s4_def] nz(6), folded s5_def] nz(7), folded s6_def] nz(1)]
  have "live (fre (ctx_ptr b) SIZEOF_CONTEXT s6) = L" .
  then show ?thesis
    by (simp add: flanterm_fb_deinit_def Let_def s1_def s2_def s3_def s4_def s5_def s6_def)
qed

section \<open>The call with the allocator of the caller\<close>

text \<open>
  The two ways in which a call may end, where \<open>L\<close> are the blocks that were live before: with
  \<open>NULL\<close> and those blocks, or with a terminal that satisfies \<open>P\<close> and owns the blocks that are new.
\<close>

definition conserves :: "'s malloc_fn \<Rightarrow> ('s \<Rightarrow> (u64 \<times> nat) multiset) \<Rightarrow> nat \<Rightarrow> (u64 \<times> nat) multiset
    \<Rightarrow> (ctx \<times> blocks \<Rightarrow> bool) \<Rightarrow> fault + 's mem \<times> (ctx \<times> blocks) option \<Rightarrow> bool" where
  "conserves mal live bp L P r \<longleftrightarrow>
     (\<exists>s n t. r = Inr ((bp, s), None) \<and> live s = L \<and> fst (mal n t) = 0) \<or>
     (\<exists>s cb. r = Inr ((bp, s), Some cb) \<and> live s = L + taken (snd cb) \<and> P cb)"

lemma request_conserves:
  assumes al: "allocator mal fre live" and s: "live s = L + taken b"
    and store: "\<And>p. taken (store p) = taken b + held p n" "ctx_ptr (store 0) \<noteq> 0"
    and k: "\<And>p s'. p \<noteq> 0 \<Longrightarrow> live s' = L + taken (store p) \<Longrightarrow> conserves mal live bp L P (k (store p) (bp, s'))"
  shows "conserves mal live bp L P
    (fb_request (fb_malloc pool (Some mal)) (fb_fail orig (Some mal) (Some fre)) n store (bp, s) k)"
proof -
  obtain p s' where m: "mal n s = (p, s')" by (cases "mal n s")
  then have live: "live s' = L + taken (store p)"
    using al [unfolded allocator_def] s store(1) [of p] by (metis add.assoc fst_conv snd_conv)
  show ?thesis
  proof (cases "p = 0")
    case True
    then have "\<exists>n t. fst (mal n t) = 0" using m by (intro exI [of _ n] exI [of _ s]) simp
    with fb_fail_frees [OF al live [unfolded True] store(2), of orig bp] m True
    show ?thesis unfolding conserves_def by (simp add: fb_request_def fb_malloc_def) blast
  next
    case False
    then show ?thesis using k [OF False live] m by (simp add: fb_request_def fb_malloc_def)
  qed
qed

lemma request_first:
  assumes al: "allocator mal fre live" and nz: "fst (mal n s) \<noteq> 0" and store: "\<And>p. taken (store p) = held p n"
    and k: "\<And>p s'. p \<noteq> 0 \<Longrightarrow> live s' = live s + taken (store p) \<Longrightarrow> conserves mal live bp L P (k (store p) (bp, s'))"
  shows "conserves mal live bp L P (fb_request (fb_malloc pool (Some mal)) fail n store (bp, s) k)"
proof -
  obtain p s' where m: "mal n s = (p, s')" by (cases "mal n s")
  then have "live s' = live s + taken (store p)"
    using al [unfolded allocator_def] store by (metis fst_conv snd_conv)
  then show ?thesis using k [of p s'] m nz by (simp add: fb_request_def fb_malloc_def)
qed

lemma small_mul:
  assumes "n < 2 ^ 31" "k \<le> 32"
  shows "sz_mul n k = n * k"
proof -
  have "n * k \<le> 2 ^ 31 * 32" using assms by (intro mult_le_mono) simp_all
  then show ?thesis by (intro sz_mul_id) (simp add: SZ_def)
qed

lemma arrays_conserve:
  assumes al: "allocator mal fre live" and s: "live s = L + taken b"
    and b: "ctx_ptr b \<noteq> 0" "font_bits_ptr b \<noteq> 0" "font_bool_ptr b \<noteq> 0" "grid_ptr b = 0"
    "queue_ptr b = 0" "map_ptr b = 0" "canvas_ptr b = 0"
    and n: "rows ctx * cols ctx < 2 ^ 31" "a_width a * a_height a < 2 ^ 31"
    and start: "start_arrays a ctx = Some c"
    and bytes: "K = (\<Sum>x\<in>#taken b. snd x) + rows ctx * cols ctx * (SIZEOF_CHAR + SIZEOF_QUEUE_ITEM + SIZEOF_POINTER)
      + a_width a * a_height a * 4"
  shows "conserves mal live bp L (\<lambda>(c', b'). c' = c \<and> complete b' \<and> (\<Sum>x\<in>#taken b'. snd x) = K)
    (fb_request_arrays (fb_malloc pool (Some mal)) (fb_fail orig (Some mal) (Some fre)) a ctx b (bp, s))"
proof -
  have "sz_mul (rows ctx) (cols ctx) = rows ctx * cols ctx" "sz_mul (a_width a) (a_height a) = a_width a * a_height a"
    "sz_mul (rows ctx * cols ctx) 12 = rows ctx * cols ctx * 12"
    "sz_mul (rows ctx * cols ctx) 32 = rows ctx * cols ctx * 32"
    "sz_mul (rows ctx * cols ctx) 8 = rows ctx * cols ctx * 8"
    "sz_mul (a_width a * a_height a) 4 = a_width a * a_height a * 4"
    using small_mul [OF n(1)] small_mul [OF n(2)] n by (simp_all add: sz_mul_id SZ_def)
  note sz = this [folded SIZEOF_CHAR_def SIZEOF_QUEUE_ITEM_def SIZEOF_POINTER_def]
  have final: "conserves mal live bp L (\<lambda>(c', b'). c' = c \<and> complete b' \<and> (\<Sum>x\<in>#taken b'. snd x) = K)
      (ebind (of_opt (start_arrays a ctx)) (\<lambda>ctx. Inr ((bp, t), Some (ctx, b'))))"
    if "live t = L + taken b'" "complete b'" "(\<Sum>x\<in>#taken b'. snd x) = K" for t b'
    using that start by (auto simp: conserves_def)
  show ?thesis
    unfolding fb_request_arrays_def sz Let_def
    apply (rule request_conserves [OF al s])
      apply (simp_all add: b(1,4-7) taken_def ac_simps) [2]
    apply (rule request_conserves [OF al], assumption)
      apply (simp_all add: b(1,4-7) taken_def ac_simps) [2]
    apply (rule request_conserves [OF al], assumption)
      apply (simp_all add: b(1,4-7) taken_def ac_simps) [2]
    apply (rule request_conserves [OF al], assumption)
      apply (simp_all add: b(1,4-7) taken_def ac_simps) [2]
    apply (rule final, assumption)
    by (simp_all add: complete_def b bytes taken_def held_nonzero algebra_simps)
qed

lemma init_conserves:
  assumes fits: "fb_fits a" and al: "allocator mal fre live" and nz: "fst (mal SIZEOF_CONTEXT s) \<noteq> 0"
  shows "conserves mal live bp (live s) (\<lambda>(c, b). fresh_terminal c \<and> rows c = fb_rows a \<and> cols c = fb_cols a \<and>
      complete b \<and> (\<Sum>x\<in>#taken b. snd x) = fb_bytes a)
    (flanterm_fb_init_alloc pool (Some mal) (Some fre) a (bp, s))"
proof -
  obtain fw fh spacing f where font: "init_font a = (fw, fh, spacing, f)" by (cases "init_font a")
  note b = build_ok [OF fits font]
  from b(10) obtain c0 c2 c where c0: "init_colours a zero_context = Some c0"
    and c2: "init_geometry a (fw + spacing) fh (c0\<lparr>font_width := fw + spacing, font_height := fh,
      font_bits := take (fw * fh * 32) f, font_bool := map (dots fh (fw + spacing) (take (fw * fh * 32) f))
        [0..<256 * fh * (fw + spacing)]\<rparr>) = Some c2" "rows c2 = fb_rows a" "cols c2 = fb_cols a"
    and c: "start_arrays a c2 = Some c" "fresh_terminal c" "rows c = fb_rows a" "cols c = fb_cols a" by blast
  let ?P = "\<lambda>(c, b). fresh_terminal c \<and> rows c = fb_rows a \<and> cols c = fb_cols a \<and>
      complete b \<and> (\<Sum>x\<in>#taken b. snd x) = fb_bytes a"
  have weaken: "conserves mal live bp L ?P r"
    if "conserves mal live bp L (\<lambda>(c', b'). c' = c \<and> complete b' \<and> (\<Sum>x\<in>#taken b'. snd x) = fb_bytes a) r" for L r
    using that c(2-4) unfolding conserves_def by fastforce
  have n: "rows c2 * cols c2 < 2 ^ 31" using b(9) by (simp add: c2(2,3))
  show ?thesis
    unfolding flanterm_fb_init_alloc_def Let_def c0 font prod.case of_opt_simps ebind_simps b(1,2,3,6,7) c2(1) fst_conv
    apply (rule request_first [OF al nz])
     apply (simp add: no_blocks_def taken_def)
    apply (rule request_conserves [OF al], assumption)
      apply (simp_all add: no_blocks_def taken_def ac_simps) [2]
    apply (rule request_conserves [OF al], assumption)
      apply (simp_all add: no_blocks_def taken_def ac_simps) [2]
    apply (rule weaken, rule arrays_conserve [OF al _ _ _ _ _ _ _ _ n b(8) c(1)], assumption)
    by (simp_all add: no_blocks_def taken_def held_nonzero c2(2,3) fb_bytes_def font)
qed

text \<open>
  C12: the memory of a terminal that is built with the allocator of its caller. A call with parameters
  that fit ends in one of two ways: a request failed, the call returns \<open>NULL\<close> and the blocks that are
  live are the ones that were live before; or it returns a terminal that owns seven new blocks of the
  computed number of bytes, and \<open>flanterm_fb_deinit\<close> gives back exactly these. The first request
  has to succeed.
\<close>

theorem init_alloc_conserves:
  assumes "fb_fits a" "allocator mal fre live" "fst (mal SIZEOF_CONTEXT s) \<noteq> 0"
  shows "(\<exists>s' n t. flanterm_fb_init_alloc pool (Some mal) (Some fre) a (bp, s) = Inr ((bp, s'), None) \<and>
       live s' = live s \<and> fst (mal n t) = 0) \<or>
     (\<exists>s' c b. flanterm_fb_init_alloc pool (Some mal) (Some fre) a (bp, s) = Inr ((bp, s'), Some (c, b)) \<and>
       fresh_terminal c \<and> rows c = fb_rows a \<and> cols c = fb_cols a \<and>
       live s' = live s + taken b \<and> size (taken b) = 7 \<and> (\<Sum>x\<in>#taken b. snd x) = fb_bytes a \<and>
       live (flanterm_fb_deinit b (Some fre) s') = live s)"
proof -
  have seven: "size (taken b) = 7" if "complete b" for b
    using that by (simp add: complete_def taken_def held_nonzero)
  from init_conserves [OF assms, of bp pool] show ?thesis
    unfolding conserves_def using deinit_frees [OF assms(2)] seven by fastforce
qed

text \<open>
  An allocator with no bound that keeps a list of its blocks; every pointer is odd.
\<close>

definition list_malloc :: "(u64 \<times> nat) list malloc_fn" where
  "list_malloc n s = (let p = 2 * of_nat (length s) + 1 in (p, (p, n) # s))"

definition list_free :: "(u64 \<times> nat) list free_fn" where
  "list_free p n s = remove1 (p, n) s"

lemma list_malloc_nonzero: "fst (list_malloc n s) \<noteq> 0"
proof
  assume "fst (list_malloc n s) = 0"
  then have "2 * of_nat (length s) + 1 = (0 :: u64)" by (simp add: list_malloc_def Let_def)
  moreover have "odd (2 * of_nat (length s) + 1 :: u64)" by simp
  ultimately show False by (metis dvd_0_right)
qed

lemma list_allocator: "allocator list_malloc list_free mset"
proof -
  have "held (fst (list_malloc n s)) n = {#(fst (list_malloc n s), n)#}" for n s
    using list_malloc_nonzero by (rule held_nonzero)
  then show ?thesis by (simp add: allocator_def list_free_def) (simp add: list_malloc_def Let_def)
qed

theorem init_alloc_conserves_witness:
  "\<exists>s' c b. flanterm_fb_init_alloc 0x1000 (Some list_malloc) (Some list_free)
       (plain_args (replicate 864 0) 27 32 108) (0, []) = Inr ((0, s'), Some (c, b)) \<and>
     rows c = 2 \<and> cols c = 3 \<and> length s' = 7 \<and> mset (flanterm_fb_deinit b (Some list_free) s') = {#}"
proof -
  let ?a = "plain_args (replicate 864 0) 27 32 108"
  have a: "fb_fits ?a" "fb_rows ?a = 2" "fb_cols ?a = 3"
    using plain_args_fits [of 27 32 108 "replicate 864 0"] by simp_all
  from init_alloc_conserves [of ?a list_malloc list_free mset "[]" "0x1000" 0, OF a(1) list_allocator list_malloc_nonzero]
  obtain s' c b where "flanterm_fb_init_alloc 0x1000 (Some list_malloc) (Some list_free) ?a (0, []) = Inr ((0, s'), Some (c, b))"
    "rows c = fb_rows ?a" "cols c = fb_cols ?a" "mset s' = mset [] + taken b" "size (taken b) = 7"
    "mset (flanterm_fb_deinit b (Some list_free) s') = mset []"
    using list_malloc_nonzero by blast
  moreover from this(4,5) have "length s' = 7" by (simp flip: size_mset)
  ultimately show ?thesis unfolding a(2,3) by auto
qed

text \<open>
  The first request is the one case in which the call does not return: when the caller's
  \<open>_malloc\<close> has no memory for the context and a \<open>_free\<close> was passed, the code at \<open>fail\<close>
  reads a field of a context that is \<open>NULL\<close>. Without \<open>_free\<close> it returns \<open>NULL\<close>.
\<close>

theorem init_alloc_null:
  assumes "mal SIZEOF_CONTEXT s = (0, s')"
  shows "flanterm_fb_init_alloc pool (Some mal) (Some fre) a (bp, s) = Inl NullDeref \<and>
    flanterm_fb_init_alloc pool (Some mal) None a (bp, s) = Inr ((bp, s'), None)"
  using assms by (simp add: flanterm_fb_init_alloc_def fb_request_def fb_malloc_def fb_fail_def no_blocks_def)

theorem init_alloc_null_witness:
  "flanterm_fb_init_alloc 0x1000 (Some (\<lambda>n s. (0, s))) (Some (\<lambda>p n s. s)) (plain_args [] 27 32 108) (0, ())
     = Inl NullDeref"
  using init_alloc_null [of "\<lambda>n s. (0, s)" "()" "()" "0x1000" "\<lambda>p n s. s" "plain_args [] 27 32 108" 0, OF refl] by (rule conjunct1)

end
