(* ===== verification/Spec2Isabelle.thy ===== *)
theory Spec2Isabelle
  imports Kernel_Halt Boot_Protocol VMM_Init FB_Alloc
begin

text \<open>
  A verification library of DeerOS, a small 64-bit kernel that is started by the Limine boot
  loader (everything under \<open>src/kernel/\<close>).

  \<^bold>\<open>The program.\<close> The entry point \<open>_start\<close> (\<open>kernel.c\<close>) prints messages with \<open>print\<close>
  (\<open>sys/print.c\<close>), hands the memory map of the boot loader to the page allocator
  (\<open>mm/pmm.c\<close>), loads the segment table (\<open>sys/gdt.c\<close>) and the interrupt table
  (\<open>sys/idt.c\<close>) and halts. Interrupts reach \<open>isrHandler\<close> (\<open>sys/idt.c\<close>), which prints the
  vector with \<open>printf\<close> (\<open>printf/printf.c\<close>), shows an exception on a red screen (with a
  second version in \<open>sys/rsod.c\<close>) or calls a device handler (\<open>time/pit.c\<close>). The page
  tables (\<open>mm/vmm.c\<close>) are built from pages of the allocator. All output goes through the
  terminal emulator under \<open>flanterm/\<close>: \<open>flanterm.c\<close> interprets a stream of bytes (UTF-8,
  escape and control sequences) and calls the frame buffer backend \<open>backends/fb.c\<close>, which
  keeps a grid of character cells, a queue of changed cells, and draws them as pixels.

  \<^bold>\<open>Theories.\<close>

  \<^item> \<open>Deer_Prelude\<close>: the word types, the type of faults (an access out of bounds, a null
    pointer, one of the kernel's halt loops), the outcome of code that may halt the machine, the error
    monad over \<open>fault + 'a\<close>, checked array access, and lemmas on words and lists.
  \<^item> \<open>PMM\<close>: \<open>FreelistPMMInit\<close>, \<open>add_free_region\<close>, \<open>allocate\<close>, \<open>deallocate\<close>. The
    abstraction is the multiset of free pages.
  \<^item> \<open>Flanterm_State\<close>: the two context structs as one record, the cells and the queue items.
  \<^item> \<open>FB_Queue\<close>, \<open>FB_Scroll\<close>: the logical screen of \<open>fb.c\<close> (queue, grid, map, scrolling,
    clearing, cursor, colours, \<open>flanterm_fb_raw_putchar\<close>). The abstraction \<open>screen\<close> is the
    list of cells as they will be after the queue is flushed; every operation is related to it.
  \<^item> \<open>FB_Draw\<close>: both glyph plotters, the cursor, \<open>flanterm_fb_double_buffer_flush\<close> and
    \<open>flanterm_fb_full_refresh\<close>, against \<open>displays\<close>, which says that the pixels of a cell show
    a character.
  \<^item> \<open>FB_Font\<close>, \<open>FB_Init\<close>: the built-in font and \<open>flanterm_fb_init\<close> with its pool allocator.
  \<^item> \<open>FB_Alloc\<close>: the memory of a terminal, with the callbacks of a caller: \<open>flanterm_fb_init\<close> with
    the label \<open>fail\<close>, and \<open>flanterm_fb_deinit\<close>. The abstraction is the multiset of live blocks.
  \<^item> \<open>Flanterm_Tables\<close>: the colour table, the width of a code point by binary search, the
    glyph of a code point.
  \<^item> \<open>Flanterm_Term\<close>: a locale with what the interpreter relies on in a backend, interpreted on
    the frame buffer backend of the model.
  \<^item> \<open>Flanterm_SGR\<close>, \<open>Flanterm_CSI\<close>, \<open>Flanterm_Core\<close>: \<open>sgr\<close>; the control sequences and
    private modes; \<open>flanterm_putchar\<close>, \<open>flanterm_write\<close>, escape sequences, UTF-8 and character
    sets.
  \<^item> \<open>Flanterm_Edit\<close>, \<open>Flanterm_Shift\<close>, \<open>Flanterm_Stream\<close>: the properties of the cursor and
    erase commands, of the insert and delete commands, and of byte streams.
  \<^item> \<open>KString\<close>: \<open>memcpy\<close>, \<open>memset\<close>, \<open>memmove\<close>, \<open>memcmp\<close>, \<open>strlen\<close> of \<open>kernel.c\<close>.
  \<^item> \<open>Print\<close>: \<open>print\<close>, refined to a log of lines; the halt loops of \<open>pmm.c\<close>, which print their
    message first.
  \<^item> \<open>Printf\<close>: \<open>reverse\<close>, \<open>int2str\<close>, \<open>uintptr2str\<close>, \<open>printf\<close>.
  \<^item> \<open>GDT\<close>, \<open>IDT\<close>: both descriptor tables, decoded as the processor reads them; the interrupt
    dispatch.
  \<^item> \<open>IDT_Stub\<close>: the interrupt stubs of \<open>sys/_asm_idt.asm\<close>, instruction by instruction, from the
    entry of the processor to \<open>iretq\<close>.
  \<^item> \<open>Timer\<close>, \<open>Rsod\<close>: the timer handler and \<open>sleep\<close>; the exception screen.
  \<^item> \<open>Rsod_Screen\<close>: the pixels of the screen of a page fault, from \<open>isrHandler\<close> to its halt.
  \<^item> \<open>VMM\<close>: the four levels of page tables in memory, refined to a map from pages to entries.
  \<^item> \<open>VMM_Init\<close>: the tables \<open>VMMInit\<close> builds from the memory map with the pages of the allocator,
    and the number of pages it takes.
  \<^item> \<open>Kernel\<close>: \<open>_start\<close> and the state at the halt, with every way a boot can end.
  \<^item> \<open>Boot_Protocol\<close>: the requests of \<open>limine.h\<close> in the image of the kernel and the loader's
    responses, from which the parameters of \<open>Kernel\<close> come.
  \<^item> \<open>Kernel_Traps\<close>: exceptions, interrupts and \<open>int\<close> instructions in the booted kernel, from the
    gate in the loaded table to the stub, for all 256 vectors.
  \<^item> \<open>Kernel_Run\<close>: a step relation for the booted kernel under such events, with the invariant of
    its console.
  \<^item> \<open>Kernel_Halt\<close>: \<open>hcf\<close>, the loop around \<open>hlt\<close> at the end, and that it lasts.

  \<^bold>\<open>State and errors.\<close> A function of the source takes the state it works on and returns it
  updated. An access outside an array or through a null pointer has no value: it is \<open>None\<close> in
  the terminal and \<open>Inl\<close> of a fault elsewhere, and so is a loop of the source that halts the
  machine on purpose; where the console matters (\<open>_start\<close>, \<open>VMMInit\<close>, \<open>isrHandler\<close>) the
  result of a halt is the console at the halt. Integers that can wrap are words; indices of the terminal that are shown to
  stay small are natural numbers, with the subtractions that can wrap written out. Strings and
  buffers are lists of bytes. Static variables are fields of the state of their file.

  \<^bold>\<open>What the properties show.\<close> The allocator neither loses nor invents pages, and hands out
  disjoint blocks, until it merges across a gap or fills its table, which are stated as well.
  A terminal that is sent bytes and calls of its backend either keeps its invariant or was sent a
  colour index beyond the colour table, the one read out of bounds, which is characterised exactly; text is laid out from left to right with line wrap
  and scrolling; the frame buffer shows the screen after every flush. The commands have the
  effects of their documentation except for the deviations that are stated as theorems. The
  console is a log of lines from the first message on, so that the boot shows its four messages
  and nothing else; the boots that do not get that far are classified by what the loader provides. The
  descriptor tables decode to the segments and gates they are meant to be,
  and mapping a page changes the entry of that page and no other; building the tables for a memory
  map gives the identity on the usable pages, and stops exactly when the pages for the tables run
  out. After the boot, whatever events interrupt the machine, the console is the boot log with a
  line for each of them, and \<open>hcf\<close> holds the machine for good. An event without a case in
  \<open>isrHandler\<close> leaves the interrupted program as it was when the processor and the stub agree on the
  error code, which is decided for every event, and a
  page fault ends with both messages on a red screen, but for two cells. A terminal that is built
  with an allocator of its caller owns seven blocks, which a failed call and \<open>flanterm_fb_deinit\<close>
  give back.

  \<^bold>\<open>Bounds and fuel.\<close> Loops with a counter are folds over the range of the counter. The loops
  of \<open>int2str\<close>, \<open>uintptr2str\<close>, \<open>reverse\<close>, \<open>bisearch\<close>, \<open>sgr\<close> and of the string functions
  are functions with a termination proof; the loop of \<open>printf\<close> is a recursion over the format, whose
  index does not wrap for formats below 4 GiB. Fuel is used for two loops that need not end: \<open>sleep\<close>,
  where \<open>sleep_ends_iff\<close> says for any sequence of reads of the counter when there is enough, and the
  loop of \<open>VMMInit\<close> over a range of
  addresses, which does not end when the range reaches the end of the address space. For the memory
  maps of \<open>VMMInit_identity\<close>, more fuel than an entry has pages is enough.

  \<^bold>\<open>Parameters.\<close> What the boot loader provides (frame buffers, memory map), the addresses the
  linker chooses, the contents of uninitialised buffers, the callback of the terminal, the
  \<open>_malloc\<close> and \<open>_free\<close> of a caller, the vectors for which the processor pushes an error code,
  the code at the addresses in the gates (which the linker makes the stubs), and what the compiled \<open>isrHandler\<close> leaves in the registers and below its frame.

  \<^bold>\<open>Not modelled.\<close> Port access (\<open>sys/ports.h\<close>), which nothing calls; the protocol structs of
  \<open>limine.h\<close> that the kernel does not use; the task state descriptor and the types of
  \<open>sys/gdt.h\<close>, which nothing uses; the layout of the structs in memory, other than that of
  \<open>registers\<close>; interrupts that arrive while the kernel itself is printing, which \<open>_load_idt\<close>
  makes possible for the last message of the boot; the checks of \<open>iretq\<close> on the segments it pops.
\<close>

end
